(* ===== verification/Prelude.thy ===== *)
theory Prelude
  imports Main "HOL-Library.Word" "HOL-Library.Monad_Syntax"
begin

unbundle bit_operations_syntax

text \<open>
  Shared material of the development: the effect of a failing \<open>invariant()\<close> of
  src/src/mongo/util/assert_util.h, which aborts the process, as the value \<^const>\<open>None\<close> of
  the option monad, and the generic lemmas on options, lists and sums over lists that the
  component theories use.

  \<^item> \<open>run_simps\<close> collects the rules that split a successful run of a monadic
    definition into the facts that each of its \<open>invariant\<close> calls held.
  \<^item> \<open>sum_upd\<close> collects the linear equations for a total over a list after one entry of
    the store or of the list changed.
\<close>

named_theorems run_simps
named_theorems sum_upd

text \<open>The macro \<open>invariant(expr)\<close>: the run continues when the expression holds and the
  process aborts otherwise.\<close>

definition invariant :: "bool \<Rightarrow> unit option" where
  "invariant b = (if b then Some () else None)"

lemma invariant_True [simp]: "invariant True = Some ()"
  by (simp add: invariant_def)

lemma invariant_False [simp]: "invariant False = None"
  by (simp add: invariant_def)

lemma invariant_Some [run_simps, simp]: "invariant b = Some u \<longleftrightarrow> b"
  by (cases b) simp_all

lemma invariant_bind [run_simps]: "(invariant b \<bind> f) = Some x \<longleftrightarrow> b \<and> f () = Some x"
  by (cases b) simp_all

lemma bind_Some_iff [run_simps]: "(m \<bind> f) = Some x \<longleftrightarrow> (\<exists>y. m = Some y \<and> f y = Some x)"
  by (cases m) simp_all

lemma invariant_bind_eq: "b \<Longrightarrow> (invariant b \<bind> f) = f ()"
  by simp

subsection \<open>Totals over a list of addresses\<close>

text \<open>
  The lock manager keeps counters that equal the number of list members with some attribute.
  \<open>total f R xs\<close> adds up the attribute \<open>f\<close> of the objects that the store \<open>R\<close> holds at the
  addresses \<open>xs\<close>; the effect of one update of the store on it is a linear equation.
\<close>

definition total :: "('v \<Rightarrow> nat) \<Rightarrow> ('r \<Rightarrow> 'v) \<Rightarrow> 'r list \<Rightarrow> nat" where
  "total f R xs = (\<Sum>q\<leftarrow>xs. f (R q))"

lemma total_simps [simp]:
  "total f R [] = 0"
  "total f R (x # xs) = f (R x) + total f R xs"
  "total f R (xs @ ys) = total f R xs + total f R ys"
  by (simp_all add: total_def)

lemma total_cong: "(\<And>q. q \<in> set xs \<Longrightarrow> R' q = R q) \<Longrightarrow> total f R' xs = total f R xs"
  by (induction xs) auto

lemma total_upd_notin [simp]: "r \<notin> set xs \<Longrightarrow> total f (R(r := v)) xs = total f R xs"
  by (auto intro: total_cong)

lemma total_upd_in [sum_upd]:
  "distinct xs \<Longrightarrow> r \<in> set xs \<Longrightarrow> total f (R(r := v)) xs + f (R r) = total f R xs + f v"
  by (induction xs) auto

lemma total_remove1 [sum_upd]: "r \<in> set xs \<Longrightarrow> total f R (remove1 r xs) + f (R r) = total f R xs"
  by (induction xs) auto

lemma total_member_le: "r \<in> set xs \<Longrightarrow> f (R r) \<le> total f R xs"
  by (induction xs) auto

lemma total_pos_iff: "0 < total f R xs \<longleftrightarrow> (\<exists>q\<in>set xs. 0 < f (R q))"
  by (induction xs) auto

lemma total_gt_member:
  assumes "distinct xs" and "r \<in> set xs"
  shows "f (R r) < total f R xs \<longleftrightarrow> (\<exists>s\<in>set xs. s \<noteq> r \<and> 0 < f (R s))"
proof -
  have "f (R r) < total f R xs \<longleftrightarrow> 0 < total f R (remove1 r xs)"
    using total_remove1 [OF assms(2), of f R] by linarith
  also have "\<dots> \<longleftrightarrow> (\<exists>s\<in>set (remove1 r xs). 0 < f (R s))" by (rule total_pos_iff)
  finally show ?thesis using assms(1) by (auto simp: set_remove1_eq)
qed

subsection \<open>Words read bit by bit\<close>

lemma word_zero_iff: "w = (0 :: 'a::len word) \<longleftrightarrow> (\<forall>n. \<not> bit w n)"
  by (metis bit_word_eqI bit_0_eq bot_apply bot_bool_def)

lemma word_and_nonzero_iff: "(v :: 'a::len word) AND w \<noteq> 0 \<longleftrightarrow> (\<exists>n. bit v n \<and> bit w n)"
  by (simp add: word_zero_iff bit_and_iff)

lemma word_or_absorb_iff: "(v :: 'a::len word) OR w = v \<longleftrightarrow> (\<forall>n. bit w n \<longrightarrow> bit v n)"
  by (metis bit_or_iff bit_word_eqI)

lemma bit_push_bit_one: "bit (push_bit k (1 :: 'a::len word)) n \<longleftrightarrow> n = k \<and> n < LENGTH('a)"
  by (auto simp: bit_simps)

end
