(* ===== verification/LockRequestList.thy ===== *)
theory LockRequestList
  imports Prelude
begin

text \<open>
  The intrusive doubly linked list of src/src/mongo/db/concurrency/lock_request_list.h at the
  level of its pointers: the links live in the requests (\<open>LockRequest::prev\<close> and
  \<open>LockRequest::next\<close>), the list object holds the two ends, a null pointer is
  \<^const>\<open>None\<close>. The interface that the lock heads rely on is the locale \<open>request_list\<close>:
  the list object represents a sequence of requests, \<open>push_front\<close>, \<open>push_back\<close> and
  \<open>remove\<close> change it as the sequence operations do, never abort on an unlinked request, and
  leave lists over other requests alone. The interpretation at the end discharges these laws
  for the pointer code; it is what lets the theory of the lock heads work on plain lists.
\<close>

subsection \<open>Definitions\<close>

record 'r links =
  prev_ptr :: "'r option"
  next_ptr :: "'r option"

record 'r LockRequestList =
  front_ptr :: "'r option"
  back_ptr :: "'r option"

type_synonym 'r link_store = "'r \<Rightarrow> 'r links"

abbreviation set_next :: "'r \<Rightarrow> 'r option \<Rightarrow> 'r link_store \<Rightarrow> 'r link_store" where
  "set_next r p st \<equiv> st(r := (st r)\<lparr>next_ptr := p\<rparr>)"

abbreviation set_prev :: "'r \<Rightarrow> 'r option \<Rightarrow> 'r link_store \<Rightarrow> 'r link_store" where
  "set_prev r p st \<equiv> st(r := (st r)\<lparr>prev_ptr := p\<rparr>)"

definition push_front ::
  "'r \<Rightarrow> 'r LockRequestList \<Rightarrow> 'r link_store \<Rightarrow> ('r LockRequestList \<times> 'r link_store) option" where
  "push_front request l st = do {
     invariant (next_ptr (st request) = None);
     invariant (prev_ptr (st request) = None);
     case front_ptr l of
       None \<Rightarrow> Some (l\<lparr>front_ptr := Some request, back_ptr := Some request\<rparr>, st)
     | Some f \<Rightarrow>
         let st1 = set_next request (front_ptr l) st;
             st2 = set_prev f (Some request) st1
         in Some (l\<lparr>front_ptr := Some request\<rparr>, st2)
   }"

text \<open>With a non-null front and a null back the source would dereference a null pointer; the
  model makes that case abort too.\<close>

definition push_back ::
  "'r \<Rightarrow> 'r LockRequestList \<Rightarrow> 'r link_store \<Rightarrow> ('r LockRequestList \<times> 'r link_store) option" where
  "push_back request l st = do {
     invariant (next_ptr (st request) = None);
     invariant (prev_ptr (st request) = None);
     case front_ptr l of
       None \<Rightarrow> Some (l\<lparr>front_ptr := Some request, back_ptr := Some request\<rparr>, st)
     | Some f \<Rightarrow>
         (let st1 = set_prev request (back_ptr l) st
          in case back_ptr l of
               None \<Rightarrow> None
             | Some b \<Rightarrow> Some (l\<lparr>back_ptr := Some request\<rparr>, set_next b (Some request) st1))
   }"

definition remove ::
  "'r \<Rightarrow> 'r LockRequestList \<Rightarrow> 'r link_store \<Rightarrow> ('r LockRequestList \<times> 'r link_store) option" where
  "remove request l st =
     (let (l1, st1) =
        (case prev_ptr (st request) of
           Some p \<Rightarrow> (l, set_next p (next_ptr (st request)) st)
         | None \<Rightarrow> (l\<lparr>front_ptr := next_ptr (st request)\<rparr>, st));
       (l2, st2) =
        (case next_ptr (st1 request) of
           Some n \<Rightarrow> (l1, set_prev n (prev_ptr (st1 request)) st1)
         | None \<Rightarrow> (l1\<lparr>back_ptr := prev_ptr (st1 request)\<rparr>, st1));
       st3 = set_prev request None st2;
       st4 = set_next request None st3
     in Some (l2, st4))"

definition reset :: "'r LockRequestList" where
  "reset = \<lparr>front_ptr = None, back_ptr = None\<rparr>"

definition is_empty_list :: "'r LockRequestList \<Rightarrow> bool" where
  "is_empty_list l \<longleftrightarrow> front_ptr l = None"

text \<open>The loops of the lock manager over such a list, forwards from the front by \<open>next\<close>, with
  fuel: the requests visited, or \<open>None\<close> when the fuel runs out before the null pointer.\<close>

fun walk_next :: "nat \<Rightarrow> 'r link_store \<Rightarrow> 'r option \<Rightarrow> 'r list option" where
  "walk_next fuel st None = Some []"
| "walk_next 0 st (Some r) = None"
| "walk_next (Suc fuel) st (Some r) = map_option ((#) r) (walk_next fuel st (next_ptr (st r)))"

fun walk_prev :: "nat \<Rightarrow> 'r link_store \<Rightarrow> 'r option \<Rightarrow> 'r list option" where
  "walk_prev fuel st None = Some []"
| "walk_prev 0 st (Some r) = None"
| "walk_prev (Suc fuel) st (Some r) = map_option ((#) r) (walk_prev fuel st (prev_ptr (st r)))"

text \<open>A sequence of calls on one list, over the three operations it is given.\<close>

datatype 'r ListCall = CallPushFront 'r | CallPushBack 'r | CallRemove 'r

fun listCalls ::
  "('r \<Rightarrow> 'l \<Rightarrow> 's \<Rightarrow> ('l \<times> 's) option) \<Rightarrow> ('r \<Rightarrow> 'l \<Rightarrow> 's \<Rightarrow> ('l \<times> 's) option) \<Rightarrow> ('r \<Rightarrow> 'l \<Rightarrow> 's \<Rightarrow> ('l \<times> 's) option) \<Rightarrow>
   'r ListCall list \<Rightarrow> 'l \<Rightarrow> 's \<Rightarrow> ('l \<times> 's) option" where
  "listCalls pushf pushb rem [] l s = Some (l, s)"
| "listCalls pushf pushb rem (call # calls) l s = do {
     (l, s) \<leftarrow> (case call of CallPushFront r \<Rightarrow> pushf r l s | CallPushBack r \<Rightarrow> pushb r l s | CallRemove r \<Rightarrow> rem r l s);
     listCalls pushf pushb rem calls l s
   }"

text \<open>What the calls mean: a sequence without duplicates, on which a request is pushed only if absent, removed only if present.\<close>

fun sequenceCall :: "'r ListCall \<Rightarrow> 'r list \<Rightarrow> 'r list option" where
  "sequenceCall (CallPushFront r) xs = (if r \<in> set xs then None else Some (r # xs))"
| "sequenceCall (CallPushBack r) xs = (if r \<in> set xs then None else Some (xs @ [r]))"
| "sequenceCall (CallRemove r) xs = (if r \<in> set xs then Some (remove1 r xs) else None)"

fun sequenceCalls :: "'r ListCall list \<Rightarrow> 'r list \<Rightarrow> 'r list option" where
  "sequenceCalls [] xs = Some xs"
| "sequenceCalls (call # calls) xs = do { xs \<leftarrow> sequenceCall call xs; sequenceCalls calls xs }"

text \<open>What a list object stands for: \<open>dlseg st p xs n\<close> says that the requests \<open>xs\<close> are linked
  in this order, the first to \<open>p\<close> backwards and the last to \<open>n\<close> forwards.\<close>

definition head_or :: "'r option \<Rightarrow> 'r list \<Rightarrow> 'r option" where
  "head_or n xs = (case xs of [] \<Rightarrow> n | x # _ \<Rightarrow> Some x)"

definition last_or :: "'r option \<Rightarrow> 'r list \<Rightarrow> 'r option" where
  "last_or p xs = (if xs = [] then p else Some (last xs))"

fun dlseg :: "'r link_store \<Rightarrow> 'r option \<Rightarrow> 'r list \<Rightarrow> 'r option \<Rightarrow> bool" where
  "dlseg st p [] n \<longleftrightarrow> True"
| "dlseg st p (x # xs) n \<longleftrightarrow>
     prev_ptr (st x) = p \<and> next_ptr (st x) = head_or n xs \<and> dlseg st (Some x) xs n"

definition represents :: "'r link_store \<Rightarrow> 'r LockRequestList \<Rightarrow> 'r list \<Rightarrow> bool" where
  "represents st l xs \<longleftrightarrow>
     distinct xs \<and> dlseg st None xs None \<and>
     front_ptr l = head_or None xs \<and> back_ptr l = last_or None xs"

definition unlinked :: "'r link_store \<Rightarrow> 'r \<Rightarrow> bool" where
  "unlinked st r \<longleftrightarrow> prev_ptr (st r) = None \<and> next_ptr (st r) = None"

subsection \<open>Segments\<close>

lemma head_or_simps [simp]: "head_or n [] = n" "head_or n (x # xs) = Some x"
  by (simp_all add: head_or_def)

lemma last_or_simps [simp]:
  "last_or p [] = p" "last_or p (xs @ [x]) = Some x" "last_or p [x] = Some x"
  by (simp_all add: last_or_def)

lemma head_or_append [simp]: "head_or n (xs @ ys) = head_or (head_or n ys) xs"
  by (cases xs) simp_all

lemma last_or_append [simp]: "last_or p (xs @ ys) = last_or (last_or p xs) ys"
  by (simp add: last_or_def)

lemma dlseg_append:
  "dlseg st p (xs @ ys) n \<longleftrightarrow> dlseg st p xs (head_or n ys) \<and> dlseg st (last_or p xs) ys n"
  by (induction xs arbitrary: p) (auto simp: last_or_def)

lemma dlseg_frame [simp]: "r \<notin> set xs \<Longrightarrow> dlseg (st(r := v)) p xs n = dlseg st p xs n"
  by (induction xs arbitrary: p) auto

text \<open>Relinking one end of a segment.\<close>

lemma dlseg_set_next_last:
  "distinct (xs @ [x]) \<Longrightarrow> dlseg st p (xs @ [x]) n \<Longrightarrow> dlseg (set_next x n' st) p (xs @ [x]) n'"
  by (auto simp: dlseg_append)

lemma dlseg_set_prev_hd:
  "distinct (x # xs) \<Longrightarrow> dlseg st p (x # xs) n \<Longrightarrow> dlseg (set_prev x p' st) p' (x # xs) n"
  by auto

lemma walk_next_dlseg:
  "dlseg st p xs None \<Longrightarrow> length xs \<le> fuel \<Longrightarrow> walk_next fuel st (head_or None xs) = Some xs"
proof (induction xs arbitrary: p fuel)
  case Nil
  then show ?case by simp
next
  case (Cons x xs)
  then obtain k where k: "fuel = Suc k" by (cases fuel) auto
  with Cons show ?case by auto
qed

lemma walk_prev_dlseg:
  "dlseg st None xs n \<Longrightarrow> length xs \<le> fuel \<Longrightarrow> walk_prev fuel st (last_or None xs) = Some (rev xs)"
proof (induction xs arbitrary: n fuel rule: rev_induct)
  case Nil
  then show ?case by simp
next
  case (snoc x xs)
  then obtain k where k: "fuel = Suc k" by (cases fuel) auto
  with snoc show ?case by (auto simp: dlseg_append)
qed

subsection \<open>The operations act on the represented sequence\<close>

lemma represents_reset: "represents st reset []"
  by (simp add: represents_def reset_def)

lemma represents_frame: "r \<notin> set xs \<Longrightarrow> represents (st(r := v)) l xs = represents st l xs"
  by (simp add: represents_def)

lemma push_front_represents:
  assumes rep: "represents st l xs" and free: "unlinked st r" and new: "r \<notin> set xs"
  shows "\<exists>l' st'. push_front r l st = Some (l', st') \<and> represents st' l' (r # xs) \<and>
    (\<forall>q. q \<notin> insert r (set xs) \<longrightarrow> st' q = st q)"
proof (cases xs)
  case Nil
  with rep free show ?thesis
    by (auto simp: represents_def push_front_def unlinked_def)
next
  case (Cons x ys)
  with new have "r \<noteq> x" by simp
  with rep free new Cons show ?thesis
    by (auto simp: represents_def push_front_def unlinked_def last_or_def)
qed

lemma push_back_represents:
  assumes rep: "represents st l xs" and free: "unlinked st r" and new: "r \<notin> set xs"
  shows "\<exists>l' st'. push_back r l st = Some (l', st') \<and> represents st' l' (xs @ [r]) \<and>
    (\<forall>q. q \<notin> insert r (set xs) \<longrightarrow> st' q = st q)"
proof (cases xs rule: rev_cases)
  case Nil
  with rep free show ?thesis
    by (auto simp: represents_def push_back_def unlinked_def)
next
  case (snoc ys x)
  with new have "r \<noteq> x" by simp
  with rep free new snoc show ?thesis
    by (cases ys) (auto simp: represents_def push_back_def unlinked_def dlseg_append last_or_def)
qed

lemma remove_represents:
  assumes rep: "represents st l xs" and r: "r \<in> set xs"
  shows "\<exists>l' st'. remove r l st = Some (l', st') \<and> represents st' l' (remove1 r xs) \<and>
    unlinked st' r \<and> (\<forall>q. q \<notin> set xs \<longrightarrow> st' q = st q)"
proof -
  from r obtain ys zs where xs: "xs = ys @ r # zs" by (meson split_list)
  with rep have d: "distinct (ys @ r # zs)" by (simp add: represents_def)
  then have rem: "remove1 r xs = ys @ zs" by (simp add: xs remove1_append)
  from rep xs have seg: "dlseg st None ys (Some r)" "dlseg st (Some r) zs None"
      "prev_ptr (st r) = last_or None ys" "next_ptr (st r) = head_or None zs"
    by (auto simp: represents_def dlseg_append)
  from rep xs have ends: "front_ptr l = head_or (Some r) ys" "back_ptr l = last_or (Some r) zs"
    by (auto simp: represents_def last_or_def)
  show ?thesis
  proof (cases ys rule: rev_cases)
    case Nil
    with d seg ends rem xs show ?thesis
      by (cases zs) (auto simp: remove_def represents_def unlinked_def last_or_def)
  next
    case (snoc us u)
    with d seg ends rem xs show ?thesis
      by (cases zs) (auto simp: remove_def represents_def unlinked_def last_or_def dlseg_append)
  qed
qed

subsection \<open>The interface\<close>

locale request_list =
  fixes rel :: "'s \<Rightarrow> 'l \<Rightarrow> 'r list \<Rightarrow> bool"
    and free :: "'s \<Rightarrow> 'r \<Rightarrow> bool"
    and pushf pushb rem :: "'r \<Rightarrow> 'l \<Rightarrow> 's \<Rightarrow> ('l \<times> 's) option"
    and agree :: "'r set \<Rightarrow> 's \<Rightarrow> 's \<Rightarrow> bool"
  assumes rel_distinct: "rel s l xs \<Longrightarrow> distinct xs"
    and rel_agree: "rel s l xs \<Longrightarrow> agree A s s' \<Longrightarrow> set xs \<inter> A = {} \<Longrightarrow> rel s' l xs"
    and free_agree: "free s r \<Longrightarrow> agree A s s' \<Longrightarrow> r \<notin> A \<Longrightarrow> free s' r"
    and pushf_rel: "rel s l xs \<Longrightarrow> free s r \<Longrightarrow> r \<notin> set xs \<Longrightarrow>
      \<exists>l' s'. pushf r l s = Some (l', s') \<and> rel s' l' (r # xs) \<and> agree (insert r (set xs)) s s'"
    and pushb_rel: "rel s l xs \<Longrightarrow> free s r \<Longrightarrow> r \<notin> set xs \<Longrightarrow>
      \<exists>l' s'. pushb r l s = Some (l', s') \<and> rel s' l' (xs @ [r]) \<and> agree (insert r (set xs)) s s'"
    and rem_rel: "rel s l xs \<Longrightarrow> r \<in> set xs \<Longrightarrow>
      \<exists>l' s'. rem r l s = Some (l', s') \<and> rel s' l' (remove1 r xs) \<and> free s' r \<and>
        agree (set xs) s s'"
begin

text \<open>The step of \<open>_onLockModeChanged\<close>: take a request off one list and append it to another.\<close>

lemma transfer:
  assumes from_list: "rel s l xs" and to_list: "rel s k ys"
    and disjoint: "set xs \<inter> set ys = {}" and r: "r \<in> set xs"
  shows "\<exists>l' s1 k' s2. rem r l s = Some (l', s1) \<and> pushb r k s1 = Some (k', s2) \<and>
    rel s2 l' (remove1 r xs) \<and> rel s2 k' (ys @ [r])"
proof -
  from rem_rel [OF from_list r] obtain l' s1 where rem: "rem r l s = Some (l', s1)"
    and l': "rel s1 l' (remove1 r xs)" and free: "free s1 r" and a1: "agree (set xs) s s1"
    by blast
  have k: "rel s1 k ys" using to_list a1 disjoint by (metis rel_agree inf_commute)
  have "r \<notin> set ys" using r disjoint by auto
  from pushb_rel [OF k free this] obtain k' s2 where push: "pushb r k s1 = Some (k', s2)"
    and k': "rel s2 k' (ys @ [r])" and a2: "agree (insert r (set ys)) s1 s2"
    by blast
  have "set (remove1 r xs) \<inter> insert r (set ys) = {}"
    using rel_distinct [OF from_list] disjoint by (auto simp: set_remove1_eq)
  with l' a2 have "rel s2 l' (remove1 r xs)" by (rule rel_agree)
  with rem push k' show ?thesis by blast
qed

text \<open>The calls simulate the operations on sequences: one call, then any number of them.\<close>

lemma call_simulates:
  assumes rel: "rel s l xs" and unused: "\<forall>q. q \<notin> set xs \<longrightarrow> free s q" and call: "sequenceCall call xs = Some ys"
  shows "\<exists>l' s'. (case call of CallPushFront r \<Rightarrow> pushf r l s | CallPushBack r \<Rightarrow> pushb r l s | CallRemove r \<Rightarrow> rem r l s) = Some (l', s') \<and>
    rel s' l' ys \<and> (\<forall>q. q \<notin> set ys \<longrightarrow> free s' q)"
proof (cases call)
  case (CallPushFront r)
  then have r: "r \<notin> set xs" "ys = r # xs" using call by (auto split: if_splits)
  then obtain l' s' where "pushf r l s = Some (l', s')" "rel s' l' ys" "agree (set ys) s s'"
    using pushf_rel [OF rel, of r] unused by auto
  moreover have "\<forall>q. q \<notin> set ys \<longrightarrow> free s' q" using unused r \<open>agree (set ys) s s'\<close> by (auto intro: free_agree)
  ultimately show ?thesis using CallPushFront by auto
next
  case (CallPushBack r)
  then have r: "r \<notin> set xs" "ys = xs @ [r]" using call by (auto split: if_splits)
  then obtain l' s' where "pushb r l s = Some (l', s')" "rel s' l' ys" "agree (set ys) s s'"
    using pushb_rel [OF rel, of r] unused by auto
  moreover have "\<forall>q. q \<notin> set ys \<longrightarrow> free s' q" using unused r \<open>agree (set ys) s s'\<close> by (auto intro: free_agree)
  ultimately show ?thesis using CallPushBack by auto
next
  case (CallRemove r)
  then have r: "r \<in> set xs" "ys = remove1 r xs" using call by (auto split: if_splits)
  then obtain l' s' where "rem r l s = Some (l', s')" "rel s' l' ys" "free s' r" "agree (set xs) s s'"
    using rem_rel [OF rel, of r] by auto
  moreover have "free s' q" if "q \<notin> set ys" for q
    using that unused r rel_distinct [OF rel] \<open>free s' r\<close> free_agree [OF _ \<open>agree (set xs) s s'\<close>] by (cases "q = r") auto
  ultimately show ?thesis using CallRemove by auto
qed

lemma calls_simulate:
  "rel s l xs \<Longrightarrow> \<forall>q. q \<notin> set xs \<longrightarrow> free s q \<Longrightarrow> sequenceCalls calls xs = Some ys \<Longrightarrow>
   \<exists>l' s'. listCalls pushf pushb rem calls l s = Some (l', s') \<and> rel s' l' ys \<and> (\<forall>q. q \<notin> set ys \<longrightarrow> free s' q)"
proof (induction calls arbitrary: s l xs)
  case (Cons call calls)
  then obtain zs where zs: "sequenceCall call xs = Some zs" "sequenceCalls calls zs = Some ys" by (auto simp: bind_eq_Some_conv)
  then obtain l1 s1 where one: "(case call of CallPushFront r \<Rightarrow> pushf r l s | CallPushBack r \<Rightarrow> pushb r l s | CallRemove r \<Rightarrow> rem r l s) = Some (l1, s1)"
      "rel s1 l1 zs" "\<forall>q. q \<notin> set zs \<longrightarrow> free s1 q"
    using call_simulates [OF Cons.prems(1,2)] by blast
  then show ?case using Cons.IH [OF one(2,3) zs(2)] by simp
qed simp

end

interpretation lrl: request_list represents unlinked push_front push_back remove
  "\<lambda>A st st'. \<forall>q. q \<notin> A \<longrightarrow> st' q = st q"
proof unfold_locales
  fix s :: "'r link_store" and l xs A s'
  assume rep: "represents s l xs" and agree: "\<forall>q. q \<notin> A \<longrightarrow> s' q = s q"
    and disj: "set xs \<inter> A = {}"
  have "dlseg s' p xs n = dlseg s p xs n" for p n
    using disj by (induction xs arbitrary: p) (auto simp: agree)
  with rep show "represents s' l xs" by (simp add: represents_def)
next
  fix s :: "'r link_store" and l xs r
  assume "represents s l xs" "unlinked s r" "r \<notin> set xs"
  then show "\<exists>l' s'. push_front r l s = Some (l', s') \<and> represents s' l' (r # xs) \<and>
      (\<forall>q. q \<notin> insert r (set xs) \<longrightarrow> s' q = s q)"
    by (rule push_front_represents)
next
  fix s :: "'r link_store" and l xs r
  assume "represents s l xs" "unlinked s r" "r \<notin> set xs"
  then show "\<exists>l' s'. push_back r l s = Some (l', s') \<and> represents s' l' (xs @ [r]) \<and>
      (\<forall>q. q \<notin> insert r (set xs) \<longrightarrow> s' q = s q)"
    by (rule push_back_represents)
next
  fix s :: "'r link_store" and l xs r
  assume "represents s l xs" "r \<in> set xs"
  then show "\<exists>l' s'. remove r l s = Some (l', s') \<and> represents s' l' (remove1 r xs) \<and>
      unlinked s' r \<and> (\<forall>q. q \<notin> set xs \<longrightarrow> s' q = s q)"
    by (rule remove_represents)
qed (auto simp: represents_def unlinked_def)

subsection \<open>Refinement\<close>

text \<open>C11: The linked list refines the sequence of requests. From an empty list over unlinked requests, every sequence of calls that
  pushes absent requests and removes present ones runs without failing an invariant or following a null pointer; the list
  object then represents the sequence that the calls compute, following the next pointers from the front visits exactly that
  sequence, following the previous pointers from the back its reverse, and the list is empty exactly if the sequence is.\<close>

theorem request_list_refinement:
  assumes "sequenceCalls calls [] = Some xs"
  shows "\<exists>l st. listCalls push_front push_back remove calls reset (\<lambda>_. \<lparr>prev_ptr = None, next_ptr = None\<rparr>) = Some (l, st) \<and>
    represents st l xs \<and> walk_next (length xs) st (front_ptr l) = Some xs \<and> walk_prev (length xs) st (back_ptr l) = Some (rev xs) \<and>
    (is_empty_list l \<longleftrightarrow> xs = [])"
proof -
  let ?st = "(\<lambda>_. \<lparr>prev_ptr = None, next_ptr = None\<rparr>) :: 'a link_store"
  have "\<forall>q. q \<notin> set [] \<longrightarrow> unlinked ?st q" by (simp add: unlinked_def)
  from lrl.calls_simulate [OF represents_reset this assms] obtain l st where
    run: "listCalls push_front push_back remove calls reset ?st = Some (l, st)" and rep: "represents st l xs" by blast
  then have "front_ptr l = head_or None xs" "back_ptr l = last_or None xs" "dlseg st None xs None" by (simp_all add: represents_def)
  then show ?thesis using run rep walk_next_dlseg [of st None xs "length xs"] walk_prev_dlseg [of st xs None "length xs"]
    by (cases xs) (auto simp: is_empty_list_def)
qed

theorem request_list_refinement_witness:
  "sequenceCalls [CallPushBack 1, CallPushBack 2, CallPushFront 3, CallRemove (1::nat)] [] = Some [3, 2] \<and>
   (\<exists>l st. listCalls push_front push_back remove [CallPushBack 1, CallPushBack 2, CallPushFront 3, CallRemove 1] reset
      (\<lambda>_. \<lparr>prev_ptr = None, next_ptr = None\<rparr>) = Some (l, st) \<and> walk_next 2 st (front_ptr l) = Some [3, 2::nat])"
proof -
  have calls: "sequenceCalls [CallPushBack 1, CallPushBack 2, CallPushFront 3, CallRemove (1::nat)] [] = Some [3, 2]" by simp
  show ?thesis using request_list_refinement [OF calls] calls by (auto simp: numeral_2_eq_2)
qed

end
