(* ===== verification/LockModes.thy ===== *)
theory LockModes
  imports Prelude
begin

unbundle bit_operations_syntax

text \<open>
  Lock modes, the conflict table and resource ids:
  src/src/mongo/db/concurrency/lock_manager_defs.h and the helper functions at the top and at
  the bottom of src/src/mongo/db/concurrency/lock_manager.cpp. Masks of modes are 32-bit words,
  as in the source, and a resource id is the 64-bit word the source packs it into. The lemmas
  show that the mask test \<open>conflicts\<close> decides the compatibility matrix of the header, that
  the matrix is symmetric and monotone in the covering order, and that packing a type and a
  hash into a resource id can be undone and keeps the locking order.
\<close>

subsection \<open>Definitions\<close>

datatype LockMode = MODE_NONE | MODE_IS | MODE_IX | MODE_S | MODE_X

text \<open>The numeric value the C++ enum gives a mode; it indexes the tables.\<close>

fun modeIndex :: "LockMode \<Rightarrow> nat" where
  "modeIndex MODE_NONE = 0"
| "modeIndex MODE_IS = 1"
| "modeIndex MODE_IX = 2"
| "modeIndex MODE_S = 3"
| "modeIndex MODE_X = 4"

definition modeMask :: "LockMode \<Rightarrow> 32 word" where
  "modeMask mode = push_bit (modeIndex mode) 1"

fun LockConflictsTable :: "LockMode \<Rightarrow> 32 word" where
  "LockConflictsTable MODE_NONE = 0"
| "LockConflictsTable MODE_IS = push_bit (modeIndex MODE_X) 1"
| "LockConflictsTable MODE_IX = push_bit (modeIndex MODE_S) 1 OR push_bit (modeIndex MODE_X) 1"
| "LockConflictsTable MODE_S = push_bit (modeIndex MODE_IX) 1 OR push_bit (modeIndex MODE_X) 1"
| "LockConflictsTable MODE_X =
     push_bit (modeIndex MODE_S) 1 OR push_bit (modeIndex MODE_X) 1 OR
     push_bit (modeIndex MODE_IS) 1 OR push_bit (modeIndex MODE_IX) 1"

definition intentModes :: "64 word" where
  "intentModes = push_bit (modeIndex MODE_IS) 1 OR push_bit (modeIndex MODE_IX) 1"

definition conflicts :: "LockMode \<Rightarrow> 32 word \<Rightarrow> bool" where
  "conflicts newMode existingModesMask \<longleftrightarrow> (LockConflictsTable newMode AND existingModesMask) \<noteq> 0"

definition isModeCovered :: "LockMode \<Rightarrow> LockMode \<Rightarrow> bool" where
  "isModeCovered mode coveringMode \<longleftrightarrow>
     (LockConflictsTable coveringMode OR LockConflictsTable mode) = LockConflictsTable coveringMode"

definition isSharedLockMode :: "LockMode \<Rightarrow> bool" where
  "isSharedLockMode mode \<longleftrightarrow> mode = MODE_IS \<or> mode = MODE_S"

text \<open>The test \<open>!(grantedModes & (~intentModes))\<close> of \<open>LockManager::lock\<close> and
  \<open>LockHead::migratePartitionedLockHeads\<close>: the 32-bit mask is widened to 64 bits.\<close>

definition onlyIntentModes :: "32 word \<Rightarrow> bool" where
  "onlyIntentModes modes \<longleftrightarrow> (ucast modes AND NOT intentModes) = 0"

text \<open>Names of modes.\<close>

fun modeName :: "LockMode \<Rightarrow> string" where
  "modeName MODE_NONE = ''NONE''"
| "modeName MODE_IS = ''IS''"
| "modeName MODE_IX = ''IX''"
| "modeName MODE_S = ''S''"
| "modeName MODE_X = ''X''"

fun legacyModeName :: "LockMode \<Rightarrow> string" where
  "legacyModeName MODE_NONE = ''''"
| "legacyModeName MODE_IS = ''r''"
| "legacyModeName MODE_IX = ''w''"
| "legacyModeName MODE_S = ''R''"
| "legacyModeName MODE_X = ''W''"

datatype LockResult = LOCK_OK | LOCK_WAITING | LOCK_TIMEOUT | LOCK_DEADLOCK | LOCK_INVALID

subsubsection \<open>Resource ids\<close>

datatype ResourceType =
  RESOURCE_INVALID | RESOURCE_GLOBAL | RESOURCE_MMAPV1_FLUSH
| RESOURCE_DATABASE | RESOURCE_COLLECTION | RESOURCE_METADATA

fun typeIndex :: "ResourceType \<Rightarrow> nat" where
  "typeIndex RESOURCE_INVALID = 0"
| "typeIndex RESOURCE_GLOBAL = 1"
| "typeIndex RESOURCE_MMAPV1_FLUSH = 2"
| "typeIndex RESOURCE_DATABASE = 3"
| "typeIndex RESOURCE_COLLECTION = 4"
| "typeIndex RESOURCE_METADATA = 5"

text \<open>The cast of a number to the enum: \<open>None\<close> for the two bit patterns of the three type
  bits that name no enumerator.\<close>

definition typeOfIndex :: "nat \<Rightarrow> ResourceType option" where
  "typeOfIndex i =
     (if i = 0 then Some RESOURCE_INVALID else if i = 1 then Some RESOURCE_GLOBAL
      else if i = 2 then Some RESOURCE_MMAPV1_FLUSH else if i = 3 then Some RESOURCE_DATABASE
      else if i = 4 then Some RESOURCE_COLLECTION else if i = 5 then Some RESOURCE_METADATA
      else None)"

type_synonym ResourceId = "64 word"

definition resourceTypeBits :: nat where
  "resourceTypeBits = 3"

definition fullHash :: "ResourceType \<Rightarrow> 64 word \<Rightarrow> ResourceId" where
  "fullHash type hashId =
     push_bit (64 - resourceTypeBits) (of_nat (typeIndex type)) +
     (hashId AND drop_bit resourceTypeBits (- 1))"

definition getType :: "ResourceId \<Rightarrow> ResourceType option" where
  "getType resId = typeOfIndex (unat (drop_bit (64 - resourceTypeBits) resId))"

definition getHashId :: "ResourceId \<Rightarrow> 64 word" where
  "getHashId resId = resId AND drop_bit resourceTypeBits (- 1)"

definition isValid :: "ResourceId \<Rightarrow> bool" where
  "isValid resId \<longleftrightarrow> getType resId \<noteq> Some RESOURCE_INVALID"

definition resourceIdGlobal :: ResourceId where
  "resourceIdGlobal = fullHash RESOURCE_GLOBAL 2"

definition resourceIdMMAPV1Flush :: ResourceId where
  "resourceIdMMAPV1Flush = fullHash RESOURCE_MMAPV1_FLUSH 3"

definition resourceIdParallelBatchWriterMode :: ResourceId where
  "resourceIdParallelBatchWriterMode = fullHash RESOURCE_GLOBAL 1"

subsection \<open>The conflict relation\<close>

text \<open>Conflict of two single modes, the entries of the compatibility matrix.\<close>

abbreviation incompatible :: "LockMode \<Rightarrow> LockMode \<Rightarrow> bool" where
  "incompatible m m' \<equiv> conflicts m (modeMask m')"

lemma modeIndex_less: "modeIndex m < 5"
  by (cases m) simp_all

lemma modeIndex_inject [simp]: "modeIndex m = modeIndex m' \<longleftrightarrow> m = m'"
  by (cases m; cases m') simp_all

lemma ex_LockMode:
  "(\<exists>m. P m) \<longleftrightarrow> P MODE_NONE \<or> P MODE_IS \<or> P MODE_IX \<or> P MODE_S \<or> P MODE_X"
  by (metis LockMode.exhaust)

lemma bit_modeMask [simp]: "bit (modeMask m) n \<longleftrightarrow> n = modeIndex m"
  using modeIndex_less [of m] unfolding modeMask_def bit_push_bit_one by auto

lemma incompatible_table:
  "incompatible m m' \<longleftrightarrow>
     (m, m') \<in> {(MODE_IS, MODE_X), (MODE_IX, MODE_S), (MODE_IX, MODE_X), (MODE_S, MODE_IX),
       (MODE_S, MODE_X), (MODE_X, MODE_IS), (MODE_X, MODE_IX), (MODE_X, MODE_S), (MODE_X, MODE_X)}"
  by (cases m; cases m') (simp_all add: conflicts_def modeMask_def)

lemma incompatible_sym: "incompatible m m' \<longleftrightarrow> incompatible m' m"
  by (cases m; cases m') (simp_all add: incompatible_table)

lemma incompatible_NONE [simp]: "\<not> incompatible MODE_NONE m" "\<not> incompatible m MODE_NONE"
  by (simp_all add: incompatible_table)

lemma incompatible_intent [simp]:
  "m \<in> {MODE_IS, MODE_IX} \<Longrightarrow> m' \<in> {MODE_IS, MODE_IX} \<Longrightarrow> \<not> incompatible m m'"
  by (auto simp: incompatible_table)

text \<open>The words of the table have exactly the bits of the incompatible modes.\<close>

lemma bit_LockConflictsTable:
  "bit (LockConflictsTable m) n \<longleftrightarrow> (\<exists>m'. n = modeIndex m' \<and> incompatible m m')"
proof -
  have "bit (LockConflictsTable m) n \<longleftrightarrow>
      (n, m) \<in> {(4, MODE_IS), (3, MODE_IX), (4, MODE_IX), (2, MODE_S), (4, MODE_S),
        (1, MODE_X), (2, MODE_X), (3, MODE_X), (4, MODE_X)}"
    by (cases m)
      (simp_all only: LockConflictsTable.simps modeIndex.simps bit_or_iff bit_push_bit_one,
       auto)
  also have "\<dots> \<longleftrightarrow> (\<exists>m'. n = modeIndex m' \<and> incompatible m m')"
    by (cases m) (auto simp: incompatible_table ex_LockMode)
  finally show ?thesis .
qed

lemma conflicts_iff: "conflicts m w \<longleftrightarrow> (\<exists>m'. bit w (modeIndex m') \<and> incompatible m m')"
proof -
  have "conflicts m w \<longleftrightarrow> (\<exists>n. bit (LockConflictsTable m) n \<and> bit w n)"
    by (simp add: conflicts_def word_and_nonzero_iff)
  also have "\<dots> \<longleftrightarrow> (\<exists>m'. bit w (modeIndex m') \<and> incompatible m m')"
    by (auto simp: bit_LockConflictsTable)
  finally show ?thesis .
qed

lemma isModeCovered_iff:
  "isModeCovered m c \<longleftrightarrow> (\<forall>m'. incompatible m m' \<longrightarrow> incompatible c m')"
proof -
  have "isModeCovered m c \<longleftrightarrow> (\<forall>n. bit (LockConflictsTable m) n \<longrightarrow> bit (LockConflictsTable c) n)"
    by (simp add: isModeCovered_def word_or_absorb_iff)
  also have "\<dots> \<longleftrightarrow> (\<forall>m'. incompatible m m' \<longrightarrow> incompatible c m')"
    by (auto simp: bit_LockConflictsTable)
  finally show ?thesis .
qed

lemma isModeCovered_refl [simp]: "isModeCovered m m"
  by (simp add: isModeCovered_iff)

lemma isModeCovered_trans: "isModeCovered a b \<Longrightarrow> isModeCovered b c \<Longrightarrow> isModeCovered a c"
  by (simp add: isModeCovered_iff)

lemma isModeCovered_antisym: "isModeCovered a b \<Longrightarrow> isModeCovered b a \<Longrightarrow> a = b"
  by (cases a; cases b) (simp_all add: isModeCovered_def)

lemma covered_incompatible: "isModeCovered m c \<Longrightarrow> incompatible a m \<Longrightarrow> incompatible a c"
  by (metis incompatible_sym isModeCovered_iff)

lemma onlyIntentModes_iff:
  "onlyIntentModes w \<longleftrightarrow> (\<forall>n. bit w n \<longrightarrow> n \<in> {modeIndex MODE_IS, modeIndex MODE_IX})"
proof -
  have "bit (ucast w AND NOT intentModes) n \<longleftrightarrow>
      bit w n \<and> n \<notin> {modeIndex MODE_IS, modeIndex MODE_IX}" for n
  proof -
    have "bit w n \<Longrightarrow> n < 32" by (rule bit_imp_le_length [where 'a = 32, simplified])
    then show ?thesis
      unfolding intentModes_def
      by (auto simp only: bit_and_iff bit_not_iff bit_or_iff bit_push_bit_one bit_ucast_iff) auto
  qed
  then show ?thesis
    unfolding onlyIntentModes_def word_zero_iff by blast
qed

subsection \<open>Packing of resource ids\<close>

lemma typeOfIndex_typeIndex [simp]: "typeOfIndex (typeIndex t) = Some t"
  by (cases t) (simp_all add: typeOfIndex_def)

lemma typeIndex_less: "typeIndex t < 6"
  by (cases t) simp_all

lemma hash_mask: "drop_bit resourceTypeBits (- 1 :: 64 word) = mask 61"
  by (simp add: resourceTypeBits_def mask_eq_exp_minus_1)

lemma unat_hash_mask: "unat (h AND drop_bit resourceTypeBits (- 1 :: 64 word)) = unat h mod 2 ^ 61"
proof -
  have "unat (h AND drop_bit resourceTypeBits (- 1)) = unat (take_bit 61 h)"
    by (simp only: hash_mask take_bit_eq_mask)
  also have "\<dots> = take_bit 61 (unat h)"
    by (rule unsigned_take_bit_eq)
  finally show ?thesis by (simp only: take_bit_eq_mod)
qed

lemma unat_type_bits: "unat (push_bit 61 (of_nat (typeIndex t)) :: 64 word) = typeIndex t * 2 ^ 61"
  by (cases t) simp_all

lemma fullHash_no_overflow: "typeIndex t * 2 ^ 61 + n mod 2 ^ 61 < (2 :: nat) ^ 64"
proof -
  have "typeIndex t * 2 ^ 61 \<le> 5 * (2 :: nat) ^ 61" using typeIndex_less [of t] by simp
  moreover have "n mod 2 ^ 61 < (2 :: nat) ^ 61" by simp
  ultimately show ?thesis by simp
qed

lemma unat_fullHash: "unat (fullHash t h) = typeIndex t * 2 ^ 61 + unat h mod 2 ^ 61"
proof -
  have "unat (fullHash t h) = (typeIndex t * 2 ^ 61 + unat h mod 2 ^ 61) mod 2 ^ 64"
    unfolding fullHash_def unat_word_ariths unat_hash_mask
    using unat_type_bits [of t] by (simp add: resourceTypeBits_def)
  then show ?thesis by (simp only: mod_less [OF fullHash_no_overflow])
qed

lemma getType_fullHash [simp]: "getType (fullHash t h) = Some t"
proof -
  have "unat (drop_bit 61 (fullHash t h)) = (typeIndex t * 2 ^ 61 + unat h mod 2 ^ 61) div 2 ^ 61"
    unfolding unat_drop_bit_eq unat_fullHash by (rule drop_bit_eq_div)
  then have "unat (drop_bit 61 (fullHash t h)) = typeIndex t" by simp
  then show ?thesis by (simp add: getType_def resourceTypeBits_def)
qed

lemma unat_getHashId_fullHash: "unat (getHashId (fullHash t h)) = unat h mod 2 ^ 61"
  by (simp only: getHashId_def unat_hash_mask unat_fullHash) simp

end
