(* ===== verification/LockHead.thy ===== *)
theory LockHead
  imports LockModes LockRequestList
begin

unbundle bit_operations_syntax

text \<open>
  Lock requests and the per-resource lock head: \<open>struct LockRequest\<close> of
  src/src/mongo/db/concurrency/lock_manager_defs.h, \<open>struct LockHead\<close> and
  \<open>LockManager::_onLockModeChanged\<close> of src/src/mongo/db/concurrency/lock_manager.cpp.

  Requests are objects shared between the lists, so they live in a store indexed by their
  address. The intrusive lists of the theory of request lists appear here as the sequences of
  addresses they represent. Counters are natural numbers: a resource has fewer than
  \<open>2 ^ 32\<close> outstanding requests. A failing \<open>invariant()\<close> is the value \<open>None\<close>.

  The invariant of a lock head has three parts: \<open>head_wf\<close> (the counters and masks describe
  the lists), \<open>head_safe\<close> (no two granted requests conflict) and \<open>head_live\<close> (no
  request waits that could be granted now). The lemmas show that a new request keeps all
  three and that \<open>_onLockModeChanged\<close>, called after modes were given up, never aborts, keeps
  the first two and establishes the third.
\<close>

subsection \<open>Definitions\<close>

datatype Status = STATUS_NEW | STATUS_GRANTED | STATUS_WAITING | STATUS_CONVERTING

type_synonym RequestPtr = nat
type_synonym LockerId = nat

record LockRequest =
  locker :: LockerId
  notify_obj :: nat
  enqueueAtFront :: bool
  compatibleFirst :: bool
  partitioned :: bool
  recursiveCount :: nat
  lock_ptr :: "ResourceId option"
  partitionedLock :: "(nat \<times> ResourceId) option"
  status :: Status
  mode :: LockMode
  convertMode :: LockMode

type_synonym store = "RequestPtr \<Rightarrow> LockRequest"

text \<open>\<open>LockRequest::initNew\<close>: every field but \<open>partitionedLock\<close> (and the links) is set.\<close>

definition initNewRequest :: "LockerId \<Rightarrow> nat \<Rightarrow> LockRequest \<Rightarrow> LockRequest" where
  "initNewRequest l n q = q\<lparr>locker := l, notify_obj := n, enqueueAtFront := False,
     compatibleFirst := False, recursiveCount := 0, lock_ptr := None, status := STATUS_NEW,
     partitioned := False, mode := MODE_NONE, convertMode := MODE_NONE\<rparr>"

record LockHead =
  resourceId :: ResourceId
  grantedList :: "RequestPtr list"
  grantedCounts :: "LockMode \<Rightarrow> nat"
  grantedModes :: "32 word"
  conflictList :: "RequestPtr list"
  conflictCounts :: "LockMode \<Rightarrow> nat"
  conflictModes :: "32 word"
  partitions :: "nat list"
  conversionsCount :: nat
  compatibleFirstCount :: nat

definition initNewHead :: "ResourceId \<Rightarrow> LockHead" where
  "initNewHead resId = \<lparr>resourceId = resId,
     grantedList = [], grantedCounts = (\<lambda>_. 0), grantedModes = 0,
     conflictList = [], conflictCounts = (\<lambda>_. 0), conflictModes = 0,
     partitions = [], conversionsCount = 0, compatibleFirstCount = 0\<rparr>"

definition isPartitioned :: "LockHead \<Rightarrow> bool" where
  "isPartitioned h \<longleftrightarrow> partitions h \<noteq> []"

definition findRequest :: "LockerId \<Rightarrow> LockHead \<Rightarrow> store \<Rightarrow> RequestPtr option" where
  "findRequest lockerId h R =
     (case List.find (\<lambda>it. locker (R it) = lockerId) (grantedList h) of
        Some it \<Rightarrow> Some it
      | None \<Rightarrow> List.find (\<lambda>it. locker (R it) = lockerId) (conflictList h))"

subsubsection \<open>Counters and masks\<close>

definition incGrantedModeCount :: "LockMode \<Rightarrow> LockHead \<Rightarrow> LockHead option" where
  "incGrantedModeCount m h =
     (let h = h\<lparr>grantedCounts := (grantedCounts h)(m := grantedCounts h m + 1)\<rparr>
      in if grantedCounts h m = 1 then do {
           invariant ((grantedModes h AND modeMask m) = 0);
           Some (h\<lparr>grantedModes := grantedModes h OR modeMask m\<rparr>)
         } else Some h)"

definition decGrantedModeCount :: "LockMode \<Rightarrow> LockHead \<Rightarrow> LockHead option" where
  "decGrantedModeCount m h = do {
     invariant (grantedCounts h m \<ge> 1);
     let h = h\<lparr>grantedCounts := (grantedCounts h)(m := grantedCounts h m - 1)\<rparr>;
     if grantedCounts h m = 0 then do {
       invariant ((grantedModes h AND modeMask m) = modeMask m);
       Some (h\<lparr>grantedModes := grantedModes h AND NOT (modeMask m)\<rparr>)
     } else Some h
   }"

definition incConflictModeCount :: "LockMode \<Rightarrow> LockHead \<Rightarrow> LockHead option" where
  "incConflictModeCount m h =
     (let h = h\<lparr>conflictCounts := (conflictCounts h)(m := conflictCounts h m + 1)\<rparr>
      in if conflictCounts h m = 1 then do {
           invariant ((conflictModes h AND modeMask m) = 0);
           Some (h\<lparr>conflictModes := conflictModes h OR modeMask m\<rparr>)
         } else Some h)"

definition decConflictModeCount :: "LockMode \<Rightarrow> LockHead \<Rightarrow> LockHead option" where
  "decConflictModeCount m h = do {
     invariant (conflictCounts h m \<ge> 1);
     let h = h\<lparr>conflictCounts := (conflictCounts h)(m := conflictCounts h m - 1)\<rparr>;
     if conflictCounts h m = 0 then do {
       invariant ((conflictModes h AND modeMask m) = modeMask m);
       Some (h\<lparr>conflictModes := conflictModes h AND NOT (modeMask m)\<rparr>)
     } else Some h
   }"

subsubsection \<open>New requests\<close>

definition newRequest ::
  "RequestPtr \<Rightarrow> LockMode \<Rightarrow> LockHead \<Rightarrow> store \<Rightarrow> (LockResult \<times> LockHead \<times> store) option" where
  "newRequest request m h R =
     (let q = (R request)\<lparr>mode := m, lock_ptr := Some (resourceId h), partitionedLock := None\<rparr>;
          q = (if \<not> isPartitioned h then q\<lparr>recursiveCount := 1\<rparr> else q)
      in if conflicts m (grantedModes h) \<or>
            (compatibleFirstCount h = 0 \<and> conflicts m (conflictModes h)) then
           (let q = q\<lparr>status := STATUS_WAITING\<rparr>;
                h = (if enqueueAtFront q then h\<lparr>conflictList := request # conflictList h\<rparr>
                     else h\<lparr>conflictList := conflictList h @ [request]\<rparr>)
            in do {
              h \<leftarrow> incConflictModeCount m h;
              Some (LOCK_WAITING, h, R(request := q))
            })
         else
           (let q = q\<lparr>status := STATUS_GRANTED\<rparr>;
                h = h\<lparr>grantedList := grantedList h @ [request]\<rparr>
            in do {
              h \<leftarrow> incGrantedModeCount m h;
              let h = (if compatibleFirst q
                       then h\<lparr>compatibleFirstCount := compatibleFirstCount h + 1\<rparr> else h);
              Some (LOCK_OK, h, R(request := q))
            }))"

subsubsection \<open>Granting requests after a change of the granted modes\<close>

text \<open>The modes \<open>1 .. LockModesCount - 1\<close> the mask loops run over.\<close>

definition realModes :: "LockMode list" where
  "realModes = [MODE_IS, MODE_IX, MODE_S, MODE_X]"

text \<open>The loop of \<open>_onLockModeChanged\<close> that builds the granted mask without the modes of the
  converting request itself.\<close>

fun modesWithoutConverting ::
  "LockMode list \<Rightarrow> LockRequest \<Rightarrow> (LockMode \<Rightarrow> nat) \<Rightarrow> 32 word \<Rightarrow> 32 word option" where
  "modesWithoutConverting [] q counts acc = Some acc"
| "modesWithoutConverting (i # is) q counts acc =
     (let currentRequestHolds = (if mode q = i then 1 else 0);
          currentRequestWaits = (if convertMode q = i then 1 else 0)
      in do {
        invariant (currentRequestHolds + currentRequestWaits \<le> (1::nat));
        modesWithoutConverting is q counts
          (if counts i > currentRequestHolds + currentRequestWaits then acc OR modeMask i else acc)
      })"

type_synonym notification = "nat \<times> ResourceId \<times> LockResult"

text \<open>The first loop of \<open>_onLockModeChanged\<close>, over the granted list from \<open>iter\<close> on.\<close>

fun grantConversions ::
  "RequestPtr list \<Rightarrow> LockHead \<Rightarrow> store \<Rightarrow> notification list
     \<Rightarrow> (LockHead \<times> store \<times> notification list) option" where
  "grantConversions [] h R ns = Some (h, R, ns)"
| "grantConversions (iter # rest) h R ns =
     (if \<not> conversionsCount h > 0 then Some (h, R, ns)
      else if status (R iter) = STATUS_CONVERTING then do {
        invariant (convertMode (R iter) \<noteq> MODE_NONE);
        others \<leftarrow> modesWithoutConverting realModes (R iter) (grantedCounts h) 0;
        if \<not> conflicts (convertMode (R iter)) others then do {
          let h = h\<lparr>conversionsCount := conversionsCount h - 1\<rparr>;
          h \<leftarrow> decGrantedModeCount (mode (R iter)) h;
          let q = (R iter)\<lparr>status := STATUS_GRANTED, mode := convertMode (R iter),
                           convertMode := MODE_NONE\<rparr>;
          grantConversions rest h (R(iter := q))
            (ns @ [(notify_obj (R iter), resourceId h, LOCK_OK)])
        } else grantConversions rest h R ns
      }
      else grantConversions rest h R ns)"

text \<open>The second loop of \<open>_onLockModeChanged\<close>, over the conflict list from \<open>iter\<close> on. The
  source remembers the successor before it moves \<open>iter\<close>, so the loop visits the requests that
  were on the list when it started, in their order.\<close>

fun grantWaiters ::
  "RequestPtr list \<Rightarrow> LockHead \<Rightarrow> store \<Rightarrow> notification list
     \<Rightarrow> (LockHead \<times> store \<times> notification list) option" where
  "grantWaiters [] h R ns = Some (h, R, ns)"
| "grantWaiters (iter # rest) h R ns = do {
     invariant (status (R iter) = STATUS_WAITING);
     if conflicts (mode (R iter)) (grantedModes h) then grantWaiters rest h R ns
     else do {
       let R = R(iter := (R iter)\<lparr>status := STATUS_GRANTED\<rparr>);
       let h = h\<lparr>conflictList := remove1 iter (conflictList h)\<rparr>;
       let h = h\<lparr>grantedList := grantedList h @ [iter]\<rparr>;
       h \<leftarrow> incGrantedModeCount (mode (R iter)) h;
       h \<leftarrow> decConflictModeCount (mode (R iter)) h;
       let h = (if compatibleFirst (R iter)
                then h\<lparr>compatibleFirstCount := compatibleFirstCount h + 1\<rparr> else h);
       let ns = ns @ [(notify_obj (R iter), resourceId h, LOCK_OK)];
       if mode (R iter) = MODE_X then Some (h, R, ns) else grantWaiters rest h R ns
     }
   }"

definition onLockModeChanged ::
  "LockHead \<Rightarrow> store \<Rightarrow> bool \<Rightarrow> (LockHead \<times> store \<times> notification list) option" where
  "onLockModeChanged h R checkConflictQueue = do {
     (h, R, ns) \<leftarrow> grantConversions (grantedList h) h R [];
     (h, R, ns) \<leftarrow> (if checkConflictQueue then grantWaiters (conflictList h) h R ns
                    else Some (h, R, ns));
     invariant ((grantedModes h = 0) \<noteq> (grantedList h \<noteq> []));
     invariant ((conflictModes h = 0) \<noteq> (conflictList h \<noteq> []));
     Some (h, R, ns)
   }"

subsection \<open>Masks that follow counters\<close>

text \<open>The mask of the modes with a positive count.\<close>

definition modesOf :: "(LockMode \<Rightarrow> nat) \<Rightarrow> 32 word" where
  "modesOf c = foldr (\<lambda>m w. if c m > 0 then modeMask m OR w else w)
     [MODE_NONE, MODE_IS, MODE_IX, MODE_S, MODE_X] 0"

lemma bit_modesOf: "bit (modesOf c) n \<longleftrightarrow> (\<exists>m. n = modeIndex m \<and> 0 < c m)"
  by (auto simp: modesOf_def ex_LockMode bit_or_iff)

lemma bit_modesOf_modeIndex [simp]: "bit (modesOf c) (modeIndex m) \<longleftrightarrow> 0 < c m"
  by (auto simp: bit_modesOf)

lemma conflicts_modesOf: "conflicts m (modesOf c) \<longleftrightarrow> (\<exists>m'. 0 < c m' \<and> incompatible m m')"
  by (subst conflicts_iff) simp

lemma modesOf_eq_0: "modesOf c = 0 \<longleftrightarrow> (\<forall>m. c m = 0)"
  by (auto simp: word_zero_iff bit_modesOf)

lemma modesOf_inc:
  "c m = 0 \<Longrightarrow> modesOf c AND modeMask m = 0"
  "modesOf c OR modeMask m = modesOf (c(m := Suc (c m)))"
  "0 < c m \<Longrightarrow> modesOf (c(m := Suc (c m))) = modesOf c"
  by (auto simp: word_zero_iff bit_modesOf bit_and_iff)
     (auto intro!: bit_word_eqI simp: bit_modesOf bit_or_iff split: if_splits)

lemma modesOf_dec:
  "0 < c m \<Longrightarrow> modesOf c AND modeMask m = modeMask m"
  "modesOf c AND NOT (modeMask m) = modesOf (c(m := 0))"
  "1 < c m \<Longrightarrow> modesOf (c(m := c m - 1)) = modesOf c"
  by (auto intro!: bit_word_eqI simp: bit_modesOf bit_and_iff bit_not_iff split: if_splits)

text \<open>
  The granted and the conflict counters of a lock head are maintained by the same code on
  different fields. The locale states what that code promises: it never aborts while the mask
  is in step with the counters (and, for a decrement, the counter is positive), and keeps it in
  step.
\<close>

locale mode_counter =
  fixes inc dec :: "LockMode \<Rightarrow> 'h \<Rightarrow> 'h option"
    and counts :: "'h \<Rightarrow> LockMode \<Rightarrow> nat"
    and modes :: "'h \<Rightarrow> 32 word"
    and update :: "(LockMode \<Rightarrow> nat) \<Rightarrow> 32 word \<Rightarrow> 'h \<Rightarrow> 'h"
  assumes inc_run: "modes h = modesOf (counts h) \<Longrightarrow>
      inc m h = (let c = (counts h)(m := counts h m + 1) in Some (update c (modesOf c) h))"
    and dec_run: "modes h = modesOf (counts h) \<Longrightarrow> 0 < counts h m \<Longrightarrow>
      dec m h = (let c = (counts h)(m := counts h m - 1) in Some (update c (modesOf c) h))"
    and counts_update [simp]: "counts (update c w h) = c"
    and modes_update [simp]: "modes (update c w h) = w"
    and update_update [simp]: "update c w (update c' w' h) = update c w h"
begin

text \<open>Moving one unit from \<open>m\<close> to \<open>m'\<close>, as a conversion and a downgrade do.\<close>

lemma inc_dec_run:
  assumes "modes h = modesOf (counts h)" and "0 < counts h m"
  shows "do {h \<leftarrow> inc m' h; h \<leftarrow> dec m h; f h} =
    (let c = (counts h)(m' := counts h m' + 1); c = c(m := c m - 1)
     in f (update c (modesOf c) h))"
  using assms by (simp add: inc_run dec_run Let_def)

end

interpretation granted: mode_counter incGrantedModeCount decGrantedModeCount grantedCounts
  grantedModes "\<lambda>c w h. h\<lparr>grantedCounts := c, grantedModes := w\<rparr>"
proof unfold_locales
  fix h :: LockHead and m assume sync: "grantedModes h = modesOf (grantedCounts h)"
  show "incGrantedModeCount m h = (let c = (grantedCounts h)(m := grantedCounts h m + 1)
      in Some (h\<lparr>grantedCounts := c, grantedModes := modesOf c\<rparr>))"
    using sync modesOf_inc [of "grantedCounts h" m]
    by (cases h; cases "grantedCounts h m = 0") (simp_all add: incGrantedModeCount_def Let_def)
  show "decGrantedModeCount m h = (let c = (grantedCounts h)(m := grantedCounts h m - 1)
      in Some (h\<lparr>grantedCounts := c, grantedModes := modesOf c\<rparr>))" if "0 < grantedCounts h m"
    using that sync modesOf_dec [of "grantedCounts h" m]
    by (cases h; cases "grantedCounts h m = 1") (simp_all add: decGrantedModeCount_def Let_def)
qed simp_all

interpretation conflict: mode_counter incConflictModeCount decConflictModeCount conflictCounts
  conflictModes "\<lambda>c w h. h\<lparr>conflictCounts := c, conflictModes := w\<rparr>"
proof unfold_locales
  fix h :: LockHead and m assume sync: "conflictModes h = modesOf (conflictCounts h)"
  show "incConflictModeCount m h = (let c = (conflictCounts h)(m := conflictCounts h m + 1)
      in Some (h\<lparr>conflictCounts := c, conflictModes := modesOf c\<rparr>))"
    using sync modesOf_inc [of "conflictCounts h" m]
    by (cases h; cases "conflictCounts h m = 0") (simp_all add: incConflictModeCount_def Let_def)
  show "decConflictModeCount m h = (let c = (conflictCounts h)(m := conflictCounts h m - 1)
      in Some (h\<lparr>conflictCounts := c, conflictModes := modesOf c\<rparr>))" if "0 < conflictCounts h m"
    using that sync modesOf_dec [of "conflictCounts h" m]
    by (cases h; cases "conflictCounts h m = 1") (simp_all add: decConflictModeCount_def Let_def)
qed simp_all

subsection \<open>The invariant of a lock head\<close>

text \<open>How much a request on the granted list counts for a mode: once if it holds it and once
  if it waits to convert to it.\<close>

definition held :: "LockMode \<Rightarrow> LockRequest \<Rightarrow> nat" where
  "held m q = (if m = MODE_NONE then 0
     else (if mode q = m then 1 else 0) + (if convertMode q = m then 1 else 0))"

definition waits :: "LockMode \<Rightarrow> LockRequest \<Rightarrow> nat" where
  "waits m q = (if mode q = m then 1 else 0)"

definition converting :: "LockRequest \<Rightarrow> nat" where
  "converting q = (if status q = STATUS_CONVERTING then 1 else 0)"

definition prefersCompatible :: "LockRequest \<Rightarrow> nat" where
  "prefersCompatible q = (if compatibleFirst q then 1 else 0)"

definition granted_ok :: "LockRequest \<Rightarrow> bool" where
  "granted_ok q \<longleftrightarrow> mode q \<noteq> MODE_NONE \<and>
     (status q = STATUS_GRANTED \<and> convertMode q = MODE_NONE \<or>
      status q = STATUS_CONVERTING \<and> convertMode q \<noteq> MODE_NONE \<and> mode q \<noteq> convertMode q \<and>
      isModeCovered (mode q) (convertMode q))"

definition waiting_ok :: "LockRequest \<Rightarrow> bool" where
  "waiting_ok q \<longleftrightarrow> status q = STATUS_WAITING \<and> mode q \<noteq> MODE_NONE \<and> convertMode q = MODE_NONE"

definition head_wf :: "store \<Rightarrow> LockHead \<Rightarrow> bool" where
  "head_wf R h \<longleftrightarrow>
     distinct (grantedList h @ conflictList h) \<and>
     (\<forall>r\<in>set (grantedList h). granted_ok (R r)) \<and>
     (\<forall>r\<in>set (conflictList h). waiting_ok (R r)) \<and>
     grantedCounts h = (\<lambda>m. total (held m) R (grantedList h)) \<and>
     grantedModes h = modesOf (grantedCounts h) \<and>
     conflictCounts h = (\<lambda>m. total (waits m) R (conflictList h)) \<and>
     conflictModes h = modesOf (conflictCounts h) \<and>
     conversionsCount h = total converting R (grantedList h) \<and>
     compatibleFirstCount h = total prefersCompatible R (grantedList h)"

definition head_safe :: "store \<Rightarrow> LockHead \<Rightarrow> bool" where
  "head_safe R h \<longleftrightarrow> (\<forall>r\<in>set (grantedList h). \<forall>s\<in>set (grantedList h).
     r \<noteq> s \<longrightarrow> \<not> incompatible (mode (R r)) (mode (R s)))"

text \<open>A conversion of \<open>r\<close> to the mode \<open>c\<close> is blocked by another request on the list.\<close>

definition blocked_by :: "store \<Rightarrow> RequestPtr list \<Rightarrow> RequestPtr \<Rightarrow> LockMode \<Rightarrow> bool" where
  "blocked_by R xs r c \<longleftrightarrow> (\<exists>s\<in>set xs. s \<noteq> r \<and>
     (incompatible c (mode (R s)) \<or> incompatible c (convertMode (R s))))"

definition conversions_live :: "store \<Rightarrow> LockHead \<Rightarrow> bool" where
  "conversions_live R h \<longleftrightarrow> (\<forall>r\<in>set (grantedList h). status (R r) = STATUS_CONVERTING \<longrightarrow>
     blocked_by R (grantedList h) r (convertMode (R r)))"

definition waiters_live :: "store \<Rightarrow> LockHead \<Rightarrow> bool" where
  "waiters_live R h \<longleftrightarrow> (conflictList h \<noteq> [] \<longrightarrow>
     (\<exists>r\<in>set (conflictList h). conflicts (mode (R r)) (grantedModes h)))"

definition head_live :: "store \<Rightarrow> LockHead \<Rightarrow> bool" where
  "head_live R h \<longleftrightarrow> conversions_live R h \<and> waiters_live R h"

definition head_inv :: "store \<Rightarrow> LockHead \<Rightarrow> bool" where
  "head_inv R h \<longleftrightarrow> head_wf R h \<and> head_safe R h \<and> head_live R h"

lemmas head_inv_defs = head_wf_def head_safe_def conversions_live_def waiters_live_def
  head_live_def head_inv_def

lemma head_inv_initNew [simp]: "head_inv R (initNewHead resId)"
  by (simp add: head_inv_defs initNewHead_def modesOf_def)

text \<open>The invariant reads the store at the requests of the head only.\<close>

lemma head_inv_cong:
  assumes "\<And>r. r \<in> set (grantedList h) \<union> set (conflictList h) \<Longrightarrow> R' r = R r"
  shows "head_inv R' h = head_inv R h"
proof -
  have "total f R' (grantedList h) = total f R (grantedList h)"
       "total f R' (conflictList h) = total f R (conflictList h)" for f
    using assms by (auto intro!: total_cong)
  then show ?thesis using assms by (simp add: head_inv_defs blocked_by_def)
qed

lemma head_inv_partitions [simp]: "head_inv R (h\<lparr>partitions := ps\<rparr>) = head_inv R h"
  by (simp add: head_inv_defs)

subsection \<open>Reading the counters\<close>

lemma held_pos: "0 < held m q \<longleftrightarrow> m \<noteq> MODE_NONE \<and> (mode q = m \<or> convertMode q = m)"
  by (auto simp: held_def)

lemma incompatible_not_NONE: "incompatible m m' \<Longrightarrow> m' \<noteq> MODE_NONE"
  by auto

lemma grantedModes_conflict:
  assumes "head_wf R h"
  shows "conflicts m (grantedModes h) \<longleftrightarrow> (\<exists>s\<in>set (grantedList h).
    incompatible m (mode (R s)) \<or> incompatible m (convertMode (R s)))"
proof -
  have "conflicts m (grantedModes h) \<longleftrightarrow>
      (\<exists>m'. (\<exists>s\<in>set (grantedList h). 0 < held m' (R s)) \<and> incompatible m m')"
    using assms by (simp add: conflicts_modesOf head_wf_def total_pos_iff)
  then show ?thesis unfolding held_pos by (metis incompatible_not_NONE)
qed

lemma conflictModes_conflict:
  assumes "head_wf R h"
  shows "conflicts m (conflictModes h) \<longleftrightarrow>
    (\<exists>s\<in>set (conflictList h). incompatible m (mode (R s)))"
  using assms by (auto simp: conflicts_modesOf head_wf_def total_pos_iff waits_def split: if_splits)

lemma grantedModes_zero: "head_wf R h \<Longrightarrow> grantedModes h = 0 \<longleftrightarrow> grantedList h = []"
proof -
  assume wf: "head_wf R h"
  then have "grantedModes h = 0 \<longleftrightarrow> (\<forall>m. \<not> (\<exists>s\<in>set (grantedList h). 0 < held m (R s)))"
    by (simp only: head_wf_def modesOf_eq_0 total_pos_iff [symmetric]) simp
  also have "\<dots> \<longleftrightarrow> grantedList h = []"
    using wf by (cases "grantedList h") (auto simp: head_wf_def granted_ok_def held_pos)
  finally show ?thesis .
qed

lemma conflictModes_zero: "head_wf R h \<Longrightarrow> conflictModes h = 0 \<longleftrightarrow> conflictList h = []"
proof -
  assume wf: "head_wf R h"
  then have "conflictModes h = 0 \<longleftrightarrow> (\<forall>m. \<not> (\<exists>s\<in>set (conflictList h). 0 < waits m (R s)))"
    by (simp only: head_wf_def modesOf_eq_0 total_pos_iff [symmetric]) simp
  also have "\<dots> \<longleftrightarrow> conflictList h = []"
    by (cases "conflictList h") (auto simp: waits_def)
  finally show ?thesis .
qed

lemmas head_wfD = head_wf_def [THEN iffD1]

lemma head_wf_sync:
  "head_wf R h \<Longrightarrow> grantedModes h = modesOf (grantedCounts h)"
  "head_wf R h \<Longrightarrow> conflictModes h = modesOf (conflictCounts h)"
  by (simp_all add: head_wf_def)

subsection \<open>New requests keep the invariant\<close>

text \<open>The request after \<open>newRequest\<close> has assigned it to the head, but for its status.\<close>

definition assigned :: "LockRequest \<Rightarrow> LockMode \<Rightarrow> LockHead \<Rightarrow> LockRequest" where
  "assigned q m h = q\<lparr>mode := m, lock_ptr := Some (resourceId h), partitionedLock := None,
     recursiveCount := (if isPartitioned h then recursiveCount q else 1)\<rparr>"

lemma assigned_simps [simp]:
  "mode (assigned q m h) = m" "convertMode (assigned q m h) = convertMode q"
  "lock_ptr (assigned q m h) = Some (resourceId h)" "partitionedLock (assigned q m h) = None"
  "compatibleFirst (assigned q m h) = compatibleFirst q" "locker (assigned q m h) = locker q"
  "enqueueAtFront (assigned q m h) = enqueueAtFront q"
  "partitioned (assigned q m h) = partitioned q"
  "recursiveCount (assigned q m h) = (if isPartitioned h then recursiveCount q else 1)"
  by (simp_all add: assigned_def)

definition granted_head :: "LockHead \<Rightarrow> RequestPtr \<Rightarrow> LockRequest \<Rightarrow> LockHead" where
  "granted_head h r q = (let c = (grantedCounts h)(mode q := grantedCounts h (mode q) + 1) in
     h\<lparr>grantedList := grantedList h @ [r], grantedCounts := c, grantedModes := modesOf c,
       compatibleFirstCount := compatibleFirstCount h + prefersCompatible q\<rparr>)"

definition waiting_head :: "LockHead \<Rightarrow> RequestPtr \<Rightarrow> LockRequest \<Rightarrow> LockHead" where
  "waiting_head h r q = (let c = (conflictCounts h)(mode q := conflictCounts h (mode q) + 1) in
     h\<lparr>conflictList := (if enqueueAtFront q then r # conflictList h else conflictList h @ [r]),
       conflictCounts := c, conflictModes := modesOf c\<rparr>)"

lemma granted_head_simps [simp]:
  "grantedList (granted_head h r q) = grantedList h @ [r]"
  "conflictList (granted_head h r q) = conflictList h"
  "resourceId (granted_head h r q) = resourceId h" "partitions (granted_head h r q) = partitions h"
  "conflictModes (granted_head h r q) = conflictModes h"
  by (simp_all add: granted_head_def Let_def)

lemma waiting_head_simps [simp]:
  "grantedList (waiting_head h r q) = grantedList h"
  "set (conflictList (waiting_head h r q)) = insert r (set (conflictList h))"
  "resourceId (waiting_head h r q) = resourceId h" "partitions (waiting_head h r q) = partitions h"
  "grantedModes (waiting_head h r q) = grantedModes h"
  by (simp_all add: waiting_head_def Let_def)

lemma newRequest_run:
  assumes wf: "head_wf R h"
  shows "newRequest r m h R =
    (let q = assigned (R r) m h in
     if conflicts m (grantedModes h) \<or> (compatibleFirstCount h = 0 \<and> conflicts m (conflictModes h))
     then Some (LOCK_WAITING, waiting_head h r q, R(r := q\<lparr>status := STATUS_WAITING\<rparr>))
     else Some (LOCK_OK, granted_head h r q, R(r := q\<lparr>status := STATUS_GRANTED\<rparr>)))"
proof -
  note sync = head_wf_sync [OF wf]
  have q: "(let q = (R r)\<lparr>mode := m, lock_ptr := Some (resourceId h), partitionedLock := None\<rparr>
      in if \<not> isPartitioned h then q\<lparr>recursiveCount := 1\<rparr> else q) = assigned (R r) m h"
    by (cases "R r") (simp add: assigned_def Let_def)
  show ?thesis
    unfolding newRequest_def q [unfolded Let_def] Let_def
    by (simp add: granted.inc_run conflict.inc_run sync waiting_head_def granted_head_def Let_def
        prefersCompatible_def)
qed

lemma head_wf_granted_head:
  assumes wf: "head_wf R h" and new: "r \<notin> set (grantedList h)" "r \<notin> set (conflictList h)"
    and q: "mode q \<noteq> MODE_NONE" "convertMode q = MODE_NONE" "status q = STATUS_GRANTED"
  shows "head_wf (R(r := q)) (granted_head h r q)"
proof -
  have held: "held m q = (if m = mode q then 1 else 0)" for m
    using q by (auto simp: held_def)
  show ?thesis
    using wf new q
    by (auto simp: head_wf_def granted_head_def Let_def fun_eq_iff held granted_ok_def converting_def)
qed

lemma head_wf_waiting_head:
  assumes wf: "head_wf R h" and new: "r \<notin> set (grantedList h)" "r \<notin> set (conflictList h)"
    and q: "mode q \<noteq> MODE_NONE" "convertMode q = MODE_NONE" "status q = STATUS_WAITING"
  shows "head_wf (R(r := q)) (waiting_head h r q)"
  using wf new q
  by (auto simp: head_wf_def waiting_head_def Let_def fun_eq_iff waits_def waiting_ok_def)

lemma blocked_by_mono:
  "blocked_by R xs r c \<Longrightarrow> set xs \<subseteq> set ys \<Longrightarrow> (\<And>s. s \<in> set xs \<Longrightarrow> R' s = R s) \<Longrightarrow> blocked_by R' ys r c"
  by (auto simp: blocked_by_def)

lemma newRequest_inv:
  assumes inv: "head_inv R h" and new: "r \<notin> set (grantedList h)" "r \<notin> set (conflictList h)"
    and m: "m \<noteq> MODE_NONE" and conv: "convertMode (R r) = MODE_NONE"
  shows "\<exists>res h' R'. newRequest r m h R = Some (res, h', R') \<and> head_inv R' h'"
proof -
  let ?q = "assigned (R r) m h"
  from inv have wf: "head_wf R h" and safe: "head_safe R h"
    and clive: "conversions_live R h" and wlive: "waiters_live R h"
    by (simp_all add: head_inv_def head_live_def)
  show ?thesis
  proof (cases "conflicts m (grantedModes h) \<or>
      (compatibleFirstCount h = 0 \<and> conflicts m (conflictModes h))")
    case True
    let ?q' = "?q\<lparr>status := STATUS_WAITING\<rparr>" and ?h' = "waiting_head h r ?q"
    have h': "?h' = waiting_head h r ?q'" by (simp add: waiting_head_def)
    have "head_wf (R(r := ?q')) ?h'"
      unfolding h' by (rule head_wf_waiting_head [OF wf new]) (simp_all add: m conv)
    moreover have "head_safe (R(r := ?q')) ?h'"
      using safe new by (simp add: head_safe_def)
    moreover have "conversions_live (R(r := ?q')) ?h'"
      using clive new unfolding conversions_live_def
      by (auto intro: blocked_by_mono)
    moreover have "waiters_live (R(r := ?q')) ?h'"
    proof (cases "conflicts m (grantedModes h)")
      case True
      then show ?thesis by (simp add: waiters_live_def)
    next
      case False
      with \<open>_ \<or> _\<close> have "conflicts m (conflictModes h)" by simp
      then have "conflictList h \<noteq> []" using conflictModes_conflict [OF wf] by auto
      with wlive obtain s where "s \<in> set (conflictList h)" "conflicts (mode (R s)) (grantedModes h)"
        by (auto simp: waiters_live_def)
      with new show ?thesis by (auto simp: waiters_live_def intro!: bexI [where x = s])
    qed
    ultimately show ?thesis
      using True by (simp add: newRequest_run [OF wf] Let_def head_inv_def head_live_def)
  next
    case False
    let ?q' = "?q\<lparr>status := STATUS_GRANTED\<rparr>" and ?h' = "granted_head h r ?q"
    have h': "?h' = granted_head h r ?q'" by (simp add: granted_head_def prefersCompatible_def)
    have wf': "head_wf (R(r := ?q')) ?h'"
      unfolding h' by (rule head_wf_granted_head [OF wf new]) (simp_all add: m conv)
    moreover have "head_safe (R(r := ?q')) ?h'"
    proof -
      have "\<not> incompatible m (mode (R s))" if "s \<in> set (grantedList h)" for s
        using False that grantedModes_conflict [OF wf] by blast
      then show ?thesis
        using safe new incompatible_sym by (auto simp: head_safe_def)
    qed
    moreover have "conversions_live (R(r := ?q')) ?h'"
      using clive new unfolding conversions_live_def
      by (auto intro: blocked_by_mono)
    moreover have "waiters_live (R(r := ?q')) ?h'"
      unfolding waiters_live_def grantedModes_conflict [OF wf']
      using wlive new unfolding waiters_live_def grantedModes_conflict [OF wf] by fastforce
    ultimately show ?thesis
      using False by (auto simp: newRequest_run [OF wf] Let_def head_inv_def head_live_def)
  qed
qed

subsection \<open>Granting conversions\<close>

lemma modesWithoutConverting_run:
  assumes "mode q \<noteq> convertMode q" and "MODE_NONE \<notin> set is"
  shows "modesWithoutConverting is q counts acc =
    Some (foldl (\<lambda>acc i. if held i q < counts i then acc OR modeMask i else acc) acc is)"
  using assms(2)
proof (induction "is" arbitrary: acc)
  case Nil
  then show ?case by simp
next
  case (Cons i "is")
  then have "i \<noteq> MODE_NONE" by auto
  with Cons assms(1) show ?case by (auto simp: Let_def held_def)
qed

lemma conflicts_or: "conflicts m (v OR w) \<longleftrightarrow> conflicts m v \<or> conflicts m w"
  unfolding conflicts_def word_and_nonzero_iff by (auto simp: bit_or_iff)

lemma conflicts_foldl:
  "conflicts m (foldl (\<lambda>acc i. if p i then acc OR modeMask i else acc) acc is) \<longleftrightarrow>
     conflicts m acc \<or> (\<exists>i\<in>set is. p i \<and> incompatible m i)"
  by (induction "is" arbitrary: acc) (auto simp: conflicts_or)

lemma conflicts_zero [simp]: "\<not> conflicts m 0"
  by (simp add: conflicts_def)

lemma set_realModes [simp]: "set realModes = - {MODE_NONE}"
  by (auto simp: realModes_def intro: LockMode.exhaust)

text \<open>The mask built by the loop conflicts with a mode exactly if another request blocks it.\<close>

lemma modesWithoutConverting_blocked:
  assumes wf: "head_wf R h" and r: "r \<in> set (grantedList h)"
    and conv: "status (R r) = STATUS_CONVERTING"
  shows "\<exists>others. modesWithoutConverting realModes (R r) (grantedCounts h) 0 = Some others \<and>
    (\<forall>c. conflicts c others \<longleftrightarrow> blocked_by R (grantedList h) r c)"
proof -
  from wf r conv have ne: "mode (R r) \<noteq> convertMode (R r)"
    by (auto simp: head_wf_def granted_ok_def)
  from wf have d: "distinct (grantedList h)"
    and cnt: "grantedCounts h = (\<lambda>m. total (held m) R (grantedList h))"
    by (simp_all add: head_wf_def)
  have "held i (R r) < grantedCounts h i \<longleftrightarrow> (\<exists>s\<in>set (grantedList h). s \<noteq> r \<and> 0 < held i (R s))" for i
    unfolding cnt by (rule total_gt_member [OF d r])
  then have "(\<exists>i\<in>set realModes. held i (R r) < grantedCounts h i \<and> incompatible c i) \<longleftrightarrow>
      blocked_by R (grantedList h) r c" for c
    unfolding blocked_by_def held_pos by (auto dest: incompatible_not_NONE)
  then show ?thesis
    using modesWithoutConverting_run [OF ne, of realModes] by (simp add: conflicts_foldl)
qed

text \<open>Granting the conversion of \<open>r\<close>.\<close>

definition converted :: "LockRequest \<Rightarrow> LockRequest" where
  "converted q = q\<lparr>status := STATUS_GRANTED, mode := convertMode q, convertMode := MODE_NONE\<rparr>"

lemma converted_simps [simp]:
  "mode (converted q) = convertMode q" "convertMode (converted q) = MODE_NONE"
  "status (converted q) = STATUS_GRANTED" "compatibleFirst (converted q) = compatibleFirst q"
  "lock_ptr (converted q) = lock_ptr q" "partitionedLock (converted q) = partitionedLock q"
  "recursiveCount (converted q) = recursiveCount q" "partitioned (converted q) = partitioned q"
  "locker (converted q) = locker q"
  by (simp_all add: converted_def)

definition converted_head :: "LockHead \<Rightarrow> LockRequest \<Rightarrow> LockHead" where
  "converted_head h q = (let c = (grantedCounts h)(mode q := grantedCounts h (mode q) - 1) in
     h\<lparr>grantedCounts := c, grantedModes := modesOf c, conversionsCount := conversionsCount h - 1\<rparr>)"

lemma converted_head_simps [simp]:
  "grantedList (converted_head h q) = grantedList h"
  "conflictList (converted_head h q) = conflictList h"
  "resourceId (converted_head h q) = resourceId h" "partitions (converted_head h q) = partitions h"
  "conflictModes (converted_head h q) = conflictModes h"
  by (simp_all add: converted_head_def Let_def)

lemma grantConversions_step:
  assumes wf: "head_wf R h" and r: "r \<in> set (grantedList h)"
    and conv: "status (R r) = STATUS_CONVERTING"
  shows "grantConversions (r # rest) h R ns =
    (if blocked_by R (grantedList h) r (convertMode (R r)) then grantConversions rest h R ns
     else grantConversions rest (converted_head h (R r)) (R(r := converted (R r)))
       (ns @ [(notify_obj (R r), resourceId h, LOCK_OK)]))"
proof -
  from wf r have pos: "0 < grantedCounts h (mode (R r))"
    by (auto simp: head_wf_def total_pos_iff held_pos granted_ok_def)
  from wf r conv have "0 < total converting R (grantedList h)"
    by (auto simp: total_pos_iff converting_def)
  then have count: "0 < conversionsCount h" using wf by (simp add: head_wf_def)
  from wf r conv have "convertMode (R r) \<noteq> MODE_NONE" by (auto simp: head_wf_def granted_ok_def)
  moreover have "decGrantedModeCount (mode (R r)) (h\<lparr>conversionsCount := conversionsCount h - 1\<rparr>) =
      Some (converted_head h (R r))"
    using granted.dec_run [of "h\<lparr>conversionsCount := conversionsCount h - 1\<rparr>" "mode (R r)"]
    by (simp add: head_wf_sync [OF wf] pos converted_head_def Let_def)
  moreover obtain others where
    "modesWithoutConverting realModes (R r) (grantedCounts h) 0 = Some others"
    and "\<And>c. conflicts c others \<longleftrightarrow> blocked_by R (grantedList h) r c"
    using modesWithoutConverting_blocked [OF wf r conv] by blast
  ultimately show ?thesis
    using count conv by (simp add: converted_def)
qed

lemma head_wf_converted:
  assumes wf: "head_wf R h" and r: "r \<in> set (grantedList h)"
    and conv: "status (R r) = STATUS_CONVERTING"
  shows "head_wf (R(r := converted (R r))) (converted_head h (R r))"
proof -
  let ?R = "R(r := converted (R r))"
  from wf have d: "distinct (grantedList h)" by (simp add: head_wf_def)
  from wf r conv have q: "mode (R r) \<noteq> MODE_NONE" "convertMode (R r) \<noteq> MODE_NONE"
      "mode (R r) \<noteq> convertMode (R r)"
    by (auto simp: head_wf_def granted_ok_def)
  have upd: "total f ?R (grantedList h) + f (R r) = total f R (grantedList h) + f (converted (R r))" for f
    by (rule total_upd_in [OF d r])
  have "total (held m) ?R (grantedList h) =
      ((\<lambda>m. total (held m) R (grantedList h))(mode (R r) := total (held (mode (R r))) R (grantedList h) - 1)) m" for m
    using upd [of "held m"] q by (auto simp: held_def split: if_splits)
  moreover have "total converting ?R (grantedList h) = total converting R (grantedList h) - 1"
    using upd [of converting] conv by (simp add: converting_def)
  moreover have "total prefersCompatible ?R (grantedList h) = total prefersCompatible R (grantedList h)"
    using upd [of prefersCompatible] by (simp add: prefersCompatible_def)
  moreover have "r \<notin> set (conflictList h)" using wf r by (auto simp: head_wf_def)
  ultimately show ?thesis
    using wf q by (auto simp: head_wf_def converted_head_def Let_def fun_eq_iff granted_ok_def)
qed

lemma blocked_by_converted:
  assumes "blocked_by R xs a c" and "isModeCovered (mode (R r)) (convertMode (R r))"
  shows "blocked_by (R(r := converted (R r))) xs a c"
proof -
  from assms(1) obtain s where s: "s \<in> set xs" "s \<noteq> a"
    and inc: "incompatible c (mode (R s)) \<or> incompatible c (convertMode (R s))"
    by (auto simp: blocked_by_def)
  have "incompatible c (convertMode (R r))" if "s = r"
    using inc that covered_incompatible [OF assms(2)] by auto
  with s inc show ?thesis by (auto simp: blocked_by_def intro!: bexI [where x = s])
qed

lemma head_safe_converted:
  assumes wf: "head_wf R h" and safe: "head_safe R h" and r: "r \<in> set (grantedList h)"
    and free: "\<not> blocked_by R (grantedList h) r (convertMode (R r))"
  shows "head_safe (R(r := converted (R r))) (converted_head h (R r))"
proof -
  have "\<not> incompatible (convertMode (R r)) (mode (R s))" if "s \<in> set (grantedList h)" "s \<noteq> r" for s
    using free that by (auto simp: blocked_by_def)
  then show ?thesis using safe incompatible_sym by (auto simp: head_safe_def)
qed

lemma waiters_live_converted:
  assumes wf: "head_wf R h" and live: "waiters_live R h" and r: "r \<in> set (grantedList h)"
    and conv: "status (R r) = STATUS_CONVERTING"
  shows "waiters_live (R(r := converted (R r))) (converted_head h (R r))"
proof -
  let ?R = "R(r := converted (R r))" and ?h = "converted_head h (R r)"
  have wf': "head_wf ?R ?h" by (rule head_wf_converted [OF wf r conv])
  have cov: "isModeCovered (mode (R r)) (convertMode (R r))" and nin: "r \<notin> set (conflictList h)"
    using wf r conv by (auto simp: head_wf_def granted_ok_def)
  have "conflicts m (grantedModes h) \<Longrightarrow> conflicts m (grantedModes ?h)" for m
    unfolding grantedModes_conflict [OF wf] grantedModes_conflict [OF wf']
    using covered_incompatible [OF cov] by fastforce
  then show ?thesis
    using live nin by (fastforce simp: waiters_live_def)
qed

text \<open>What the first loop does to the store: some conversions are granted.\<close>

definition conversions_granted :: "RequestPtr list \<Rightarrow> store \<Rightarrow> store \<Rightarrow> bool" where
  "conversions_granted xs R R' \<longleftrightarrow> (\<forall>r. R' r = R r \<or>
     r \<in> set xs \<and> status (R r) = STATUS_CONVERTING \<and> R' r = converted (R r))"

definition same_lists :: "LockHead \<Rightarrow> LockHead \<Rightarrow> bool" where
  "same_lists h h' \<longleftrightarrow> grantedList h' = grantedList h \<and> conflictList h' = conflictList h \<and>
     resourceId h' = resourceId h \<and> partitions h' = partitions h"

definition grant_events :: "RequestPtr list \<Rightarrow> LockHead \<Rightarrow> store \<Rightarrow> store \<Rightarrow> notification list" where
  "grant_events xs h R R' = map (\<lambda>r. (notify_obj (R r), resourceId h, LOCK_OK))
     (filter (\<lambda>r. status (R r) \<noteq> status (R' r)) xs)"

definition conversions_post ::
  "RequestPtr list \<Rightarrow> LockHead \<Rightarrow> store \<Rightarrow> LockHead \<Rightarrow> store \<Rightarrow> bool" where
  "conversions_post xs h R h' R' \<longleftrightarrow>
     head_wf R' h' \<and> head_safe R' h' \<and> conversions_live R' h' \<and> same_lists h h' \<and>
     conversions_granted xs R R' \<and> (waiters_live R h \<longrightarrow> waiters_live R' h')"

lemma no_conversions: "head_wf R h \<Longrightarrow> conversionsCount h = 0 \<Longrightarrow> r \<in> set (grantedList h) \<Longrightarrow>
    status (R r) \<noteq> STATUS_CONVERTING"
  using total_member_le [of r "grantedList h" converting R] by (auto simp: head_wf_def converting_def)

lemma conversions_granted_outside: "conversions_granted xs R R' \<Longrightarrow> r \<notin> set xs \<Longrightarrow> R' r = R r"
  by (auto simp: conversions_granted_def dest: spec [where x = r])

lemma conversions_post_skip:
  assumes "conversions_post xs h R h' R'" and "r \<notin> set xs"
  shows "conversions_post (r # xs) h R h' R'" and "grant_events (r # xs) h R R' = grant_events xs h R R'"
proof -
  from assms have "R' r = R r"
    by (auto simp: conversions_post_def intro: conversions_granted_outside)
  then show "grant_events (r # xs) h R R' = grant_events xs h R R'" by (simp add: grant_events_def)
  show "conversions_post (r # xs) h R h' R'"
    using assms(1) by (auto simp: conversions_post_def conversions_granted_def)
qed

lemma conversions_post_grant:
  assumes post: "conversions_post xs (converted_head h (R r)) (R(r := converted (R r))) h' R'"
    and wf: "head_wf R h" and r: "r \<in> set (grantedList h)" "r \<notin> set xs"
    and conv: "status (R r) = STATUS_CONVERTING"
  shows "conversions_post (r # xs) h R h' R'"
    and "grant_events (r # xs) h R R' = (notify_obj (R r), resourceId h, LOCK_OK) #
      grant_events xs (converted_head h (R r)) (R(r := converted (R r))) R'"
proof -
  let ?R = "R(r := converted (R r))"
  from post have granted: "conversions_granted xs ?R R'" by (simp add: conversions_post_def)
  then have "R' r = converted (R r)" using conversions_granted_outside [OF granted r(2)] by simp
  then show "grant_events (r # xs) h R R' = (notify_obj (R r), resourceId h, LOCK_OK) #
      grant_events xs (converted_head h (R r)) ?R R'"
    using r(2) conv by (auto simp: grant_events_def intro!: filter_cong map_cong)
  have "conversions_granted (r # xs) R R'"
    using granted conv r(2) by (auto simp: conversions_granted_def split: if_splits)
  then show "conversions_post (r # xs) h R h' R'"
    using post waiters_live_converted [OF wf _ r(1) conv]
    by (auto simp: conversions_post_def same_lists_def)
qed

lemma grantConversions_run:
  assumes "head_wf R h" and "head_safe R h" and "set xs \<subseteq> set (grantedList h)" and "distinct xs"
    and "\<And>r. r \<in> set (grantedList h) - set xs \<Longrightarrow> status (R r) = STATUS_CONVERTING \<Longrightarrow>
      blocked_by R (grantedList h) r (convertMode (R r))"
  shows "\<exists>h' R'. grantConversions xs h R ns = Some (h', R', ns @ grant_events xs h R R') \<and>
    conversions_post xs h R h' R'"
  using assms
proof (induction xs arbitrary: h R ns)
  case Nil
  then show ?case
    by (simp add: conversions_post_def conversions_live_def same_lists_def conversions_granted_def
        grant_events_def)
next
  case (Cons r xs)
  note wf = Cons.prems(1) and safe = Cons.prems(2)
  have r: "r \<in> set (grantedList h)" "r \<notin> set xs" using Cons.prems(3,4) by simp_all
  consider (none) "conversionsCount h = 0"
    | (skip) "conversionsCount h > 0" "status (R r) \<noteq> STATUS_CONVERTING"
    | (blocked) "status (R r) = STATUS_CONVERTING" "blocked_by R (grantedList h) r (convertMode (R r))"
    | (grant) "status (R r) = STATUS_CONVERTING" "\<not> blocked_by R (grantedList h) r (convertMode (R r))"
    by blast
  then show ?case
  proof cases
    case none
    with no_conversions [OF wf none] wf safe show ?thesis
      by (auto simp: conversions_post_def conversions_live_def same_lists_def
          conversions_granted_def grant_events_def)
  next
    case skip
    have "\<exists>h' R'. grantConversions xs h R ns = Some (h', R', ns @ grant_events xs h R R') \<and>
        conversions_post xs h R h' R'"
      by (rule Cons.IH [OF wf safe]) (use Cons.prems(3-5) skip in auto)
    with skip r(2) show ?thesis using conversions_post_skip by fastforce
  next
    case blocked
    have "\<exists>h' R'. grantConversions xs h R ns = Some (h', R', ns @ grant_events xs h R R') \<and>
        conversions_post xs h R h' R'"
      by (rule Cons.IH [OF wf safe]) (use Cons.prems(3-5) blocked in auto)
    with r(2) blocked(2) show ?thesis
      unfolding grantConversions_step [OF wf r(1) blocked(1)]
      using conversions_post_skip by fastforce
  next
    case grant
    let ?R = "R(r := converted (R r))" and ?h = "converted_head h (R r)"
    have cov: "isModeCovered (mode (R r)) (convertMode (R r))"
      using wf r(1) grant(1) by (auto simp: head_wf_def granted_ok_def)
    have rest: "blocked_by ?R (grantedList ?h) s (convertMode (?R s))"
      if "s \<in> set (grantedList ?h) - set xs" "status (?R s) = STATUS_CONVERTING" for s
      using that Cons.prems(5) [of s] blocked_by_converted [where R = R and r = r, OF _ cov]
      by (cases "s = r") simp_all
    let ?ns = "ns @ [(notify_obj (R r), resourceId h, LOCK_OK)]"
    have "\<exists>h' R'. grantConversions xs ?h ?R ?ns = Some (h', R', ?ns @ grant_events xs ?h ?R R') \<and>
        conversions_post xs ?h ?R h' R'"
      by (rule Cons.IH [OF head_wf_converted [OF wf r(1) grant(1)]
            head_safe_converted [OF wf safe r(1) grant(2)] _ _ rest])
        (use Cons.prems(3,4) in simp_all)
    then show ?thesis
      unfolding grantConversions_step [OF wf r(1) grant(1)]
      using grant conversions_post_grant [OF _ wf r grant(1)] by fastforce
  qed
qed

subsection \<open>Granting waiting requests\<close>

text \<open>The head after the waiting request \<open>r\<close> was moved to the granted list.\<close>

definition moved_head :: "LockHead \<Rightarrow> RequestPtr \<Rightarrow> LockRequest \<Rightarrow> LockHead" where
  "moved_head h r q =
     (let h = granted_head h r q; c = (conflictCounts h)(mode q := conflictCounts h (mode q) - 1)
      in h\<lparr>conflictList := remove1 r (conflictList h), conflictCounts := c,
           conflictModes := modesOf c\<rparr>)"

lemma moved_head_simps [simp]:
  "grantedList (moved_head h r q) = grantedList h @ [r]"
  "conflictList (moved_head h r q) = remove1 r (conflictList h)"
  "resourceId (moved_head h r q) = resourceId h" "partitions (moved_head h r q) = partitions h"
  by (simp_all add: moved_head_def granted_head_def Let_def)

lemma head_wf_moved:
  assumes wf: "head_wf R h" and r: "r \<in> set (conflictList h)"
  shows "head_wf (R(r := (R r)\<lparr>status := STATUS_GRANTED\<rparr>)) (moved_head h r (R r))"
proof -
  let ?q = "(R r)\<lparr>status := STATUS_GRANTED\<rparr>"
  let ?h = "h\<lparr>conflictList := remove1 r (conflictList h),
    conflictCounts := (conflictCounts h)(mode (R r) := conflictCounts h (mode (R r)) - 1),
    conflictModes := modesOf ((conflictCounts h)(mode (R r) := conflictCounts h (mode (R r)) - 1))\<rparr>"
  have ok: "waiting_ok (R r)" and d: "distinct (conflictList h)" "r \<notin> set (grantedList h)"
    using wf r by (auto simp: head_wf_def)
  have "total (waits m) R (remove1 r (conflictList h)) =
      ((\<lambda>m. total (waits m) R (conflictList h))
        (mode (R r) := total (waits (mode (R r))) R (conflictList h) - 1)) m" for m
    using total_remove1 [OF r, of "waits m" R] by (auto simp: waits_def split: if_splits)
  then have "head_wf R ?h"
    using wf by (auto simp: head_wf_def fun_eq_iff set_remove1_eq)
  then have "head_wf (R(r := ?q)) (granted_head ?h r ?q)"
    by (rule head_wf_granted_head) (use ok d in \<open>auto simp: waiting_ok_def\<close>)
  moreover have "granted_head ?h r ?q = moved_head h r (R r)"
    by (simp add: moved_head_def granted_head_def Let_def prefersCompatible_def)
  ultimately show ?thesis by simp
qed

lemma grantWaiters_step:
  assumes wf: "head_wf R h" and r: "r \<in> set (conflictList h)"
  shows "grantWaiters (r # rest) h R ns =
    (if conflicts (mode (R r)) (grantedModes h) then grantWaiters rest h R ns
     else let R' = R(r := (R r)\<lparr>status := STATUS_GRANTED\<rparr>); h' = moved_head h r (R r);
              ns' = ns @ [(notify_obj (R r), resourceId h, LOCK_OK)]
          in if mode (R r) = MODE_X then Some (h', R', ns') else grantWaiters rest h' R' ns')"
proof -
  have ok: "status (R r) = STATUS_WAITING" using wf r by (auto simp: head_wf_def waiting_ok_def)
  have pos: "0 < conflictCounts h (mode (R r))"
    using wf r by (auto simp: head_wf_def total_pos_iff waits_def)
  let ?h = "h\<lparr>conflictList := remove1 r (conflictList h), grantedList := grantedList h @ [r]\<rparr>"
  let ?c = "(grantedCounts h)(mode (R r) := grantedCounts h (mode (R r)) + 1)"
  have "incGrantedModeCount (mode (R r)) ?h = Some (?h\<lparr>grantedCounts := ?c, grantedModes := modesOf ?c\<rparr>)"
    using granted.inc_run [of ?h "mode (R r)"] by (simp add: head_wf_sync [OF wf] Let_def)
  moreover have "decConflictModeCount (mode (R r)) (?h\<lparr>grantedCounts := ?c, grantedModes := modesOf ?c\<rparr>) =
    (let d = (conflictCounts h)(mode (R r) := conflictCounts h (mode (R r)) - 1) in
     Some (?h\<lparr>grantedCounts := ?c, grantedModes := modesOf ?c, conflictCounts := d, conflictModes := modesOf d\<rparr>))"
    using conflict.dec_run [of "?h\<lparr>grantedCounts := ?c, grantedModes := modesOf ?c\<rparr>" "mode (R r)"]
    by (simp add: head_wf_sync [OF wf] Let_def pos)
  moreover have "(let d = (conflictCounts h)(mode (R r) := conflictCounts h (mode (R r)) - 1);
      h' = ?h\<lparr>grantedCounts := ?c, grantedModes := modesOf ?c, conflictCounts := d, conflictModes := modesOf d\<rparr>
    in if compatibleFirst (R r) then h'\<lparr>compatibleFirstCount := compatibleFirstCount h + 1\<rparr> else h') =
    moved_head h r (R r)"
    by (cases h) (simp add: moved_head_def granted_head_def Let_def prefersCompatible_def)
  ultimately show ?thesis
    using ok by (cases "compatibleFirst (R r)"; cases "mode (R r) = MODE_X") (simp_all add: Let_def)
qed

text \<open>What the second loop does: it moves some of the requests \<open>xs\<close> of the conflict list to the
  end of the granted list, in their order, and every request that stays behind conflicts with
  the granted modes.\<close>

definition waiters_granted :: "RequestPtr list \<Rightarrow> LockHead \<Rightarrow> store \<Rightarrow> LockHead \<Rightarrow> store \<Rightarrow> bool" where
  "waiters_granted xs h R h' R' \<longleftrightarrow> (\<exists>p. let ys = filter p xs in
     R' = (\<lambda>r. if r \<in> set ys then (R r)\<lparr>status := STATUS_GRANTED\<rparr> else R r) \<and>
     grantedList h' = grantedList h @ ys \<and>
     conflictList h' = filter (\<lambda>r. r \<notin> set ys) (conflictList h) \<and>
     resourceId h' = resourceId h \<and> partitions h' = partitions h)"

definition waiters_post :: "RequestPtr list \<Rightarrow> LockHead \<Rightarrow> store \<Rightarrow> LockHead \<Rightarrow> store \<Rightarrow> bool" where
  "waiters_post xs h R h' R' \<longleftrightarrow>
     head_wf R' h' \<and> head_safe R' h' \<and> conversions_live R' h' \<and>
     (\<forall>r\<in>set (conflictList h'). conflicts (mode (R' r)) (grantedModes h')) \<and>
     waiters_granted xs h R h' R'"

lemma moved_safe_live:
  assumes wf: "head_wf R h" and safe: "head_safe R h" and live: "conversions_live R h"
    and r: "r \<in> set (conflictList h)" and free: "\<not> conflicts (mode (R r)) (grantedModes h)"
  shows "head_safe (R(r := (R r)\<lparr>status := STATUS_GRANTED\<rparr>)) (moved_head h r (R r))"
    and "conversions_live (R(r := (R r)\<lparr>status := STATUS_GRANTED\<rparr>)) (moved_head h r (R r))"
proof -
  have nin: "r \<notin> set (grantedList h)" using wf r by (auto simp: head_wf_def)
  have "\<not> incompatible (mode (R r)) (mode (R s))" if "s \<in> set (grantedList h)" for s
    using free that grantedModes_conflict [OF wf] by blast
  then show "head_safe (R(r := (R r)\<lparr>status := STATUS_GRANTED\<rparr>)) (moved_head h r (R r))"
    using safe nin incompatible_sym by (auto simp: head_safe_def)
  show "conversions_live (R(r := (R r)\<lparr>status := STATUS_GRANTED\<rparr>)) (moved_head h r (R r))"
    using live nin unfolding conversions_live_def by (auto intro: blocked_by_mono)
qed

lemma conflicts_granted_mono:
  assumes "head_wf R h" and "head_wf R' h'" and "conflicts m (grantedModes h)"
    and "\<And>s. s \<in> set (grantedList h) \<Longrightarrow> s \<in> set (grantedList h') \<and> mode (R' s) = mode (R s) \<and>
      convertMode (R' s) = convertMode (R s)"
  shows "conflicts m (grantedModes h')"
  using assms(3,4) unfolding grantedModes_conflict [OF assms(1)] grantedModes_conflict [OF assms(2)]
  by metis

lemma exclusive_conflicts_all:
  "head_wf R h \<Longrightarrow> s \<in> set (grantedList h) \<Longrightarrow> mode (R s) = MODE_X \<Longrightarrow> m \<noteq> MODE_NONE \<Longrightarrow>
   conflicts m (grantedModes h)"
  unfolding grantedModes_conflict by (rule bexI [of _ s]) (cases m, simp_all add: incompatible_table)

lemma waiters_granted_refl: "waiters_granted xs h R h R"
  unfolding waiters_granted_def by (rule exI [of _ "\<lambda>_. False"]) simp

lemma waiters_post_keep:
  assumes "waiters_post xs h R h' R'" and "r \<notin> set xs"
  shows "waiters_post (r # xs) h R h' R'" and "grant_events (r # xs) h R R' = grant_events xs h R R'"
proof -
  from assms obtain p where p: "waiters_granted xs h R h' R'"
    "R' = (\<lambda>r. if r \<in> set (filter p xs) then (R r)\<lparr>status := STATUS_GRANTED\<rparr> else R r)"
    by (auto simp: waiters_post_def waiters_granted_def Let_def)
  then show "grant_events (r # xs) h R R' = grant_events xs h R R'"
    using assms(2) by (simp add: grant_events_def)
  from p(1) obtain p' where "let ys = filter p' xs in
      R' = (\<lambda>r. if r \<in> set ys then (R r)\<lparr>status := STATUS_GRANTED\<rparr> else R r) \<and>
      grantedList h' = grantedList h @ ys \<and>
      conflictList h' = filter (\<lambda>r. r \<notin> set ys) (conflictList h) \<and>
      resourceId h' = resourceId h \<and> partitions h' = partitions h"
    by (auto simp: waiters_granted_def)
  moreover have "filter (\<lambda>s. s \<noteq> r \<and> p' s) (r # xs) = filter p' xs"
    using assms(2) by (auto intro!: filter_cong)
  ultimately have "waiters_granted (r # xs) h R h' R'"
    unfolding waiters_granted_def by (intro exI [of _ "\<lambda>s. s \<noteq> r \<and> p' s"]) simp
  with assms(1) show "waiters_post (r # xs) h R h' R'" by (simp add: waiters_post_def)
qed

lemma waiters_post_grant:
  assumes post: "waiters_post xs (moved_head h r (R r)) (R(r := (R r)\<lparr>status := STATUS_GRANTED\<rparr>)) h' R'"
    and r: "r \<in> set (conflictList h)" "r \<notin> set xs" and waiting: "status (R r) = STATUS_WAITING"
    and d: "distinct (conflictList h)"
  shows "waiters_post (r # xs) h R h' R'"
    and "grant_events (r # xs) h R R' = (notify_obj (R r), resourceId h, LOCK_OK) #
      grant_events xs (moved_head h r (R r)) (R(r := (R r)\<lparr>status := STATUS_GRANTED\<rparr>)) R'"
proof -
  let ?R = "R(r := (R r)\<lparr>status := STATUS_GRANTED\<rparr>)"
  from post obtain p where p: "R' = (\<lambda>s. if s \<in> set (filter p xs) then (?R s)\<lparr>status := STATUS_GRANTED\<rparr> else ?R s)"
    "grantedList h' = grantedList h @ [r] @ filter p xs"
    "conflictList h' = filter (\<lambda>s. s \<notin> set (filter p xs)) (remove1 r (conflictList h))"
    "resourceId h' = resourceId h" "partitions h' = partitions h"
    by (auto simp: waiters_post_def waiters_granted_def Let_def)
  have sel: "filter (\<lambda>s. s = r \<or> p s) (r # xs) = r # filter p xs"
    using r(2) by (auto intro!: filter_cong)
  have "remove1 r (conflictList h) = filter (\<lambda>s. s \<noteq> r) (conflictList h)"
    using d by (simp add: distinct_remove1_removeAll removeAll_filter_not_eq eq_commute)
  then have "conflictList h' = filter (\<lambda>s. s \<notin> set (r # filter p xs)) (conflictList h)"
    unfolding p(3) by simp
  moreover have "R' = (\<lambda>s. if s \<in> set (r # filter p xs) then (R s)\<lparr>status := STATUS_GRANTED\<rparr> else R s)"
    unfolding p(1) by (rule ext) simp
  ultimately have "waiters_granted (r # xs) h R h' R'"
    unfolding waiters_granted_def Let_def
    using p(2,4,5) by (intro exI [of _ "\<lambda>s. s = r \<or> p s"], unfold sel) simp
  with post show "waiters_post (r # xs) h R h' R'" by (simp add: waiters_post_def)
  show "grant_events (r # xs) h R R' = (notify_obj (R r), resourceId h, LOCK_OK) #
      grant_events xs (moved_head h r (R r)) ?R R'"
    using r(2) waiting by (auto simp: grant_events_def p(1) intro!: filter_cong map_cong)
qed

lemma grantWaiters_run:
  assumes "head_wf R h" and "head_safe R h" and "conversions_live R h"
    and "set xs \<subseteq> set (conflictList h)" and "distinct xs"
    and "\<And>r. r \<in> set (conflictList h) - set xs \<Longrightarrow> conflicts (mode (R r)) (grantedModes h)"
  shows "\<exists>h' R'. grantWaiters xs h R ns = Some (h', R', ns @ grant_events xs h R R') \<and>
    waiters_post xs h R h' R'"
  using assms
proof (induction xs arbitrary: h R ns)
  case Nil
  then show ?case by (auto simp: waiters_post_def waiters_granted_def grant_events_def)
next
  case (Cons r xs)
  note wf = Cons.prems(1) and safe = Cons.prems(2) and live = Cons.prems(3)
  have r: "r \<in> set (conflictList h)" "r \<notin> set xs" using Cons.prems(4,5) by simp_all
  show ?case
  proof (cases "conflicts (mode (R r)) (grantedModes h)")
    case True
    have "\<exists>h' R'. grantWaiters xs h R ns = Some (h', R', ns @ grant_events xs h R R') \<and>
        waiters_post xs h R h' R'"
      by (rule Cons.IH [OF wf safe live]) (use Cons.prems(4-6) True in auto)
    then show ?thesis
      unfolding grantWaiters_step [OF wf r(1)] using True waiters_post_keep [OF _ r(2)] by fastforce
  next
    case False
    let ?R = "R(r := (R r)\<lparr>status := STATUS_GRANTED\<rparr>)" and ?h = "moved_head h r (R r)"
    let ?ns = "ns @ [(notify_obj (R r), resourceId h, LOCK_OK)]"
    have wf': "head_wf ?R ?h" by (rule head_wf_moved [OF wf r(1)])
    note safe' = moved_safe_live [OF wf safe live r(1) False]
    have d: "distinct (conflictList h)" and nin: "r \<notin> set (grantedList h)"
      and ok: "status (R r) = STATUS_WAITING"
      and nonempty: "\<And>s. s \<in> set (conflictList h) \<Longrightarrow> mode (R s) \<noteq> MODE_NONE"
      using wf r(1) by (auto simp: head_wf_def waiting_ok_def)
    note step = waiters_post_grant [where R = R and h = h and r = r, OF _ r ok d]
    show ?thesis
    proof (cases "mode (R r) = MODE_X")
      case True
      have "waiters_post xs ?h ?R ?h ?R"
        using wf' safe' exclusive_conflicts_all [OF wf', of r] nonempty True d
        by (auto simp: waiters_post_def waiters_granted_refl)
      moreover have "grant_events xs ?h ?R ?R = []" by (simp add: grant_events_def)
      ultimately show ?thesis
        unfolding grantWaiters_step [OF wf r(1)]
        using \<open>\<not> conflicts _ _\<close> True step by (fastforce simp: Let_def)
    next
      case False
      have rest: "conflicts (mode (?R s)) (grantedModes ?h)"
        if "s \<in> set (conflictList ?h) - set xs" for s
      proof -
        from that d r have "s \<in> set (conflictList h) - set (r # xs)" "s \<noteq> r" by auto
        then have "conflicts (mode (R s)) (grantedModes h)" using Cons.prems(6) by blast
        then have "conflicts (mode (R s)) (grantedModes ?h)"
          by (rule conflicts_granted_mono [OF wf wf']) (use nin in auto)
        with \<open>s \<noteq> r\<close> show ?thesis by simp
      qed
      have "\<exists>h' R'. grantWaiters xs ?h ?R ?ns = Some (h', R', ?ns @ grant_events xs ?h ?R R') \<and>
          waiters_post xs ?h ?R h' R'"
        by (rule Cons.IH [OF wf' safe' _ _ rest]) (use Cons.prems(4,5) d in auto)
      then show ?thesis
        unfolding grantWaiters_step [OF wf r(1)]
        using \<open>\<not> conflicts _ _\<close> False step by (fastforce simp: Let_def)
    qed
  qed
qed

subsection \<open>The whole of \<open>_onLockModeChanged\<close>\<close>

text \<open>What changes for the requests of a head: the first requests of the conflict list that fit
  (in their order) move to the granted list, some conversions on the granted list are granted,
  and nothing else happens.\<close>

definition unblocked :: "LockHead \<Rightarrow> store \<Rightarrow> LockHead \<Rightarrow> store \<Rightarrow> bool" where
  "unblocked h R h' R' \<longleftrightarrow> resourceId h' = resourceId h \<and> partitions h' = partitions h \<and>
     (\<exists>p. let ys = filter p (conflictList h) in
        grantedList h' = grantedList h @ ys \<and>
        conflictList h' = filter (\<lambda>r. r \<notin> set ys) (conflictList h) \<and>
        (\<forall>r\<in>set ys. R' r = (R r)\<lparr>status := STATUS_GRANTED\<rparr>) \<and>
        (\<forall>r. r \<notin> set ys \<longrightarrow> R' r = R r \<or>
           r \<in> set (grantedList h) \<and> status (R r) = STATUS_CONVERTING \<and> R' r = converted (R r)))"

lemma grant_events_append: "grant_events (xs @ ys) h R R' = grant_events xs h R R' @ grant_events ys h R R'"
  by (simp add: grant_events_def)

lemma grant_events_cong:
  "(\<And>r. r \<in> set xs \<Longrightarrow> Q r = R r) \<Longrightarrow> (\<And>r. r \<in> set xs \<Longrightarrow> Q' r = R' r) \<Longrightarrow>
   grant_events xs h Q Q' = grant_events xs h R R'"
  unfolding grant_events_def by (induction xs) simp_all

lemma waiters_run:
  assumes post: "conversions_post (grantedList h) h R h1 R1" and check: "\<not> check \<longrightarrow> waiters_live R h"
  shows "\<exists>h' R'. (if check then grantWaiters (conflictList h1) h1 R1 ns else Some (h1, R1, ns)) =
      Some (h', R', ns @ grant_events (conflictList h) h R1 R') \<and>
    head_inv R' h' \<and> waiters_granted (conflictList h) h R1 h' R'"
proof (cases check)
  case True
  from post have lists: "conflictList h1 = conflictList h" "grantedList h1 = grantedList h"
      "resourceId h1 = resourceId h" "partitions h1 = partitions h"
    by (simp_all add: conversions_post_def same_lists_def)
  have "\<exists>h' R'. grantWaiters (conflictList h1) h1 R1 ns =
      Some (h', R', ns @ grant_events (conflictList h1) h1 R1 R') \<and> waiters_post (conflictList h1) h1 R1 h' R'"
    by (rule grantWaiters_run) (use post in \<open>auto simp: conversions_post_def head_wf_def\<close>)
  then obtain h' R' where run: "grantWaiters (conflictList h1) h1 R1 ns =
      Some (h', R', ns @ grant_events (conflictList h1) h1 R1 R')"
    and wpost: "waiters_post (conflictList h1) h1 R1 h' R'" by blast
  have "head_inv R' h'"
    using wpost by (cases "conflictList h'")
      (auto simp: waiters_post_def head_inv_def head_live_def waiters_live_def)
  moreover have "waiters_granted (conflictList h) h R1 h' R'"
    using wpost by (simp add: waiters_post_def waiters_granted_def lists)
  ultimately show ?thesis using True run by (simp add: grant_events_def lists)
next
  case False
  then have "head_inv R1 h1" using post check
    by (simp add: conversions_post_def head_inv_def head_live_def)
  moreover have "waiters_granted (conflictList h) h R1 h1 R1"
    using post waiters_granted_refl [of "conflictList h" h R1]
    by (simp add: conversions_post_def same_lists_def waiters_granted_def)
  ultimately show ?thesis using False by (simp add: grant_events_def)
qed

lemma unblocked_trans:
  assumes "conversions_post (grantedList h) h R h1 R1" and "waiters_granted (conflictList h) h R1 h' R'"
    and d: "set (grantedList h) \<inter> set (conflictList h) = {}"
  shows "unblocked h R h' R'"
    and "grant_events (grantedList h) h R R1 @ grant_events (conflictList h) h R1 R' =
      grant_events (grantedList h @ conflictList h) h R R'"
proof -
  have granted: "conversions_granted (grantedList h) R R1"
    using assms(1) by (simp add: conversions_post_def)
  obtain p where p: "R' = (\<lambda>r. if r \<in> set (filter p (conflictList h)) then (R1 r)\<lparr>status := STATUS_GRANTED\<rparr> else R1 r)"
    "grantedList h' = grantedList h @ filter p (conflictList h)"
    "conflictList h' = filter (\<lambda>r. r \<notin> set (filter p (conflictList h))) (conflictList h)"
    "resourceId h' = resourceId h" "partitions h' = partitions h"
    using assms(2) by (auto simp: waiters_granted_def Let_def)
  have on_granted: "R' r = R1 r" if "r \<in> set (grantedList h)" for r using that d by (auto simp: p(1))
  have on_conflict: "R1 r = R r" if "r \<in> set (conflictList h)" for r
    using that d by (intro conversions_granted_outside [OF granted]) auto
  show "unblocked h R h' R'"
    unfolding unblocked_def Let_def
    using p(2-5) granted on_conflict
    by (intro conjI exI [of _ p]) (auto simp: p(1) conversions_granted_def)
  show "grant_events (grantedList h) h R R1 @ grant_events (conflictList h) h R1 R' =
      grant_events (grantedList h @ conflictList h) h R R'"
    using on_granted on_conflict
    by (simp add: grant_events_append grant_events_cong [of "grantedList h" R R R' R1]
        grant_events_cong [of "conflictList h" R1 R R' R'])
qed

lemma onLockModeChanged_run:
  assumes wf: "head_wf R h" and safe: "head_safe R h" and check: "\<not> check \<longrightarrow> waiters_live R h"
  shows "\<exists>h' R'. onLockModeChanged h R check =
      Some (h', R', grant_events (grantedList h @ conflictList h) h R R') \<and>
    head_inv R' h' \<and> unblocked h R h' R'"
proof -
  have "\<exists>h1 R1. grantConversions (grantedList h) h R [] = Some (h1, R1, [] @ grant_events (grantedList h) h R R1) \<and>
      conversions_post (grantedList h) h R h1 R1"
    by (rule grantConversions_run [OF wf safe]) (use wf in \<open>auto simp: head_wf_def\<close>)
  then obtain h1 R1 where run1: "grantConversions (grantedList h) h R [] = Some (h1, R1, grant_events (grantedList h) h R R1)"
    and post: "conversions_post (grantedList h) h R h1 R1" by auto
  from waiters_run [OF post check] obtain h' R' where
    run2: "(if check then grantWaiters (conflictList h1) h1 R1 (grant_events (grantedList h) h R R1)
        else Some (h1, R1, grant_events (grantedList h) h R R1)) =
      Some (h', R', grant_events (grantedList h) h R R1 @ grant_events (conflictList h) h R1 R')"
    and inv: "head_inv R' h'" and granted: "waiters_granted (conflictList h) h R1 h' R'"
    by blast
  have wf': "head_wf R' h'" using inv by (simp add: head_inv_def)
  have d: "set (grantedList h) \<inter> set (conflictList h) = {}" using wf by (simp add: head_wf_def)
  have "onLockModeChanged h R check =
      Some (h', R', grant_events (grantedList h) h R R1 @ grant_events (conflictList h) h R1 R')"
    unfolding onLockModeChanged_def
    by (simp add: run1 run2 grantedModes_zero [OF wf'] conflictModes_zero [OF wf'])
  then show ?thesis
    using inv unblocked_trans [OF post granted d] by auto
qed

end
