(* ===== verification/LockManager.thy ===== *)
theory LockManager
  imports LockHead
begin

unbundle bit_operations_syntax

text \<open>
  The lock manager of src/src/mongo/db/concurrency/lock_manager.cpp: buckets of lock heads,
  partitions for intent locks, and the operations \<open>lock\<close>, \<open>convert\<close>, \<open>unlock\<close>,
  \<open>downgrade\<close> and \<open>cleanupUnusedLocks\<close>.

  Each operation runs its critical sections under the mutex of a bucket or a partition, so a
  section is one atomic step; \<open>lock\<close> has two of them, the fast path on the partition and the
  slow path on the bucket, and both are definitions of their own, so that other operations may
  come in between. A pointer to a lock head is the id of its resource, a pointer to a
  partitioned lock head is the partition and the resource. The calls of \<open>notify\<close> are recorded
  in order.
\<close>

subsection \<open>Definitions\<close>

definition numLockBuckets :: nat where
  "numLockBuckets = 128"

definition numPartitions :: nat where
  "numPartitions = 32"

type_synonym PartitionMaps = "nat \<Rightarrow> ResourceId \<Rightarrow> RequestPtr list option"

record LockManager =
  requests :: store
  lockBuckets :: "nat \<Rightarrow> ResourceId \<Rightarrow> LockHead option"
  partitionMaps :: PartitionMaps
  notified :: "notification list"

definition getBucket :: "ResourceId \<Rightarrow> nat" where
  "getBucket resId = unat resId mod numLockBuckets"

definition getPartition :: "LockRequest \<Rightarrow> nat" where
  "getPartition q = locker q mod numPartitions"

definition headOf :: "LockManager \<Rightarrow> ResourceId \<Rightarrow> LockHead option" where
  "headOf s resId = lockBuckets s (getBucket resId) resId"

definition setHead :: "ResourceId \<Rightarrow> LockHead option \<Rightarrow> LockManager \<Rightarrow> LockManager" where
  "setHead resId h s = s\<lparr>lockBuckets := (lockBuckets s)
     (getBucket resId := (lockBuckets s (getBucket resId))(resId := h))\<rparr>"

definition setRequest :: "RequestPtr \<Rightarrow> LockRequest \<Rightarrow> LockManager \<Rightarrow> LockManager" where
  "setRequest r q s = s\<lparr>requests := (requests s)(r := q)\<rparr>"

definition setPartition :: "nat \<Rightarrow> ResourceId \<Rightarrow> RequestPtr list option \<Rightarrow> PartitionMaps \<Rightarrow> PartitionMaps" where
  "setPartition p resId gl P = P(p := (P p)(resId := gl))"

text \<open>\<open>LockBucket::findOrInsert\<close> and \<open>Partition::findOrInsert\<close>.\<close>

definition findOrInsertHead :: "ResourceId \<Rightarrow> LockManager \<Rightarrow> LockHead" where
  "findOrInsertHead resId s = (case headOf s resId of None \<Rightarrow> initNewHead resId | Some h \<Rightarrow> h)"

definition findOrInsertPartition :: "nat \<Rightarrow> ResourceId \<Rightarrow> PartitionMaps \<Rightarrow> RequestPtr list" where
  "findOrInsertPartition p resId P = (case P p resId of None \<Rightarrow> [] | Some gl \<Rightarrow> gl)"

text \<open>\<open>PartitionedLockHead::newRequest\<close>.\<close>

definition partitionedNewRequest ::
  "nat \<Rightarrow> ResourceId \<Rightarrow> RequestPtr list \<Rightarrow> RequestPtr \<Rightarrow> LockMode \<Rightarrow> LockManager \<Rightarrow> LockManager" where
  "partitionedNewRequest p resId gl request m s =
     (let q = (requests s request)\<lparr>lock_ptr := None, partitionedLock := Some (p, resId),
                recursiveCount := 1, status := STATUS_GRANTED, partitioned := True, mode := m\<rparr>
      in (setRequest request q s)
           \<lparr>partitionMaps := setPartition p resId (Some (gl @ [request])) (partitionMaps s)\<rparr>)"

subsubsection \<open>Migration of partitioned requests\<close>

text \<open>The inner loop of \<open>migratePartitionedLockHeads\<close>: take the requests of one partitioned lock
  head from its front and give them to the lock head.\<close>

fun migrateRequests :: "RequestPtr list \<Rightarrow> LockHead \<Rightarrow> store \<Rightarrow> (LockHead \<times> store) option" where
  "migrateRequests [] h R = Some (h, R)"
| "migrateRequests (request # rest) h R = do {
     (res, h, R) \<leftarrow> newRequest request (mode (R request)) h R;
     invariant (res = LOCK_OK);
     migrateRequests rest h R
   }"

text \<open>The outer loop, from the last partition of the vector to its first.\<close>

fun migratePartitions ::
  "nat list \<Rightarrow> LockHead \<Rightarrow> store \<Rightarrow> PartitionMaps \<Rightarrow> (LockHead \<times> store \<times> PartitionMaps) option" where
  "migratePartitions [] h R P = Some (h, R, P)"
| "migratePartitions (p # ps) h R P = do {
     (h, R, P) \<leftarrow> (case P p (resourceId h) of
        None \<Rightarrow> Some (h, R, P)
      | Some gl \<Rightarrow> do {
          (h, R) \<leftarrow> migrateRequests gl h R;
          Some (h, R, setPartition p (resourceId h) None P)
        });
     let h = h\<lparr>partitions := butlast (partitions h)\<rparr>;
     migratePartitions ps h R P
   }"

definition migratePartitionedLockHeads ::
  "LockHead \<Rightarrow> LockManager \<Rightarrow> (LockHead \<times> LockManager) option" where
  "migratePartitionedLockHeads h s = do {
     invariant (isPartitioned h);
     invariant (onlyIntentModes (grantedModes h) \<and> conflictModes h = 0);
     (h, R, P) \<leftarrow> migratePartitions (rev (partitions h)) h (requests s) (partitionMaps s);
     Some (h, s\<lparr>requests := R, partitionMaps := P\<rparr>)
   }"

subsubsection \<open>Acquiring locks\<close>

text \<open>The critical section of the fast path: true and the new state if there is a partitioned
  lock head for the resource.\<close>

definition lockFastPath :: "ResourceId \<Rightarrow> RequestPtr \<Rightarrow> LockMode \<Rightarrow> LockManager \<Rightarrow> bool \<times> LockManager" where
  "lockFastPath resId request m s =
     (if partitioned (requests s request) then
        let p = getPartition (requests s request)
        in case partitionMaps s p resId of
             Some gl \<Rightarrow> (True, partitionedNewRequest p resId gl request m s)
           | None \<Rightarrow> (False, s)
      else (False, s))"

definition lockSlowPath ::
  "ResourceId \<Rightarrow> RequestPtr \<Rightarrow> LockMode \<Rightarrow> LockManager \<Rightarrow> (LockResult \<times> LockManager) option" where
  "lockSlowPath resId request m s =
     (let h = findOrInsertHead resId s
      in if partitioned (requests s request) \<and> onlyIntentModes (grantedModes h) \<and> conflictModes h = 0
         then
           let p = getPartition (requests s request);
               gl = findOrInsertPartition p resId (partitionMaps s);
               s = setHead resId (Some (h\<lparr>partitions := partitions h @ [p]\<rparr>)) s
           in Some (LOCK_OK, partitionedNewRequest p resId gl request m s)
         else do {
           (h, s) \<leftarrow> (if isPartitioned h then migratePartitionedLockHeads h s else Some (h, s));
           let s = setRequest request ((requests s request)\<lparr>partitioned := False\<rparr>) s;
           (res, h, R) \<leftarrow> newRequest request m h (requests s);
           Some (res, setHead resId (Some h) (s\<lparr>requests := R\<rparr>))
         })"

definition lock ::
  "ResourceId \<Rightarrow> RequestPtr \<Rightarrow> LockMode \<Rightarrow> LockManager \<Rightarrow> (LockResult \<times> LockManager) option" where
  "lock resId request m s = do {
     invariant (status (requests s request) = STATUS_NEW);
     let s = setRequest request
       ((requests s request)\<lparr>partitioned := (m = MODE_IX \<or> m = MODE_IS)\<rparr>) s;
     let (found, s) = lockFastPath resId request m s;
     if found then Some (LOCK_OK, s) else lockSlowPath resId request m s
   }"

text \<open>The loop of \<open>convert\<close> that builds the granted mask without the mode the request holds.\<close>

fun modesWithoutCurrent ::
  "LockMode list \<Rightarrow> LockRequest \<Rightarrow> (LockMode \<Rightarrow> nat) \<Rightarrow> 32 word \<Rightarrow> 32 word" where
  "modesWithoutCurrent [] q counts acc = acc"
| "modesWithoutCurrent (i # is) q counts acc =
     (let currentRequestHolds = (if mode q = i then 1 else 0)
      in modesWithoutCurrent is q counts
           (if counts i > currentRequestHolds then acc OR modeMask i else acc))"

definition convert ::
  "ResourceId \<Rightarrow> RequestPtr \<Rightarrow> LockMode \<Rightarrow> LockManager \<Rightarrow> (LockResult \<times> LockManager) option" where
  "convert resId request newMode s = do {
     invariant (status (requests s request) = STATUS_GRANTED);
     invariant (recursiveCount (requests s request) > 0);
     let s = setRequest request
       ((requests s request)\<lparr>recursiveCount := recursiveCount (requests s request) + 1\<rparr>) s;
     let m = mode (requests s request);
     if LockConflictsTable m OR LockConflictsTable newMode = LockConflictsTable m
     then Some (LOCK_OK, s)
     else do {
       invariant (LockConflictsTable m OR LockConflictsTable newMode = LockConflictsTable newMode);
       h \<leftarrow> headOf s resId;
       (h, s) \<leftarrow> (if isPartitioned h then migratePartitionedLockHeads h s else Some (h, s));
       let q = requests s request;
       if conflicts newMode (modesWithoutCurrent realModes q (grantedCounts h) 0) then do {
         invariant (recursiveCount q > 1);
         let h = h\<lparr>conversionsCount := conversionsCount h + 1\<rparr>;
         h \<leftarrow> incGrantedModeCount newMode h;
         let q = q\<lparr>status := STATUS_CONVERTING, convertMode := newMode\<rparr>;
         Some (LOCK_WAITING, setHead resId (Some h) (setRequest request q s))
       } else do {
         h \<leftarrow> incGrantedModeCount newMode h;
         h \<leftarrow> decGrantedModeCount (mode q) h;
         Some (LOCK_OK, setHead resId (Some h) (setRequest request (q\<lparr>mode := newMode\<rparr>) s))
       }
     }
   }"

subsubsection \<open>Releasing locks\<close>

text \<open>Run \<open>_onLockModeChanged\<close> on the head of a resource and store the outcome.\<close>

definition runModeChanged :: "ResourceId \<Rightarrow> LockHead \<Rightarrow> bool \<Rightarrow> LockManager \<Rightarrow> LockManager option" where
  "runModeChanged resId h checkConflictQueue s = do {
     (h, R, ns) \<leftarrow> onLockModeChanged h (requests s) checkConflictQueue;
     Some (setHead resId (Some h) (s\<lparr>requests := R, notified := notified s @ ns\<rparr>))
   }"

text \<open>The part of \<open>unlock\<close> under the bucket mutex.\<close>

definition unlockHead :: "RequestPtr \<Rightarrow> LockManager \<Rightarrow> LockManager option" where
  "unlockHead request s = do {
     resId \<leftarrow> lock_ptr (requests s request);
     h \<leftarrow> headOf s resId;
     let q = requests s request;
     case status q of
       STATUS_GRANTED \<Rightarrow> do {
         let h = h\<lparr>grantedList := remove1 request (grantedList h)\<rparr>;
         h \<leftarrow> decGrantedModeCount (mode q) h;
         let h = (if compatibleFirst q
                  then h\<lparr>compatibleFirstCount := compatibleFirstCount h - 1\<rparr> else h);
         runModeChanged resId h (grantedCounts h (mode q) = 0) s
       }
     | STATUS_WAITING \<Rightarrow> do {
         invariant (recursiveCount q = 0);
         let h = h\<lparr>conflictList := remove1 request (conflictList h)\<rparr>;
         h \<leftarrow> decConflictModeCount (mode q) h;
         runModeChanged resId h True s
       }
     | STATUS_CONVERTING \<Rightarrow> do {
         invariant (recursiveCount q > 0);
         let q = q\<lparr>status := STATUS_GRANTED\<rparr>;
         let h = h\<lparr>conversionsCount := conversionsCount h - 1\<rparr>;
         h \<leftarrow> decGrantedModeCount (convertMode q) h;
         let q = q\<lparr>convertMode := MODE_NONE\<rparr>;
         runModeChanged resId h (grantedCounts h (convertMode q) = 0) (setRequest request q s)
       }
     | STATUS_NEW \<Rightarrow> None
   }"

definition unlock :: "RequestPtr \<Rightarrow> LockManager \<Rightarrow> (bool \<times> LockManager) option" where
  "unlock request s = do {
     invariant (recursiveCount (requests s request) > 0);
     let s = setRequest request
       ((requests s request)\<lparr>recursiveCount := recursiveCount (requests s request) - 1\<rparr>) s;
     let q = requests s request;
     if status q = STATUS_GRANTED \<and> recursiveCount q > 0 then Some (False, s)
     else do {
       invariant (partitioned q \<longrightarrow> status q = STATUS_GRANTED \<or> status q = STATUS_CONVERTING);
       case (if partitioned q then partitionedLock q else None) of
         Some (p, resId) \<Rightarrow>
           Some (True, s\<lparr>partitionMaps := setPartition p resId
             (map_option (remove1 request) (partitionMaps s p resId)) (partitionMaps s)\<rparr>)
       | None \<Rightarrow> do {
           invariant (lock_ptr q \<noteq> None);
           s \<leftarrow> unlockHead request s;
           Some (recursiveCount (requests s request) = 0, s)
         }
     }
   }"

definition downgrade :: "RequestPtr \<Rightarrow> LockMode \<Rightarrow> LockManager \<Rightarrow> LockManager option" where
  "downgrade request newMode s = do {
     let q = requests s request;
     invariant (lock_ptr q \<noteq> None);
     invariant (status q = STATUS_GRANTED);
     invariant (recursiveCount q > 0);
     invariant (LockConflictsTable (mode q) OR LockConflictsTable newMode = LockConflictsTable (mode q));
     resId \<leftarrow> lock_ptr q;
     h \<leftarrow> headOf s resId;
     h \<leftarrow> incGrantedModeCount newMode h;
     h \<leftarrow> decGrantedModeCount (mode q) h;
     runModeChanged resId h True (setRequest request (q\<lparr>mode := newMode\<rparr>) s)
   }"

subsubsection \<open>Cleaning up\<close>

text \<open>The loop over the entries of one bucket. The order in which the hash map yields its
  entries is the argument.\<close>

fun cleanupBucket :: "ResourceId list \<Rightarrow> LockManager \<Rightarrow> LockManager option" where
  "cleanupBucket [] s = Some s"
| "cleanupBucket (resId # rest) s = do {
     h \<leftarrow> headOf s resId;
     (h, s) \<leftarrow> (if isPartitioned h then migratePartitionedLockHeads h s else Some (h, s));
     if grantedModes h = 0 then do {
       invariant (grantedList h = []);
       invariant (conflictModes h = 0);
       invariant (conflictList h = []);
       invariant (conversionsCount h = 0);
       invariant (compatibleFirstCount h = 0);
       cleanupBucket rest (setHead resId None s)
     } else cleanupBucket rest (setHead resId (Some h) s)
   }"

fun cleanupBuckets :: "nat list \<Rightarrow> (nat \<Rightarrow> ResourceId list) \<Rightarrow> LockManager \<Rightarrow> LockManager option" where
  "cleanupBuckets [] order s = Some s"
| "cleanupBuckets (i # is) order s = do {
     s \<leftarrow> cleanupBucket (order i) s;
     cleanupBuckets is order s
   }"

definition cleanupUnusedLocks :: "(nat \<Rightarrow> ResourceId list) \<Rightarrow> LockManager \<Rightarrow> LockManager option" where
  "cleanupUnusedLocks order s = cleanupBuckets [0..<numLockBuckets] order s"

text \<open>The initial state: no heads and no partitioned heads.\<close>

definition initLockManager :: "store \<Rightarrow> LockManager" where
  "initLockManager R = \<lparr>requests = R, lockBuckets = (\<lambda>_ _. None), partitionMaps = (\<lambda>_ _. None),
     notified = []\<rparr>"

subsection \<open>The invariant of the lock manager\<close>

text \<open>A request on one of the two lists of the head of \<open>res\<close>.\<close>

definition queued_ok :: "ResourceId \<Rightarrow> LockRequest \<Rightarrow> bool" where
  "queued_ok res q \<longleftrightarrow> lock_ptr q = Some res \<and> partitionedLock q = None \<and> 0 < recursiveCount q \<and>
     (status q = STATUS_WAITING \<longrightarrow> recursiveCount q = 1 \<and> \<not> partitioned q) \<and>
     (status q = STATUS_CONVERTING \<longrightarrow> 1 < recursiveCount q)"

abbreviation queued :: "LockHead \<Rightarrow> RequestPtr set" where
  "queued h \<equiv> set (grantedList h) \<union> set (conflictList h)"

definition headed_ok :: "store \<Rightarrow> ResourceId \<Rightarrow> LockHead \<Rightarrow> bool" where
  "headed_ok R res h \<longleftrightarrow> resourceId h = res \<and> head_inv R h \<and>
     (\<forall>r\<in>queued h. queued_ok res (R r)) \<and>
     (isPartitioned h \<longrightarrow> onlyIntentModes (grantedModes h) \<and> conflictModes h = 0)"

text \<open>A request on the partitioned lock head of \<open>res\<close> in the partition \<open>p\<close>.\<close>

definition parted_ok :: "nat \<Rightarrow> ResourceId \<Rightarrow> LockRequest \<Rightarrow> bool" where
  "parted_ok p res q \<longleftrightarrow> status q = STATUS_GRANTED \<and> mode q \<in> {MODE_IS, MODE_IX} \<and>
     convertMode q = MODE_NONE \<and> lock_ptr q = None \<and> partitionedLock q = Some (p, res) \<and>
     partitioned q \<and> 0 < recursiveCount q"

definition partition_ok :: "store \<Rightarrow> nat \<Rightarrow> ResourceId \<Rightarrow> RequestPtr list \<Rightarrow> bool" where
  "partition_ok R p res gl \<longleftrightarrow> distinct gl \<and> (\<forall>r\<in>set gl. parted_ok p res (R r))"

definition lm_inv :: "LockManager \<Rightarrow> bool" where
  "lm_inv s \<longleftrightarrow>
     (\<forall>res h. headOf s res = Some h \<longrightarrow> headed_ok (requests s) res h) \<and>
     (\<forall>p res gl. partitionMaps s p res = Some gl \<longrightarrow> partition_ok (requests s) p res gl \<and>
        (\<exists>h. headOf s res = Some h \<and> p \<in> set (partitions h)))"

text \<open>The requests that hold the resource, and the modes they hold it in: what a client of the
  lock manager sees.\<close>

definition parted :: "LockManager \<Rightarrow> ResourceId \<Rightarrow> RequestPtr set" where
  "parted s res = {r. \<exists>p gl. partitionMaps s p res = Some gl \<and> r \<in> set gl}"

definition granted_on :: "LockManager \<Rightarrow> ResourceId \<Rightarrow> RequestPtr set" where
  "granted_on s res =
     (case headOf s res of None \<Rightarrow> {} | Some h \<Rightarrow> set (grantedList h)) \<union> parted s res"

definition waiting_on :: "LockManager \<Rightarrow> ResourceId \<Rightarrow> RequestPtr set" where
  "waiting_on s res = (case headOf s res of None \<Rightarrow> {} | Some h \<Rightarrow> set (conflictList h))"

definition grants :: "LockManager \<Rightarrow> ResourceId \<Rightarrow> RequestPtr \<Rightarrow> LockMode option" where
  "grants s res r = (if r \<in> granted_on s res then Some (mode (requests s r)) else None)"

definition on_manager :: "LockManager \<Rightarrow> RequestPtr \<Rightarrow> bool" where
  "on_manager s r \<longleftrightarrow> (\<exists>res. r \<in> granted_on s res \<union> waiting_on s res)"

subsection \<open>Access to the state\<close>

lemma headOf_setHead [simp]:
  "headOf (setHead res h s) res' = (if res' = res then h else headOf s res')"
  by (auto simp: headOf_def setHead_def)

lemma setHead_simps [simp]:
  "requests (setHead res h s) = requests s" "partitionMaps (setHead res h s) = partitionMaps s"
  "notified (setHead res h s) = notified s"
  by (simp_all add: setHead_def)

lemma setHead_setHead [simp]: "setHead res h (setHead res h' s) = setHead res h s"
  by (simp add: setHead_def)

lemma setRequest_simps [simp]:
  "requests (setRequest r q s) = (requests s)(r := q)" "headOf (setRequest r q s) = headOf s"
  "partitionMaps (setRequest r q s) = partitionMaps s" "notified (setRequest r q s) = notified s"
  by (simp_all add: setRequest_def headOf_def fun_eq_iff)

lemma headOf_updates [simp]:
  "headOf (s\<lparr>requests := R\<rparr>) = headOf s" "headOf (s\<lparr>partitionMaps := P\<rparr>) = headOf s"
  "headOf (s\<lparr>notified := ns\<rparr>) = headOf s"
  by (simp_all add: headOf_def fun_eq_iff)

lemma setPartition_apply [simp]:
  "setPartition p res gl P p' res' = (if p' = p \<and> res' = res then gl else P p' res')"
  by (simp add: setPartition_def)

lemma parted_simps [simp]:
  "parted (setHead res h s) = parted s" "parted (setRequest r q s) = parted s"
  "parted (s\<lparr>requests := R\<rparr>) = parted s" "parted (s\<lparr>notified := ns\<rparr>) = parted s"
  by (simp_all add: parted_def fun_eq_iff)

lemma setHead_requests: "setHead res h (s\<lparr>requests := R\<rparr>) = (setHead res h s)\<lparr>requests := R\<rparr>"
  by (simp add: setHead_def)

subsection \<open>Who is where\<close>

lemma lm_inv_head: "lm_inv s \<Longrightarrow> headOf s res = Some h \<Longrightarrow> headed_ok (requests s) res h"
  by (simp add: lm_inv_def)

lemma lm_inv_parted: "lm_inv s \<Longrightarrow> r \<in> parted s res \<Longrightarrow> \<exists>p. parted_ok p res (requests s r)"
  unfolding lm_inv_def parted_def partition_ok_def by blast

lemma lm_inv_parted_head:
  "lm_inv s \<Longrightarrow> r \<in> parted s res \<Longrightarrow> \<exists>h. headOf s res = Some h \<and> isPartitioned h"
  by (force simp: lm_inv_def parted_def isPartitioned_def)

lemma queuedD:
  "lm_inv s \<Longrightarrow> headOf s res = Some h \<Longrightarrow> r \<in> queued h \<Longrightarrow> lock_ptr (requests s r) = Some res"
  using lm_inv_head [of s res h] by (auto simp: headed_ok_def queued_ok_def)

lemma on_manager_iff:
  "on_manager s r \<longleftrightarrow> (\<exists>res h. headOf s res = Some h \<and> r \<in> queued h) \<or> (\<exists>res. r \<in> parted s res)"
proof -
  have "r \<in> granted_on s res \<union> waiting_on s res \<longleftrightarrow>
      (\<exists>h. headOf s res = Some h \<and> r \<in> queued h) \<or> r \<in> parted s res" for res
    by (cases "headOf s res") (auto simp: granted_on_def waiting_on_def)
  then show ?thesis unfolding on_manager_def by blast
qed

text \<open>A new request is on no list.\<close>

lemma queued_not_new: "headed_ok R res h \<Longrightarrow> r \<in> queued h \<Longrightarrow> status (R r) \<noteq> STATUS_NEW"
  by (auto simp: headed_ok_def head_inv_def head_wf_def granted_ok_def waiting_ok_def)

lemma new_not_on_manager:
  assumes "lm_inv s" and "status (requests s r) = STATUS_NEW"
  shows "\<not> on_manager s r"
proof -
  have "r \<notin> queued h" if "headOf s res = Some h" for res h
    using queued_not_new [OF lm_inv_head [OF assms(1) that]] assms(2) by auto
  moreover have "r \<notin> parted s res" for res
    using lm_inv_parted [OF assms(1), of r res] assms(2) by (auto simp: parted_ok_def)
  ultimately show ?thesis unfolding on_manager_iff by blast
qed

text \<open>Mutual exclusion follows from the invariant, across heads and partitions.\<close>

lemma onlyIntentModes_mode:
  "onlyIntentModes w \<Longrightarrow> bit w (modeIndex m) \<Longrightarrow> m \<in> {MODE_IS, MODE_IX}"
proof -
  assume "onlyIntentModes w" and "bit w (modeIndex m)"
  then have "modeIndex m \<in> {modeIndex MODE_IS, modeIndex MODE_IX}"
    unfolding onlyIntentModes_iff by blast
  then show ?thesis unfolding insert_iff modeIndex_inject by simp
qed

lemma onlyIntent_no_conflict:
  "onlyIntentModes w \<Longrightarrow> m \<in> {MODE_IS, MODE_IX} \<Longrightarrow> \<not> conflicts m w"
proof
  assume only: "onlyIntentModes w" and m: "m \<in> {MODE_IS, MODE_IX}" and "conflicts m w"
  then obtain m' where "bit w (modeIndex m')" "incompatible m m'"
    using conflicts_iff by blast
  then show False using onlyIntentModes_mode [OF only] m incompatible_intent by blast
qed

lemma intent_head:
  assumes "headed_ok R res h" and "isPartitioned h" and "r \<in> set (grantedList h)"
  shows "mode (R r) \<in> {MODE_IS, MODE_IX}"
proof -
  from assms have wf: "head_wf R h" and only: "onlyIntentModes (grantedModes h)"
    by (simp_all add: headed_ok_def head_inv_def)
  have "0 < held (mode (R r)) (R r)" using wf assms(3) by (auto simp: head_wf_def held_pos granted_ok_def)
  then have "0 < grantedCounts h (mode (R r))"
    using wf assms(3) by (auto simp: head_wf_def total_pos_iff)
  then have "bit (grantedModes h) (modeIndex (mode (R r)))" using wf by (simp add: head_wf_def)
  then show ?thesis by (rule onlyIntentModes_mode [OF only])
qed

lemma grants_compatible:
  assumes inv: "lm_inv s" and r: "grants s res r = Some m" and r': "grants s res r' = Some m'"
    and ne: "r \<noteq> r'"
  shows "\<not> incompatible m m'"
proof -
  have m: "m = mode (requests s r)" "m' = mode (requests s r')"
    and on: "r \<in> granted_on s res" "r' \<in> granted_on s res"
    using r r' by (auto simp: grants_def split: if_splits)
  have intent: "mode (requests s q) \<in> {MODE_IS, MODE_IX}"
    if "q \<in> granted_on s res" and "parted s res \<noteq> {}" for q
  proof -
    from that(2) obtain h where h: "headOf s res = Some h" "isPartitioned h"
      using lm_inv_parted_head [OF inv] by blast
    show ?thesis
    proof (cases "q \<in> parted s res")
      case True
      then show ?thesis using lm_inv_parted [OF inv] by (auto simp: parted_ok_def)
    next
      case False
      then have "q \<in> set (grantedList h)" using that(1) h(1) by (simp add: granted_on_def)
      then show ?thesis by (rule intent_head [OF lm_inv_head [OF inv h(1)] h(2)])
    qed
  qed
  show ?thesis
  proof (cases "parted s res = {}")
    case True
    with on obtain h where h: "headOf s res = Some h" "r \<in> set (grantedList h)" "r' \<in> set (grantedList h)"
      by (auto simp: granted_on_def split: option.splits)
    then show ?thesis
      using lm_inv_head [OF inv h(1)] ne by (auto simp: m headed_ok_def head_inv_def head_safe_def)
  next
    case False
    then show ?thesis using intent [OF on(1)] intent [OF on(2)] by (simp add: m)
  qed
qed

subsection \<open>Replacing one lock head\<close>

text \<open>The invariant of a head reads the store at its own requests only.\<close>

lemma headed_ok_cong:
  "headed_ok R res h \<Longrightarrow> (\<And>r. r \<in> queued h \<Longrightarrow> R' r = R r) \<Longrightarrow> headed_ok R' res h"
  using head_inv_cong [of h R' R] by (auto simp: headed_ok_def)

lemma partition_ok_cong:
  "partition_ok R p res gl \<Longrightarrow> (\<And>r. r \<in> set gl \<Longrightarrow> R' r = R r) \<Longrightarrow> partition_ok R' p res gl"
  by (simp add: partition_ok_def)

text \<open>A critical section under the bucket mutex of \<open>res\<close> changes the head of \<open>res\<close>, its requests
  and requests that are on no list.\<close>

definition local_to :: "ResourceId \<Rightarrow> LockManager \<Rightarrow> store \<Rightarrow> bool" where
  "local_to res s R' \<longleftrightarrow> (\<forall>r. R' r \<noteq> requests s r \<longrightarrow>
     \<not> on_manager s r \<or> (\<exists>h. headOf s res = Some h \<and> r \<in> queued h))"

lemma local_to_other_head:
  assumes inv: "lm_inv s" and loc: "local_to res s R'" and h: "headOf s res' = Some h" "res' \<noteq> res"
    and r: "r \<in> queued h"
  shows "R' r = requests s r"
proof (rule ccontr)
  assume "R' r \<noteq> requests s r"
  moreover have "on_manager s r" using h(1) r unfolding on_manager_iff by blast
  ultimately obtain h' where "headOf s res = Some h'" "r \<in> queued h'"
    using loc by (auto simp: local_to_def)
  then show False using queuedD [OF inv] h r by (metis option.inject)
qed

lemma local_to_parted:
  assumes inv: "lm_inv s" and loc: "local_to res s R'" and r: "r \<in> parted s res'"
  shows "R' r = requests s r"
proof (rule ccontr)
  assume "R' r \<noteq> requests s r"
  moreover have "on_manager s r" using r unfolding on_manager_iff by blast
  ultimately obtain h' where "headOf s res = Some h'" "r \<in> queued h'"
    using loc by (auto simp: local_to_def)
  then have "lock_ptr (requests s r) = Some res" by (rule queuedD [OF inv])
  then show False using lm_inv_parted [OF inv r] by (auto simp: parted_ok_def)
qed

lemma head_update:
  assumes inv: "lm_inv s" and loc: "local_to res s R'" and ok: "headed_ok R' res h'"
    and parts: "\<And>h. headOf s res = Some h \<Longrightarrow> set (partitions h) \<subseteq> set (partitions h')"
  shows "lm_inv (setHead res (Some h') (s\<lparr>requests := R'\<rparr>))"
  unfolding lm_inv_def
proof (intro conjI allI impI)
  fix res2 h2 assume h2: "headOf (setHead res (Some h') (s\<lparr>requests := R'\<rparr>)) res2 = Some h2"
  show "headed_ok (requests (setHead res (Some h') (s\<lparr>requests := R'\<rparr>))) res2 h2"
  proof (cases "res2 = res")
    case True
    with h2 ok show ?thesis by simp
  next
    case False
    with h2 have "headOf s res2 = Some h2" by simp
    then show ?thesis
      using headed_ok_cong [OF lm_inv_head [OF inv] local_to_other_head [OF inv loc _ False]] by simp
  qed
next
  fix p res2 gl assume "partitionMaps (setHead res (Some h') (s\<lparr>requests := R'\<rparr>)) p res2 = Some gl"
  then have P: "partitionMaps s p res2 = Some gl" by simp
  then have ok2: "partition_ok (requests s) p res2 gl"
    and h2: "\<exists>h. headOf s res2 = Some h \<and> p \<in> set (partitions h)"
    using inv by (simp_all add: lm_inv_def)
  have "R' r = requests s r" if "r \<in> set gl" for r
    by (rule local_to_parted [OF inv loc]) (use P that in \<open>auto simp: parted_def\<close>)
  then show "partition_ok (requests (setHead res (Some h') (s\<lparr>requests := R'\<rparr>))) p res2 gl"
    using partition_ok_cong [OF ok2] by simp
  show "\<exists>h. headOf (setHead res (Some h') (s\<lparr>requests := R'\<rparr>)) res2 = Some h \<and> p \<in> set (partitions h)"
    using h2 parts by (cases "res2 = res") auto
qed

lemma lm_inv_notified [simp]: "lm_inv (s\<lparr>notified := ns\<rparr>) = lm_inv s"
  by (simp add: lm_inv_def)

subsection \<open>Migration\<close>

text \<open>What migration does to a request.\<close>

definition migrated :: "ResourceId \<Rightarrow> LockRequest \<Rightarrow> LockRequest" where
  "migrated res q = q\<lparr>lock_ptr := Some res, partitionedLock := None\<rparr>"

lemma migrated_simps [simp]:
  "lock_ptr (migrated res q) = Some res" "partitionedLock (migrated res q) = None"
  "mode (migrated res q) = mode q" "status (migrated res q) = status q"
  "convertMode (migrated res q) = convertMode q" "recursiveCount (migrated res q) = recursiveCount q"
  "partitioned (migrated res q) = partitioned q" "locker (migrated res q) = locker q"
  "compatibleFirst (migrated res q) = compatibleFirst q"
  by (simp_all add: migrated_def)

definition migrate_set :: "RequestPtr set \<Rightarrow> ResourceId \<Rightarrow> store \<Rightarrow> store" where
  "migrate_set A res R = (\<lambda>r. if r \<in> A then migrated res (R r) else R r)"

text \<open>A head that takes part in partitioning.\<close>

definition intent_only :: "store \<Rightarrow> ResourceId \<Rightarrow> LockHead \<Rightarrow> bool" where
  "intent_only R res h \<longleftrightarrow> headed_ok R res h \<and> onlyIntentModes (grantedModes h) \<and> conflictModes h = 0"

lemma migrate_request:
  assumes h: "intent_only R res h" and part: "isPartitioned h" and r: "parted_ok p res (R r)"
  shows "\<exists>h'. newRequest r (mode (R r)) h R = Some (LOCK_OK, h', R(r := migrated res (R r))) \<and>
    intent_only (R(r := migrated res (R r))) res h' \<and> partitions h' = partitions h \<and>
    grantedList h' = grantedList h @ [r]"
proof -
  let ?R = "R(r := migrated res (R r))"
  have wf: "head_wf R h" and inv: "head_inv R h" and res: "resourceId h = res"
    using h by (simp_all add: intent_only_def headed_ok_def head_inv_def)
  have new: "r \<notin> set (grantedList h)" "r \<notin> set (conflictList h)"
    using h r by (auto simp: intent_only_def headed_ok_def queued_ok_def parted_ok_def)
  have q: "(assigned (R r) (mode (R r)) h)\<lparr>status := STATUS_GRANTED\<rparr> = migrated res (R r)"
    using r part by (cases "R r") (simp add: assigned_def migrated_def parted_ok_def res)
  have free: "\<not> conflicts (mode (R r)) (grantedModes h)"
    using h r onlyIntent_no_conflict by (auto simp: intent_only_def parted_ok_def)
  let ?h = "granted_head h r (assigned (R r) (mode (R r)) h)"
  have run: "newRequest r (mode (R r)) h R = Some (LOCK_OK, ?h, ?R)"
    using free h by (simp add: newRequest_run [OF wf] Let_def q intent_only_def)
  then have inv': "head_inv ?R ?h"
    using newRequest_inv [OF inv new, of "mode (R r)"] r by (auto simp: parted_ok_def)
  have "onlyIntentModes (grantedModes ?h)"
    using h r wf by (auto simp: intent_only_def onlyIntentModes_iff granted_head_def Let_def
        bit_modesOf head_wf_def parted_ok_def split: if_splits)
  then have "intent_only ?R res ?h"
    using h r inv' new by (auto simp: intent_only_def headed_ok_def queued_ok_def parted_ok_def)
  then show ?thesis using run by auto
qed

lemma migrateRequests_run:
  assumes "intent_only R res h" and "isPartitioned h" and "distinct gl"
    and "\<And>r. r \<in> set gl \<Longrightarrow> parted_ok p res (R r)"
  shows "\<exists>h'. migrateRequests gl h R = Some (h', migrate_set (set gl) res R) \<and>
    intent_only (migrate_set (set gl) res R) res h' \<and> partitions h' = partitions h \<and>
    set (grantedList h') = set (grantedList h) \<union> set gl"
  using assms
proof (induction gl arbitrary: h R)
  case Nil
  then show ?case by (simp add: migrate_set_def)
next
  case (Cons r gl)
  let ?R = "R(r := migrated res (R r))"
  from migrate_request [OF Cons.prems(1,2) Cons.prems(4) [of r]] obtain h1 where
    run1: "newRequest r (mode (R r)) h R = Some (LOCK_OK, h1, ?R)"
    and h1: "intent_only ?R res h1" "partitions h1 = partitions h" "grantedList h1 = grantedList h @ [r]"
    by auto
  have "\<exists>h'. migrateRequests gl h1 ?R = Some (h', migrate_set (set gl) res ?R) \<and>
      intent_only (migrate_set (set gl) res ?R) res h' \<and> partitions h' = partitions h1 \<and>
      set (grantedList h') = set (grantedList h1) \<union> set gl"
    by (rule Cons.IH [OF h1(1)]) (use Cons.prems(2-4) h1(2) in \<open>auto simp: isPartitioned_def\<close>)
  moreover have "migrate_set (set gl) res ?R = migrate_set (set (r # gl)) res R"
    using Cons.prems(3) by (auto simp: migrate_set_def)
  ultimately show ?case using run1 h1(2,3) by auto
qed

text \<open>The requests for \<open>res\<close> on the partitions \<open>ps\<close>.\<close>

definition parted_in :: "PartitionMaps \<Rightarrow> nat set \<Rightarrow> ResourceId \<Rightarrow> RequestPtr set" where
  "parted_in P ps res = {r. \<exists>p\<in>ps. \<exists>gl. P p res = Some gl \<and> r \<in> set gl}"

lemma migrate_partition:
  assumes h: "intent_only R res h" and part: "isPartitioned h"
    and gl: "\<And>gl. P p res = Some gl \<Longrightarrow> partition_ok R p res gl"
  shows "\<exists>h'. migratePartitions (p # ps) h R P =
      migratePartitions ps h' (migrate_set (parted_in P {p} res) res R) (setPartition p res None P) \<and>
    intent_only (migrate_set (parted_in P {p} res) res R) res h' \<and>
    partitions h' = butlast (partitions h) \<and>
    set (grantedList h') = set (grantedList h) \<union> parted_in P {p} res"
proof -
  have resId: "resourceId h = res" using h by (simp add: intent_only_def headed_ok_def)
  have pop: "intent_only R' res (h'\<lparr>partitions := butlast (partitions h)\<rparr>)"
    if "intent_only R' res h'" for R' h'
    using that by (auto simp: intent_only_def headed_ok_def isPartitioned_def)
  show ?thesis
  proof (cases "P p res")
    case None
    then have "parted_in P {p} res = {}" "setPartition p res None P = P"
      by (auto simp: parted_in_def setPartition_def fun_eq_iff)
    moreover have "migrate_set {} res R = R" by (simp add: migrate_set_def)
    ultimately show ?thesis using None h pop [OF h]
      by (intro exI [of _ "h\<lparr>partitions := butlast (partitions h)\<rparr>"]) (simp add: resId)
  next
    case (Some gl')
    then have A: "parted_in P {p} res = set gl'" by (auto simp: parted_in_def)
    obtain h1 where run: "migrateRequests gl' h R = Some (h1, migrate_set (set gl') res R)"
      and h1: "intent_only (migrate_set (set gl') res R) res h1" "partitions h1 = partitions h"
        "set (grantedList h1) = set (grantedList h) \<union> set gl'"
      using migrateRequests_run [OF h part, of gl' p] gl [OF Some] by (auto simp: partition_ok_def)
    have "resourceId h1 = res" using h1(1) by (simp add: intent_only_def headed_ok_def)
    then show ?thesis using Some run h1 pop [OF h1(1)]
      by (intro exI [of _ "h1\<lparr>partitions := butlast (partitions h)\<rparr>"]) (simp add: resId A)
  qed
qed

lemma migratePartitions_run:
  assumes "intent_only R res h" and "partitions h = rev ps"
    and "\<And>p gl. P p res = Some gl \<Longrightarrow> partition_ok R p res gl"
  shows "\<exists>h'. migratePartitions ps h R P =
      Some (h', migrate_set (parted_in P (set ps) res) res R,
        (\<lambda>p res'. if p \<in> set ps \<and> res' = res then None else P p res')) \<and>
    intent_only (migrate_set (parted_in P (set ps) res) res R) res h' \<and> partitions h' = [] \<and>
    set (grantedList h') = set (grantedList h) \<union> parted_in P (set ps) res"
  using assms
proof (induction ps arbitrary: h R P)
  case Nil
  then show ?case by (simp add: migrate_set_def parted_in_def)
next
  case (Cons p ps)
  let ?A = "parted_in P {p} res"
  let ?R = "migrate_set ?A res R" and ?P = "setPartition p res None P"
  have part: "isPartitioned h" using Cons.prems(2) by (simp add: isPartitioned_def)
  from migrate_partition [OF Cons.prems(1) part Cons.prems(3)] obtain h1 where
    step: "migratePartitions (p # ps) h R P = migratePartitions ps h1 ?R ?P"
    and h1: "intent_only ?R res h1" "partitions h1 = butlast (partitions h)"
      "set (grantedList h1) = set (grantedList h) \<union> ?A"
    by blast
  have ok: "partition_ok ?R p' res gl'" if "?P p' res = Some gl'" for p' gl'
  proof -
    from that have gl': "P p' res = Some gl'" "p' \<noteq> p" by (auto split: if_splits)
    have at: "partitionedLock (R r) = Some (x, res)" if "P x res = Some g" "r \<in> set g" for x g r
      using Cons.prems(3) [OF that(1)] that(2) by (simp add: partition_ok_def parted_ok_def)
    have "r \<notin> ?A" if "r \<in> set gl'" for r
      using at [OF gl'(1) that] at [of p _ r] gl'(2) by (auto simp: parted_in_def)
    then show ?thesis using partition_ok_cong [OF Cons.prems(3) [OF gl'(1)]] by (simp add: migrate_set_def)
  qed
  have "partitions h1 = rev ps" using h1(2) Cons.prems(2) by simp
  from Cons.IH [OF h1(1) this ok] obtain h2 where
    run2: "migratePartitions ps h1 ?R ?P = Some (h2, migrate_set (parted_in ?P (set ps) res) res ?R,
        (\<lambda>p res'. if p \<in> set ps \<and> res' = res then None else ?P p res'))"
    and h2: "intent_only (migrate_set (parted_in ?P (set ps) res) res ?R) res h2" "partitions h2 = []"
      "set (grantedList h2) = set (grantedList h1) \<union> parted_in ?P (set ps) res"
    by blast
  have all: "?A \<union> parted_in ?P (set ps) res = parted_in P (set (p # ps)) res"
    by (auto simp: parted_in_def split: if_splits)
  have "migrate_set (parted_in ?P (set ps) res) res ?R = migrate_set (parted_in P (set (p # ps)) res) res R"
    unfolding all [symmetric] by (auto simp: migrate_set_def fun_eq_iff migrated_def)
  moreover have "(\<lambda>p' res'. if p' \<in> set ps \<and> res' = res then None else ?P p' res') =
      (\<lambda>p' res'. if p' \<in> set (p # ps) \<and> res' = res then None else P p' res')"
    by (auto simp: fun_eq_iff)
  ultimately show ?case using step run2 h1(3) h2 all by auto
qed

text \<open>Migration as a step of the manager: the partitioned requests for the resource are on the
  head afterwards, in the modes they had, and the invariant holds.\<close>

lemma migrated_inv:
  assumes inv: "lm_inv s" and ok: "headed_ok (requests s') res h'"
    and R: "requests s' = migrate_set (parted s res) res (requests s)" and heads: "headOf s' = headOf s"
    and P: "\<And>p res' gl. partitionMaps s' p res' = Some gl \<longleftrightarrow> partitionMaps s p res' = Some gl \<and> res' \<noteq> res"
  shows "lm_inv (setHead res (Some h') s')"
  unfolding lm_inv_def
proof (intro conjI allI impI)
  have same: "requests s' r = requests s r" if "r \<notin> parted s res" for r
    using that by (simp add: R migrate_set_def)
  {
    fix res2 h2 assume h2: "headOf (setHead res (Some h') s') res2 = Some h2"
    show "headed_ok (requests (setHead res (Some h') s')) res2 h2"
    proof (cases "res2 = res")
      case True
      then show ?thesis using h2 ok by simp
    next
      case False
      then have h2': "headOf s res2 = Some h2" using h2 by (simp add: heads)
      have "r \<notin> parted s res" if "r \<in> queued h2" for r
        using queuedD [OF inv h2' that] lm_inv_parted [OF inv, of r res] by (auto simp: parted_ok_def)
      then show ?thesis using headed_ok_cong [OF lm_inv_head [OF inv h2']] same by simp
    qed
  }
  fix p res2 gl assume "partitionMaps (setHead res (Some h') s') p res2 = Some gl"
  then have P2: "partitionMaps s p res2 = Some gl" "res2 \<noteq> res" using P by simp_all
  then have ok2: "partition_ok (requests s) p res2 gl"
    and h2: "\<exists>h. headOf s res2 = Some h \<and> p \<in> set (partitions h)"
    using inv by (simp_all add: lm_inv_def)
  have "r \<notin> parted s res" if "r \<in> set gl" for r
    using ok2 that P2(2) lm_inv_parted [OF inv, of r res] by (auto simp: partition_ok_def parted_ok_def)
  then show "partition_ok (requests (setHead res (Some h') s')) p res2 gl"
    using partition_ok_cong [OF ok2] same by simp
  show "\<exists>h. headOf (setHead res (Some h') s') res2 = Some h \<and> p \<in> set (partitions h)"
    using h2 P2(2) by (simp add: heads)
qed

lemma migrate_run:
  assumes inv: "lm_inv s" and h: "headOf s res = Some h" and part: "isPartitioned h"
  shows "\<exists>h' s'. migratePartitionedLockHeads h s = Some (h', s') \<and>
    lm_inv (setHead res (Some h') s') \<and> \<not> isPartitioned h' \<and>
    requests s' = migrate_set (parted s res) res (requests s) \<and> notified s' = notified s \<and>
    headOf s' = headOf s \<and> (\<forall>res'. parted s' res' = (if res' = res then {} else parted s res')) \<and>
    set (grantedList h') = set (grantedList h) \<union> parted s res \<and> conflictList h' = [] \<and> conflictList h = []"
proof -
  have ok: "intent_only (requests s) res h"
    using lm_inv_head [OF inv h] part by (simp add: intent_only_def headed_ok_def)
  have pok: "partition_ok (requests s) p res gl" if "partitionMaps s p res = Some gl" for p gl
    using inv that by (simp add: lm_inv_def)
  let ?P = "partitionMaps s" and ?ps = "set (partitions h)"
  let ?R = "migrate_set (parted s res) res (requests s)"
  let ?P' = "\<lambda>p res'. if p \<in> ?ps \<and> res' = res then None else ?P p res'"
  have here: "p \<in> ?ps" if "?P p res = Some gl" for p gl
    using inv that h by (fastforce simp: lm_inv_def)
  then have A: "parted_in ?P ?ps res = parted s res"
    unfolding parted_in_def parted_def by blast
  from migratePartitions_run [OF ok _ pok, of "rev (partitions h)" ?P, simplified, unfolded A] obtain h' where
    run: "migratePartitions (rev (partitions h)) h (requests s) ?P = Some (h', ?R, ?P')"
    and h': "intent_only ?R res h'" "partitions h' = []"
      "set (grantedList h') = set (grantedList h) \<union> parted s res"
    by auto
  let ?s = "s\<lparr>requests := ?R, partitionMaps := ?P'\<rparr>"
  have runs: "migratePartitionedLockHeads h s = Some (h', ?s)"
    using run ok part by (simp add: migratePartitionedLockHeads_def intent_only_def)
  have P': "?P' p res' = Some gl \<longleftrightarrow> ?P p res' = Some gl \<and> res' \<noteq> res" for p res' gl
    using here by auto
  have "lm_inv (setHead res (Some h') ?s)"
    by (rule migrated_inv [OF inv]) (use h'(1) P' in \<open>simp_all add: intent_only_def\<close>)
  moreover have "conflictList h' = []" "conflictList h = []"
    using h'(1) ok conflictModes_zero by (auto simp: intent_only_def headed_ok_def head_inv_def)
  moreover have "parted ?s res' = (if res' = res then {} else parted s res')" for res'
    using P' by (auto simp: parted_def)
  ultimately show ?thesis using runs h'(2,3) by (auto simp: isPartitioned_def)
qed

subsection \<open>The head of a resource, without partitions\<close>

text \<open>Every section that needs a head without partitions starts by migrating, if there are any.
  A client cannot see it: the resource is held by the same requests in the same modes.\<close>

definition prepared :: "ResourceId \<Rightarrow> LockManager \<Rightarrow> LockHead \<Rightarrow> LockManager \<Rightarrow> bool" where
  "prepared res s h' s' \<longleftrightarrow>
     lm_inv (setHead res (Some h') s') \<and> \<not> isPartitioned h' \<and> headOf s' = headOf s \<and>
     (\<forall>r. \<exists>l p. requests s' r = (requests s r)\<lparr>lock_ptr := l, partitionedLock := p\<rparr>) \<and>
     (\<forall>r. \<not> on_manager s r \<longrightarrow> requests s' r = requests s r) \<and> notified s' = notified s \<and>
     granted_on (setHead res (Some h') s') = granted_on s \<and>
     waiting_on (setHead res (Some h') s') = waiting_on s \<and>
     parted s' res = {}"

lemma prepare_run:
  assumes inv: "lm_inv s" and h: "headOf s res = Some h"
  shows "\<exists>h' s'. (if isPartitioned h then migratePartitionedLockHeads h s else Some (h, s)) =
    Some (h', s') \<and> prepared res s h' s'"
proof (cases "isPartitioned h")
  case True
  from migrate_run [OF inv h True] obtain h' s' where
    run: "migratePartitionedLockHeads h s = Some (h', s')"
    and inv': "lm_inv (setHead res (Some h') s')" "\<not> isPartitioned h'"
    and R: "requests s' = migrate_set (parted s res) res (requests s)" "notified s' = notified s"
      "headOf s' = headOf s" "\<And>res'. parted s' res' = (if res' = res then {} else parted s res')"
    and lists: "set (grantedList h') = set (grantedList h) \<union> parted s res"
      "conflictList h' = []" "conflictList h = []"
    by blast
  have "granted_on (setHead res (Some h') s') res' = granted_on s res'" for res'
    by (cases "res' = res") (simp_all add: granted_on_def R h lists)
  moreover have "waiting_on (setHead res (Some h') s') res' = waiting_on s res'" for res'
    by (cases "res' = res") (simp_all add: waiting_on_def R h lists)
  moreover have "\<exists>l p. requests s' r = (requests s r)\<lparr>lock_ptr := l, partitionedLock := p\<rparr>" for r
    by (cases "r \<in> parted s res"; cases "requests s r")
      (auto simp: R migrate_set_def migrated_def intro: exI [of _ "lock_ptr (requests s r)"])
  moreover have "requests s' r = requests s r" if "\<not> on_manager s r" for r
    using that by (auto simp: R migrate_set_def on_manager_iff)
  ultimately show ?thesis using True run inv' R by (auto simp: prepared_def)
next
  case False
  then have "parted s res = {}" using lm_inv_parted_head [OF inv] h by fastforce
  moreover have "setHead res (Some h) s = s"
    using h by (cases s) (auto simp: setHead_def headOf_def fun_eq_iff)
  moreover have "\<exists>l p. requests s r = (requests s r)\<lparr>lock_ptr := l, partitionedLock := p\<rparr>" for r
    by (cases "requests s r") auto
  ultimately show ?thesis using False inv by (simp add: prepared_def)
qed

lemma preparedD:
  assumes "prepared res s h' s'"
  shows "on_manager (setHead res (Some h') s') = on_manager s"
    and "mode (requests s' r) = mode (requests s r)" "status (requests s' r) = status (requests s r)"
    and "convertMode (requests s' r) = convertMode (requests s r)"
    and "recursiveCount (requests s' r) = recursiveCount (requests s r)"
    and "grants (setHead res (Some h') s') = grants s"
proof -
  from assms have "\<forall>r. \<exists>l p. requests s' r = (requests s r)\<lparr>lock_ptr := l, partitionedLock := p\<rparr>"
    by (simp add: prepared_def)
  then obtain l p where q: "\<And>r. requests s' r = (requests s r)\<lparr>lock_ptr := l r, partitionedLock := p r\<rparr>"
    by metis
  show "mode (requests s' r) = mode (requests s r)" "status (requests s' r) = status (requests s r)"
    "convertMode (requests s' r) = convertMode (requests s r)"
    "recursiveCount (requests s' r) = recursiveCount (requests s r)"
    using q by simp_all
  show "on_manager (setHead res (Some h') s') = on_manager s"
    using assms by (simp add: on_manager_def prepared_def fun_eq_iff)
  show "grants (setHead res (Some h') s') = grants s"
    using assms q by (simp add: grants_def prepared_def fun_eq_iff)
qed

subsection \<open>Acquiring a lock\<close>

text \<open>The two outcomes of an acquisition, for a client: the request holds the resource in the
  mode asked for, next to the requests that held it before, or it waits, and nothing else
  changes.\<close>

definition acquired :: "ResourceId \<Rightarrow> RequestPtr \<Rightarrow> LockMode \<Rightarrow> LockManager \<Rightarrow> LockManager \<Rightarrow> bool" where
  "acquired res r m s s' \<longleftrightarrow> lm_inv s' \<and> notified s' = notified s \<and>
     grants s' = (grants s)(res := (grants s res)(r \<mapsto> m)) \<and> waiting_on s' = waiting_on s"

definition enqueued :: "ResourceId \<Rightarrow> RequestPtr \<Rightarrow> LockManager \<Rightarrow> LockManager \<Rightarrow> bool" where
  "enqueued res r s s' \<longleftrightarrow> lm_inv s' \<and> notified s' = notified s \<and>
     grants s' = grants s \<and> waiting_on s' = (waiting_on s)(res := insert r (waiting_on s res))"

lemma granted_on_parted:
  "granted_on s res = (case headOf s res of None \<Rightarrow> {} | Some h \<Rightarrow> set (grantedList h)) \<union> parted s res"
  by (simp add: granted_on_def)

text \<open>Joining the partitioned lock head of the resource in the partition \<open>p\<close>.\<close>

lemma partitionedNewRequest_acquired:
  assumes inv: "lm_inv s" and off: "\<not> on_manager s r" and m: "m \<in> {MODE_IS, MODE_IX}"
    and conv: "convertMode (requests s r) = MODE_NONE"
    and h: "headOf s res = Some h" "p \<in> set (partitions h)"
    and gl: "gl = findOrInsertPartition p res (partitionMaps s)"
  shows "acquired res r m s (partitionedNewRequest p res gl r m s)"
proof -
  let ?s = "partitionedNewRequest p res gl r m s"
  let ?q = "(requests s r)\<lparr>lock_ptr := None, partitionedLock := Some (p, res), recursiveCount := 1,
    status := STATUS_GRANTED, partitioned := True, mode := m\<rparr>"
  have s': "requests ?s = (requests s)(r := ?q)" "headOf ?s = headOf s" "notified ?s = notified s"
      "partitionMaps ?s = setPartition p res (Some (gl @ [r])) (partitionMaps s)"
    by (simp_all add: partitionedNewRequest_def Let_def)
  have off_head: "r \<notin> queued h'" if "headOf s res' = Some h'" for res' h'
    using off that unfolding on_manager_iff by blast
  have off_parted: "r \<notin> parted s res'" for res' using off unfolding on_manager_iff by blast
  then have off_part: "r \<notin> set gl'" if "partitionMaps s p' res' = Some gl'" for p' res' gl'
    using that by (auto simp: parted_def)
  have old: "partition_ok (requests s) p res gl"
    using inv by (auto simp: gl findOrInsertPartition_def lm_inv_def partition_ok_def split: option.splits)
  have r_gl: "r \<notin> set gl" using off_part by (auto simp: gl findOrInsertPartition_def split: option.splits)
  have "lm_inv ?s"
    unfolding lm_inv_def s'
  proof (intro conjI allI impI)
    fix res' h' assume h': "headOf s res' = Some h'"
    show "headed_ok ((requests s)(r := ?q)) res' h'"
      by (rule headed_ok_cong [OF lm_inv_head [OF inv h']]) (use off_head [OF h'] in auto)
  next
    fix p' res' gl' assume P: "setPartition p res (Some (gl @ [r])) (partitionMaps s) p' res' = Some gl'"
    have "partition_ok ((requests s)(r := ?q)) p' res' gl' \<and> (\<exists>h. headOf s res' = Some h \<and> p' \<in> set (partitions h))"
    proof (cases "p' = p \<and> res' = res")
      case True
      with P have "gl' = gl @ [r]" by simp
      with True h old r_gl m conv show ?thesis by (auto simp: partition_ok_def parted_ok_def)
    next
      case False
      with P have P': "partitionMaps s p' res' = Some gl'" by (auto split: if_splits)
      then show ?thesis using inv partition_ok_cong off_part [OF P'] unfolding lm_inv_def
        by (metis fun_upd_other)
    qed
    then show "partition_ok ((requests s)(r := ?q)) p' res' gl'"
      and "\<exists>h. headOf s res' = Some h \<and> p' \<in> set (partitions h)" by blast+
  qed
  moreover have "parted ?s res' = (if res' = res then insert r (parted s res) else parted s res')" for res'
    unfolding parted_def s'
    by (auto simp: gl findOrInsertPartition_def split: option.splits if_splits) metis
  ultimately show ?thesis
    using off_parted off_head
    by (auto simp: acquired_def grants_def granted_on_def waiting_on_def s' fun_eq_iff split: option.splits)
qed

text \<open>A new request on the head of the resource.\<close>

definition outcome :: "ResourceId \<Rightarrow> RequestPtr \<Rightarrow> LockMode \<Rightarrow> LockManager \<Rightarrow> LockResult \<Rightarrow> LockManager \<Rightarrow> bool" where
  "outcome res r m s x s' \<longleftrightarrow> x = LOCK_OK \<and> acquired res r m s s' \<or> x = LOCK_WAITING \<and> enqueued res r s s'"

lemma newRequest_outcome:
  assumes inv: "lm_inv t" and off: "\<not> on_manager t r" and m: "m \<noteq> MODE_NONE"
    and q: "convertMode (requests t r) = MODE_NONE" "\<not> partitioned (requests t r)"
    and h: "headOf t res = Some h" "\<not> isPartitioned h"
  shows "\<exists>x h' R'. newRequest r m h (requests t) = Some (x, h', R') \<and>
    outcome res r m t x (setHead res (Some h') (t\<lparr>requests := R'\<rparr>))"
proof -
  have ok: "headed_ok (requests t) res h" by (rule lm_inv_head [OF inv h(1)])
  then have wf: "head_wf (requests t) h" and hinv: "head_inv (requests t) h"
    by (simp_all add: headed_ok_def head_inv_def)
  have new: "r \<notin> set (grantedList h)" "r \<notin> set (conflictList h)" and off_parted: "r \<notin> parted t res'" for res'
    using off h(1) unfolding on_manager_iff by blast+
  have off_head: "r \<notin> queued h'" if "headOf t res' = Some h'" for res' h'
    using off that unfolding on_manager_iff by blast
  let ?q = "assigned (requests t r) m h"
  from newRequest_inv [OF hinv new m q(1)] obtain x h' R' where
    run: "newRequest r m h (requests t) = Some (x, h', R')" and inv': "head_inv R' h'" by blast
  have "x = LOCK_WAITING \<and> h' = waiting_head h r ?q \<and> R' = (requests t)(r := ?q\<lparr>status := STATUS_WAITING\<rparr>) \<or>
      x = LOCK_OK \<and> h' = granted_head h r ?q \<and> R' = (requests t)(r := ?q\<lparr>status := STATUS_GRANTED\<rparr>)"
    using run by (auto simp: newRequest_run [OF wf] Let_def split: if_splits)
  then consider (wait) "x = LOCK_WAITING" "h' = waiting_head h r ?q" "R' = (requests t)(r := ?q\<lparr>status := STATUS_WAITING\<rparr>)"
    | (grant) "x = LOCK_OK" "h' = granted_head h r ?q" "R' = (requests t)(r := ?q\<lparr>status := STATUS_GRANTED\<rparr>)"
    by blast
  then have "outcome res r m t x (setHead res (Some h') (t\<lparr>requests := R'\<rparr>))"
  proof cases
    case wait
    have ok': "headed_ok R' res h'"
      using ok inv' new q h(2) by (auto simp: headed_ok_def wait queued_ok_def isPartitioned_def)
    have "lm_inv (setHead res (Some h') (t\<lparr>requests := R'\<rparr>))"
      by (rule head_update [OF inv _ ok']) (use off h(1) in \<open>auto simp: local_to_def wait\<close>)
    then show ?thesis using off_parted off_head h(1)
      by (auto simp: outcome_def enqueued_def wait(1,2,3) grants_def granted_on_def waiting_on_def
          fun_eq_iff split: option.splits)
  next
    case grant
    have ok': "headed_ok R' res h'"
      using ok inv' new q h(2) by (auto simp: headed_ok_def grant queued_ok_def isPartitioned_def)
    have "lm_inv (setHead res (Some h') (t\<lparr>requests := R'\<rparr>))"
      by (rule head_update [OF inv _ ok']) (use off h(1) in \<open>auto simp: local_to_def grant\<close>)
    then show ?thesis using off_parted off_head h(1)
      by (auto simp: outcome_def acquired_def grant(1,2,3) grants_def granted_on_def waiting_on_def
          fun_eq_iff split: option.splits)
  qed
  with run show ?thesis by blast
qed

lemma outcome_same_view:
  assumes "outcome res r m t x s'" and "grants t = grants s" and "waiting_on t = waiting_on s"
    and "notified t = notified s"
  shows "outcome res r m s x s'"
  using assms by (simp add: outcome_def acquired_def enqueued_def)

text \<open>Changing a request that is on no list, or adding an empty head, changes nothing for a
  client.\<close>

lemma off_manager_update:
  assumes inv: "lm_inv s" and off: "\<not> on_manager s r"
  shows "lm_inv (setRequest r q s)" and "grants (setRequest r q s) = grants s"
    and "waiting_on (setRequest r q s) = waiting_on s" and "on_manager (setRequest r q s) = on_manager s"
proof -
  have g: "granted_on (setRequest r q s) = granted_on s" and w: "waiting_on (setRequest r q s) = waiting_on s"
    by (simp_all add: granted_on_def waiting_on_def fun_eq_iff)
  show "waiting_on (setRequest r q s) = waiting_on s" by (rule w)
  show "on_manager (setRequest r q s) = on_manager s" by (simp add: on_manager_def g w fun_eq_iff)
  show "grants (setRequest r q s) = grants s"
    using off by (auto simp: grants_def g fun_eq_iff on_manager_def)
  have "headed_ok ((requests s)(r := q)) res h" if "headOf s res = Some h" for res h
    by (rule headed_ok_cong [OF lm_inv_head [OF inv that]]) (use off that in \<open>auto simp: on_manager_iff\<close>)
  moreover have "partition_ok ((requests s)(r := q)) p res gl" if "partitionMaps s p res = Some gl" for p res gl
  proof -
    have "r \<notin> set gl" using off that by (auto simp: on_manager_iff parted_def)
    moreover have "partition_ok (requests s) p res gl" using inv that by (simp add: lm_inv_def)
    ultimately show ?thesis by (auto elim: partition_ok_cong)
  qed
  ultimately show "lm_inv (setRequest r q s)" using inv by (simp add: lm_inv_def)
qed

lemma new_head_update:
  assumes inv: "lm_inv s" and none: "headOf s res = None"
  shows "lm_inv (setHead res (Some (initNewHead res)) s)"
    and "grants (setHead res (Some (initNewHead res)) s) = grants s"
    and "waiting_on (setHead res (Some (initNewHead res)) s) = waiting_on s"
    and "on_manager (setHead res (Some (initNewHead res)) s) = on_manager s"
proof -
  let ?s = "setHead res (Some (initNewHead res)) s"
  have g: "granted_on ?s = granted_on s" and w: "waiting_on ?s = waiting_on s"
    using none by (auto simp: granted_on_def waiting_on_def fun_eq_iff initNewHead_def)
  show "waiting_on ?s = waiting_on s" by (rule w)
  show "on_manager ?s = on_manager s" by (simp add: on_manager_def g w fun_eq_iff)
  show "grants ?s = grants s" by (simp add: grants_def g fun_eq_iff)
  have ok: "headed_ok (requests s) res (initNewHead res)"
    by (simp add: headed_ok_def isPartitioned_def initNewHead_def head_inv_initNew [unfolded initNewHead_def])
  have "lm_inv (setHead res (Some (initNewHead res)) (s\<lparr>requests := requests s\<rparr>))"
    by (rule head_update [OF inv _ ok]) (simp_all add: local_to_def none)
  then show "lm_inv ?s" by simp
qed

lemma prepare_new_run:
  assumes inv: "lm_inv s" and h: "h = findOrInsertHead res s"
  shows "\<exists>h' s'. (if isPartitioned h then migratePartitionedLockHeads h s else Some (h, s)) =
    Some (h', s') \<and> prepared res s h' s'"
proof (cases "headOf s res")
  case None
  then have h': "h = initNewHead res" "\<not> isPartitioned h" by (simp_all add: h findOrInsertHead_def isPartitioned_def initNewHead_def)
  have "granted_on (setHead res (Some h) s) = granted_on s" "waiting_on (setHead res (Some h) s) = waiting_on s"
    using None by (auto simp: granted_on_def waiting_on_def fun_eq_iff h'(1) initNewHead_def)
  moreover have "parted s res = {}" using lm_inv_parted_head [OF inv] None by fastforce
  moreover have "\<exists>l p. requests s r = (requests s r)\<lparr>lock_ptr := l, partitionedLock := p\<rparr>" for r
    by (cases "requests s r") auto
  ultimately have "prepared res s h s"
    using new_head_update(1) [OF inv None] h' by (simp add: prepared_def)
  then show ?thesis using h'(2) by simp
next
  case (Some h')
  then have "h = h'" by (simp add: h findOrInsertHead_def)
  then show ?thesis using prepare_run [OF inv Some] by metis
qed

lemma lockSlowPath_outcome:
  assumes inv: "lm_inv s" and off: "\<not> on_manager s r" and m: "m \<noteq> MODE_NONE"
    and conv: "convertMode (requests s r) = MODE_NONE"
    and intent: "partitioned (requests s r) \<Longrightarrow> m \<in> {MODE_IS, MODE_IX}"
  shows "\<exists>x s'. lockSlowPath res r m s = Some (x, s') \<and> outcome res r m s x s'"
proof -
  define h where "h = findOrInsertHead res s"
  show ?thesis
  proof (cases "partitioned (requests s r) \<and> onlyIntentModes (grantedModes h) \<and> conflictModes h = 0")
    case True
    let ?p = "getPartition (requests s r)"
    let ?h = "h\<lparr>partitions := partitions h @ [?p]\<rparr>"
    let ?s = "setHead res (Some ?h) s"
    have same_lists: "granted_on ?s = granted_on s" "waiting_on ?s = waiting_on s"
      by (auto simp: granted_on_def waiting_on_def fun_eq_iff h_def findOrInsertHead_def initNewHead_def
          split: option.splits)
    have ok: "headed_ok (requests s) res ?h"
    proof -
      have "headed_ok (requests s) res h"
        using lm_inv_head [OF inv] lm_inv_head [OF new_head_update(1) [OF inv]]
        by (auto simp: h_def findOrInsertHead_def split: option.splits)
      with True show ?thesis by (simp add: headed_ok_def)
    qed
    have "lm_inv (setHead res (Some ?h) (s\<lparr>requests := requests s\<rparr>))"
      by (rule head_update [OF inv _ ok]) (auto simp: local_to_def h_def findOrInsertHead_def)
    then have inv': "lm_inv ?s" by simp
    have off': "\<not> on_manager ?s r" using off by (simp add: on_manager_def same_lists)
    have "acquired res r m ?s (partitionedNewRequest ?p res (findOrInsertPartition ?p res (partitionMaps s)) r m ?s)"
      by (rule partitionedNewRequest_acquired [OF inv' off']) (use True intent conv in auto)
    moreover have "grants ?s = grants s" by (simp add: grants_def same_lists fun_eq_iff)
    ultimately show ?thesis
      using True same_lists by (simp add: lockSlowPath_def Let_def flip: h_def) (simp add: outcome_def acquired_def)
  next
    case False
    from prepare_new_run [OF inv h_def] obtain h1 s1 where
      run: "(if isPartitioned h then migratePartitionedLockHeads h s else Some (h, s)) = Some (h1, s1)"
      and prep: "prepared res s h1 s1" by blast
    let ?q = "(requests s1 r)\<lparr>partitioned := False\<rparr>"
    let ?t = "setRequest r ?q (setHead res (Some h1) s1)"
    have inv1: "lm_inv (setHead res (Some h1) s1)" and off1: "\<not> on_manager (setHead res (Some h1) s1) r"
      and np: "\<not> isPartitioned h1" and req: "requests s1 r = requests s r" and ns: "notified s1 = notified s"
      using prep off preparedD(1) [OF prep] by (simp_all add: prepared_def)
    note upd = off_manager_update [OF inv1 off1, of ?q]
    from newRequest_outcome [OF upd(1) _ m, of r res h1] obtain x h' R' where
      new: "newRequest r m h1 ((requests s1)(r := ?q)) = Some (x, h', R')"
      and out: "outcome res r m ?t x (setHead res (Some h') (?t\<lparr>requests := R'\<rparr>))"
      using upd(4) off1 np conv req by auto
    have "setHead res (Some h') (?t\<lparr>requests := R'\<rparr>) = setHead res (Some h') (s1\<lparr>requests := R'\<rparr>)"
      by (simp add: setRequest_def setHead_def)
    moreover have "outcome res r m s x (setHead res (Some h') (?t\<lparr>requests := R'\<rparr>))"
      by (rule outcome_same_view [OF out]) (use upd preparedD(6) [OF prep] prep in \<open>simp_all add: prepared_def\<close>)
    moreover have "lockSlowPath res r m s = Some (x, setHead res (Some h') (s1\<lparr>requests := R'\<rparr>))"
      using False run new
      by (simp add: lockSlowPath_def Let_def flip: h_def) (auto simp: setRequest_def setHead_def)
    ultimately show ?thesis by auto
  qed
qed

text \<open>The whole of \<open>lock\<close>.\<close>

lemma lock_outcome:
  assumes inv: "lm_inv s" and new: "status (requests s r) = STATUS_NEW"
    and conv: "convertMode (requests s r) = MODE_NONE" and m: "m \<noteq> MODE_NONE"
  shows "\<exists>x s'. lock res r m s = Some (x, s') \<and> outcome res r m s x s'"
proof -
  let ?q = "(requests s r)\<lparr>partitioned := (m = MODE_IX \<or> m = MODE_IS)\<rparr>"
  let ?s = "setRequest r ?q s"
  have off: "\<not> on_manager s r" by (rule new_not_on_manager [OF inv new])
  note upd = off_manager_update [OF inv off, of ?q]
  have off': "\<not> on_manager ?s r" using off upd(4) by simp
  have view: "outcome res r m s x s'" if "outcome res r m ?s x s'" for x s'
    by (rule outcome_same_view [OF that]) (simp_all add: upd)
  show ?thesis
  proof (cases "fst (lockFastPath res r m ?s)")
    case True
    then obtain gl where intent: "m = MODE_IX \<or> m = MODE_IS"
      and gl: "partitionMaps s (getPartition ?q) res = Some gl"
      by (auto simp: lockFastPath_def Let_def split: if_splits option.splits)
    then obtain h where "headOf s res = Some h" "getPartition ?q \<in> set (partitions h)"
      using inv unfolding lm_inv_def by blast
    then have "acquired res r m ?s (partitionedNewRequest (getPartition ?q) res gl r m ?s)"
      using intent gl conv by (intro partitionedNewRequest_acquired [OF upd(1) off'])
        (auto simp: findOrInsertPartition_def)
    then show ?thesis
      using view intent gl new by (auto simp: lock_def lockFastPath_def Let_def outcome_def)
  next
    case False
    then have "lockFastPath res r m ?s = (False, ?s)"
      by (auto simp: lockFastPath_def Let_def split: if_splits option.splits)
    moreover have "\<exists>x s'. lockSlowPath res r m ?s = Some (x, s') \<and> outcome res r m ?s x s'"
      by (rule lockSlowPath_outcome [OF upd(1) off' m]) (use conv in auto)
    ultimately show ?thesis using view new by (auto simp: lock_def)
  qed
qed

end
