(* ===== verification/LockRelease.thy ===== *)
theory LockRelease
  imports LockManager
begin

unbundle bit_operations_syntax

text \<open>
  Giving up and changing modes: what \<open>unlock\<close>, \<open>downgrade\<close>, \<open>convert\<close> and
  \<open>cleanupUnusedLocks\<close> of \<^verbatim>\<open>src/src/mongo/db/concurrency/lock_manager.cpp\<close>, as
  defined in the theory \<open>LockManager\<close>, do to the lock manager. Each of them first changes one
  lock head and one request, which keeps the head well formed and safe, and then calls
  \<open>_onLockModeChanged\<close>, which hands the resource over to the requests that fit and so
  establishes the whole invariant again. \<open>hand_over\<close> describes that second step.
\<close>

subsection \<open>Changing one request of a head\<close>

text \<open>A held lock leaves the head.\<close>

definition removed_head :: "LockHead \<Rightarrow> RequestPtr \<Rightarrow> LockRequest \<Rightarrow> LockHead" where
  "removed_head h r q = (let c = (grantedCounts h)(mode q := grantedCounts h (mode q) - 1) in
     h\<lparr>grantedList := remove1 r (grantedList h), grantedCounts := c, grantedModes := modesOf c,
       compatibleFirstCount := compatibleFirstCount h - prefersCompatible q\<rparr>)"

text \<open>A waiting request leaves the head.\<close>

definition cancelled_head :: "LockHead \<Rightarrow> RequestPtr \<Rightarrow> LockRequest \<Rightarrow> LockHead" where
  "cancelled_head h r q = (let c = (conflictCounts h)(mode q := conflictCounts h (mode q) - 1) in
     h\<lparr>conflictList := remove1 r (conflictList h), conflictCounts := c, conflictModes := modesOf c\<rparr>)"

text \<open>A conversion is cancelled.\<close>

definition reverted :: "LockRequest \<Rightarrow> LockRequest" where
  "reverted q = q\<lparr>status := STATUS_GRANTED, convertMode := MODE_NONE\<rparr>"

definition reverted_head :: "LockHead \<Rightarrow> LockRequest \<Rightarrow> LockHead" where
  "reverted_head h q = (let c = (grantedCounts h)(convertMode q := grantedCounts h (convertMode q) - 1) in
     h\<lparr>conversionsCount := conversionsCount h - 1, grantedCounts := c, grantedModes := modesOf c\<rparr>)"

text \<open>A held mode is exchanged for another.\<close>

definition exchanged_head :: "LockHead \<Rightarrow> LockMode \<Rightarrow> LockMode \<Rightarrow> LockHead" where
  "exchanged_head h m m' = (let c = (grantedCounts h)(m' := grantedCounts h m' + 1); c = c(m := c m - 1) in
     h\<lparr>grantedCounts := c, grantedModes := modesOf c\<rparr>)"

text \<open>A conversion starts to wait.\<close>

definition converting_head :: "LockHead \<Rightarrow> LockMode \<Rightarrow> LockHead" where
  "converting_head h m' = (let c = (grantedCounts h)(m' := grantedCounts h m' + 1) in
     h\<lparr>conversionsCount := conversionsCount h + 1, grantedCounts := c, grantedModes := modesOf c\<rparr>)"

lemma changed_head_simps [simp]:
  "grantedList (removed_head h r q) = remove1 r (grantedList h)"
  "conflictList (removed_head h r q) = conflictList h" "resourceId (removed_head h r q) = resourceId h"
  "partitions (removed_head h r q) = partitions h" "conflictModes (removed_head h r q) = conflictModes h"
  "grantedList (cancelled_head h r q) = grantedList h"
  "conflictList (cancelled_head h r q) = remove1 r (conflictList h)"
  "resourceId (cancelled_head h r q) = resourceId h" "partitions (cancelled_head h r q) = partitions h"
  "grantedModes (cancelled_head h r q) = grantedModes h"
  "grantedList (reverted_head h q) = grantedList h" "conflictList (reverted_head h q) = conflictList h"
  "resourceId (reverted_head h q) = resourceId h" "partitions (reverted_head h q) = partitions h"
  "conflictModes (reverted_head h q) = conflictModes h"
  "grantedList (exchanged_head h m m') = grantedList h" "conflictList (exchanged_head h m m') = conflictList h"
  "resourceId (exchanged_head h m m') = resourceId h" "partitions (exchanged_head h m m') = partitions h"
  "conflictModes (exchanged_head h m m') = conflictModes h"
  "grantedList (converting_head h m) = grantedList h" "conflictList (converting_head h m) = conflictList h"
  "resourceId (converting_head h m) = resourceId h" "partitions (converting_head h m) = partitions h"
  "conflictModes (converting_head h m) = conflictModes h"
  by (simp_all add: removed_head_def cancelled_head_def reverted_head_def exchanged_head_def
      converting_head_def Let_def)

lemma granted_held:
  assumes "head_wf R h" and "r \<in> set (grantedList h)" and "status (R r) = STATUS_GRANTED"
  shows "held m (R r) = (if m = mode (R r) then 1 else 0)" "mode (R r) \<noteq> MODE_NONE"
    "convertMode (R r) = MODE_NONE" "0 < grantedCounts h (mode (R r))"
proof -
  have ok: "granted_ok (R r)" using assms by (simp add: head_wf_def)
  then show "mode (R r) \<noteq> MODE_NONE" and "convertMode (R r) = MODE_NONE"
    using assms(3) by (auto simp: granted_ok_def)
  then show h: "held m (R r) = (if m = mode (R r) then 1 else 0)" for m by (auto simp: held_def)
  show "0 < grantedCounts h (mode (R r))"
    using assms(1) total_member_le [of r "grantedList h" "held (mode (R r))" R] assms(2) h [of "mode (R r)"]
    by (simp add: head_wf_def)
qed

lemma head_wf_removed:
  assumes wf: "head_wf R h" and r: "r \<in> set (grantedList h)" and st: "status (R r) = STATUS_GRANTED"
  shows "head_wf R (removed_head h r (R r))"
proof -
  note rm = total_remove1 [OF r, where R = R]
  have "total (held m) R (remove1 r (grantedList h)) =
      ((grantedCounts h)(mode (R r) := grantedCounts h (mode (R r)) - 1)) m" for m
    using rm [of "held m"] granted_held [OF wf r st] wf
    by (cases "m = mode (R r)") (simp_all add: head_wf_def)
  moreover have "total converting R (remove1 r (grantedList h)) = conversionsCount h"
    using rm [of converting] st wf by (simp add: head_wf_def converting_def)
  moreover have "total prefersCompatible R (remove1 r (grantedList h)) =
      compatibleFirstCount h - prefersCompatible (R r)"
    using rm [of prefersCompatible] wf by (simp add: head_wf_def)
  ultimately show ?thesis
    using wf by (auto simp: head_wf_def removed_head_def Let_def fun_eq_iff dest: notin_set_remove1)
qed

lemma head_wf_cancelled:
  assumes wf: "head_wf R h" and r: "r \<in> set (conflictList h)"
  shows "head_wf R (cancelled_head h r (R r))"
proof -
  have "total (waits m) R (remove1 r (conflictList h)) =
      ((conflictCounts h)(mode (R r) := conflictCounts h (mode (R r)) - 1)) m" for m
    using total_remove1 [OF r, where R = R and f = "waits m"] wf by (auto simp: head_wf_def waits_def)
  then show ?thesis
    using wf by (auto simp: head_wf_def cancelled_head_def Let_def fun_eq_iff dest: notin_set_remove1)
qed

lemma converting_held:
  assumes "head_wf R h" and "r \<in> set (grantedList h)" and "status (R r) = STATUS_CONVERTING"
  shows "held m (R r) = (if m = mode (R r) \<or> m = convertMode (R r) then 1 else 0)"
    "mode (R r) \<noteq> MODE_NONE" "convertMode (R r) \<noteq> MODE_NONE" "convertMode (R r) \<noteq> mode (R r)"
    "0 < grantedCounts h (convertMode (R r))"
proof -
  have ok: "granted_ok (R r)" using assms by (simp add: head_wf_def)
  then show ne: "mode (R r) \<noteq> MODE_NONE" "convertMode (R r) \<noteq> MODE_NONE" "convertMode (R r) \<noteq> mode (R r)"
    using assms(3) by (auto simp: granted_ok_def)
  then show h: "held m (R r) = (if m = mode (R r) \<or> m = convertMode (R r) then 1 else 0)" for m
    by (auto simp: held_def)
  show "0 < grantedCounts h (convertMode (R r))"
    using assms(1) total_member_le [of r "grantedList h" "held (convertMode (R r))" R] assms(2)
      h [of "convertMode (R r)"] by (simp add: head_wf_def)
qed

lemma head_wf_reverted:
  assumes wf: "head_wf R h" and r: "r \<in> set (grantedList h)" and st: "status (R r) = STATUS_CONVERTING"
  shows "head_wf (R(r := reverted (R r))) (reverted_head h (R r))"
proof -
  have d: "distinct (grantedList h)" "r \<notin> set (conflictList h)" using wf r by (auto simp: head_wf_def)
  note up = total_upd_in [OF d(1) r, where R = R and v = "reverted (R r)"]
  have hq: "held m (reverted (R r)) = (if m = mode (R r) then 1 else 0)" for m
    using converting_held(2) [OF wf r st] by (auto simp: held_def reverted_def)
  have "total (held m) (R(r := reverted (R r))) (grantedList h) =
      ((grantedCounts h)(convertMode (R r) := grantedCounts h (convertMode (R r)) - 1)) m" for m
    using up [of "held m"] converting_held [OF wf r st] hq wf
    by (cases "m = mode (R r)"; cases "m = convertMode (R r)") (simp_all add: head_wf_def)
  moreover have "total converting (R(r := reverted (R r))) (grantedList h) = conversionsCount h - 1"
    using up [of converting] st wf by (simp add: head_wf_def converting_def reverted_def)
  moreover have "total prefersCompatible (R(r := reverted (R r))) (grantedList h) = compatibleFirstCount h"
    using up [of prefersCompatible] wf by (simp add: head_wf_def prefersCompatible_def reverted_def)
  moreover have "granted_ok (reverted (R r))"
    using converting_held(2) [OF wf r st] by (simp add: granted_ok_def reverted_def)
  ultimately show ?thesis
    using wf d(2) by (auto simp: head_wf_def reverted_head_def Let_def fun_eq_iff)
qed

lemma head_wf_exchanged:
  assumes wf: "head_wf R h" and r: "r \<in> set (grantedList h)" and st: "status (R r) = STATUS_GRANTED"
    and m': "m' \<noteq> MODE_NONE"
    and q: "mode q = m'" "status q = STATUS_GRANTED" "convertMode q = MODE_NONE"
      "compatibleFirst q = compatibleFirst (R r)"
  shows "head_wf (R(r := q)) (exchanged_head h (mode (R r)) m')"
proof -
  have d: "distinct (grantedList h)" "r \<notin> set (conflictList h)" using wf r by (auto simp: head_wf_def)
  note up = total_upd_in [OF d(1) r, where R = R and v = q]
  have hq: "held m q = (if m = m' then 1 else 0)" for m using m' q by (auto simp: held_def)
  have "total (held m) (R(r := q)) (grantedList h) =
      (((grantedCounts h)(m' := grantedCounts h m' + 1))
        (mode (R r) := ((grantedCounts h)(m' := grantedCounts h m' + 1)) (mode (R r)) - 1)) m" for m
    using up [of "held m"] granted_held [OF wf r st] hq wf
    by (cases "m = mode (R r)"; cases "m = m'") (simp_all add: head_wf_def)
  moreover have "total converting (R(r := q)) (grantedList h) = conversionsCount h"
    using up [of converting] st wf q by (simp add: head_wf_def converting_def)
  moreover have "total prefersCompatible (R(r := q)) (grantedList h) = compatibleFirstCount h"
    using up [of prefersCompatible] wf q by (simp add: head_wf_def prefersCompatible_def)
  moreover have "granted_ok q" using m' q by (simp add: granted_ok_def)
  ultimately show ?thesis
    using wf d(2) by (auto simp: head_wf_def exchanged_head_def Let_def fun_eq_iff)
qed

lemma head_wf_converting:
  assumes wf: "head_wf R h" and r: "r \<in> set (grantedList h)" and st: "status (R r) = STATUS_GRANTED"
    and m': "m' \<noteq> MODE_NONE" "m' \<noteq> mode (R r)" "isModeCovered (mode (R r)) m'"
    and q: "mode q = mode (R r)" "status q = STATUS_CONVERTING" "convertMode q = m'"
      "compatibleFirst q = compatibleFirst (R r)"
  shows "head_wf (R(r := q)) (converting_head h m')"
proof -
  have d: "distinct (grantedList h)" "r \<notin> set (conflictList h)" using wf r by (auto simp: head_wf_def)
  note up = total_upd_in [OF d(1) r, where R = R and v = q]
  have hq: "held m q = (if m = m' \<or> m = mode (R r) then 1 else 0)" for m
    using m' q granted_held [OF wf r st] by (auto simp: held_def)
  have "total (held m) (R(r := q)) (grantedList h) =
      ((grantedCounts h)(m' := grantedCounts h m' + 1)) m" for m
    using up [of "held m"] granted_held [OF wf r st] hq wf m'
    by (cases "m = mode (R r)"; cases "m = m'") (simp_all add: head_wf_def)
  moreover have "total converting (R(r := q)) (grantedList h) = conversionsCount h + 1"
    using up [of converting] st wf q by (simp add: head_wf_def converting_def)
  moreover have "total prefersCompatible (R(r := q)) (grantedList h) = compatibleFirstCount h"
    using up [of prefersCompatible] wf q by (simp add: head_wf_def prefersCompatible_def)
  moreover have "granted_ok q" using m' q granted_held [OF wf r st] by (simp add: granted_ok_def)
  ultimately show ?thesis
    using wf d(2) by (auto simp: head_wf_def converting_head_def Let_def fun_eq_iff)
qed

text \<open>Compatibility of the holders.\<close>

lemma head_safe_removed: "head_safe R h \<Longrightarrow> head_safe R (removed_head h r q)"
  by (auto simp: head_safe_def dest: notin_set_remove1)

lemma head_safe_cancelled: "head_safe R h \<Longrightarrow> head_safe R (cancelled_head h r q)"
  by (auto simp: head_safe_def)

lemma head_safe_exchanged:
  assumes "head_safe R h"
    and "\<And>s. s \<in> set (grantedList h) \<Longrightarrow> s \<noteq> r \<Longrightarrow> \<not> incompatible (mode q) (mode (R s))"
    and "grantedList h' = grantedList h"
  shows "head_safe (R(r := q)) h'"
  using assms incompatible_sym by (auto simp: head_safe_def)

lemma waiters_live_removed:
  assumes "waiters_live R h" and "head_wf R h" and "grantedCounts (removed_head h r q) (mode q) \<noteq> 0"
  shows "waiters_live R (removed_head h r q)"
proof -
  have "modesOf ((grantedCounts h)(mode q := grantedCounts h (mode q) - 1)) = grantedModes h"
    using assms(2,3) by (auto simp: head_wf_sync [OF assms(2)] removed_head_def Let_def intro!: bit_word_eqI
        simp: bit_modesOf) (metis diff_le_self le_zero_eq not_gr0)+
  then show ?thesis using assms(1) by (simp add: waiters_live_def removed_head_def Let_def)
qed

subsection \<open>Handing the resource over\<close>

text \<open>The resource goes over to some waiting requests and some conversions, the list \<open>xs\<close>:
  each of them is notified once, in the order of the lists, the waiting ones become holders and
  the conversions are done, and nothing else changes. \<open>R\<close>, \<open>G\<close> and \<open>W\<close> are the requests, the
  holders and the waiting requests of the resource just before.\<close>

definition handed :: "RequestPtr set \<Rightarrow> RequestPtr set \<Rightarrow> store \<Rightarrow> store" where
  "handed W X R = (\<lambda>r. if r \<notin> X then R r
     else if r \<in> W then (R r)\<lparr>status := STATUS_GRANTED\<rparr> else converted (R r))"

definition hand_over ::
  "ResourceId \<Rightarrow> store \<Rightarrow> RequestPtr set \<Rightarrow> RequestPtr set \<Rightarrow> RequestPtr list \<Rightarrow> LockManager \<Rightarrow> LockManager \<Rightarrow> bool"
where
  "hand_over res R G W xs s s' \<longleftrightarrow> lm_inv s' \<and> distinct xs \<and>
     set xs \<subseteq> W \<union> {r\<in>G. status (R r) = STATUS_CONVERTING} \<and>
     notified s' = notified s @ map (\<lambda>r. (notify_obj (R r), res, LOCK_OK)) xs \<and>
     requests s' = handed W (set xs) R \<and>
     granted_on s' = (granted_on s)(res := G \<union> (W \<inter> set xs)) \<and>
     waiting_on s' = (waiting_on s)(res := W - set xs)"

lemma bit_grantedModes:
  assumes "head_wf R h"
  shows "bit (grantedModes h) n \<longleftrightarrow> (\<exists>s\<in>set (grantedList h). \<exists>m. n = modeIndex m \<and> 0 < held m (R s))"
  using assms by (auto simp: head_wf_def bit_modesOf total_pos_iff)

lemma intent_kept:
  assumes wf: "head_wf R h" "head_wf R' h'" and only: "onlyIntentModes (grantedModes h)"
    and sub: "set (grantedList h') \<subseteq> set (grantedList h)"
    and held: "\<And>s m. s \<in> set (grantedList h') \<Longrightarrow> 0 < held m (R' s) \<Longrightarrow> 0 < held m (R s)"
  shows "onlyIntentModes (grantedModes h')"
  using only sub held unfolding onlyIntentModes_iff bit_grantedModes [OF wf(1)] bit_grantedModes [OF wf(2)]
  by blast

lemma unblocked_intent:
  assumes wf: "head_wf R h" "head_wf R' h'" and only: "onlyIntentModes (grantedModes h)"
    and none: "conflictModes h = 0" and u: "unblocked h R h' R'"
  shows "onlyIntentModes (grantedModes h')" and "conflictModes h' = 0"
proof -
  from none have "conflictList h = []" using conflictModes_zero [OF wf(1)] by simp
  with u have lists: "grantedList h' = grantedList h" "conflictList h' = []"
    and R': "\<forall>r. R' r = R r \<or> status (R r) = STATUS_CONVERTING \<and> R' r = converted (R r)"
    by (auto simp: unblocked_def Let_def)
  show "conflictModes h' = 0" using conflictModes_zero [OF wf(2)] lists by simp
  have "0 < held m (R s)" if "0 < held m (R' s)" for s m
    using spec [OF R', of s] that by (auto simp: held_pos)
  then show "onlyIntentModes (grantedModes h')"
    by (intro intent_kept [OF wf only]) (simp_all add: lists)
qed

lemma unblocked_handed:
  assumes u: "unblocked h R h' R'" and wf: "head_wf R h"
    and xs: "xs = filter (\<lambda>r. status (R r) \<noteq> status (R' r)) (grantedList h @ conflictList h)"
  shows "R' = handed (set (conflictList h)) (set xs) R"
    and "set xs \<subseteq> set (conflictList h) \<union> {r \<in> set (grantedList h). status (R r) = STATUS_CONVERTING}"
    and "distinct xs" and "set (grantedList h') = set (grantedList h) \<union> (set (conflictList h) \<inter> set xs)"
    and "set (conflictList h') = set (conflictList h) - set xs"
proof -
  from u obtain p where ys: "grantedList h' = grantedList h @ filter p (conflictList h)"
    "conflictList h' = filter (\<lambda>r. r \<notin> set (filter p (conflictList h))) (conflictList h)"
    and on: "\<And>r. r \<in> set (filter p (conflictList h)) \<Longrightarrow> R' r = (R r)\<lparr>status := STATUS_GRANTED\<rparr>"
    and off: "\<And>r. r \<notin> set (filter p (conflictList h)) \<Longrightarrow> R' r = R r \<or>
        r \<in> set (grantedList h) \<and> status (R r) = STATUS_CONVERTING \<and> R' r = converted (R r)"
    by (auto simp: unblocked_def Let_def)
  have d: "set (grantedList h) \<inter> set (conflictList h) = {}" and dist: "distinct (grantedList h @ conflictList h)"
    and wait: "\<And>r. r \<in> set (conflictList h) \<Longrightarrow> status (R r) = STATUS_WAITING"
    using wf by (auto simp: head_wf_def waiting_ok_def)
  have inW: "r \<in> set xs \<longleftrightarrow> p r" if "r \<in> set (conflictList h)" for r
  proof -
    from that d have "r \<notin> set (grantedList h)" by blast
    then show ?thesis using that on [of r] off [of r] wait [OF that] by (cases "p r") (simp_all add: xs)
  qed
  have inG: "R' r = (if r \<in> set xs then converted (R r) else R r)"
      "r \<in> set xs \<Longrightarrow> status (R r) = STATUS_CONVERTING" if "r \<in> set (grantedList h)" for r
  proof -
    from that d have "r \<notin> set (filter p (conflictList h))" by auto
    from off [OF this] that show "R' r = (if r \<in> set xs then converted (R r) else R r)"
      and "r \<in> set xs \<Longrightarrow> status (R r) = STATUS_CONVERTING" by (auto simp: xs)
  qed
  show "distinct xs" using dist unfolding xs by (rule distinct_filter)
  show "R' = handed (set (conflictList h)) (set xs) R"
  proof
    fix r
    consider "r \<in> set (conflictList h)" "r \<notin> set (grantedList h)" "p r"
      | "r \<in> set (conflictList h)" "r \<notin> set (grantedList h)" "\<not> p r" | "r \<in> set (grantedList h)" "r \<notin> set (conflictList h)"
      | "r \<notin> set (grantedList h)" "r \<notin> set (conflictList h)"
      using d by blast
    then show "R' r = handed (set (conflictList h)) (set xs) R r"
    proof cases
      case 1 then show ?thesis using on [of r] inW [of r] by (simp add: handed_def)
    next
      case 2 then show ?thesis using off [of r] inW [of r] by (simp add: handed_def)
    next
      case 3 then show ?thesis using inG(1) [of r] by (simp add: handed_def)
    next
      case 4
      then have "r \<notin> set xs" by (simp add: xs)
      then show ?thesis using off [of r] 4 by (simp add: handed_def)
    qed
  qed
  show "set xs \<subseteq> set (conflictList h) \<union> {r \<in> set (grantedList h). status (R r) = STATUS_CONVERTING}"
    using inG(2) by (auto simp: xs)
  show "set (grantedList h') = set (grantedList h) \<union> (set (conflictList h) \<inter> set xs)"
    and "set (conflictList h') = set (conflictList h) - set xs"
    using inW by (auto simp: ys)
qed

lemma runModeChanged_run:
  assumes inv: "lm_inv s" and h0: "headOf s res = Some h0" and loc: "local_to res s R"
    and wf: "head_wf R h" and safe: "head_safe R h" and check: "\<not> check \<longrightarrow> waiters_live R h"
    and q: "\<And>r. r \<in> queued h \<Longrightarrow> queued_ok res (R r)" and sub: "queued h \<subseteq> queued h0"
    and h: "resourceId h = res" "partitions h = partitions h0"
    and part: "isPartitioned h \<Longrightarrow> onlyIntentModes (grantedModes h) \<and> conflictModes h = 0"
  shows "\<exists>s' xs. runModeChanged res h check (s\<lparr>requests := R\<rparr>) = Some s' \<and>
    hand_over res R (set (grantedList h) \<union> parted s res) (set (conflictList h)) xs s s'"
proof -
  from onLockModeChanged_run [OF wf safe check] obtain h' R' where
    run: "onLockModeChanged h R check = Some (h', R', grant_events (grantedList h @ conflictList h) h R R')"
    and hinv: "head_inv R' h'" and u: "unblocked h R h' R'" by blast
  define xs where "xs = filter (\<lambda>r. status (R r) \<noteq> status (R' r)) (grantedList h @ conflictList h)"
  note ho = unblocked_handed [OF u wf xs_def]
  have h': "resourceId h' = res" "partitions h' = partitions h" "isPartitioned h' = isPartitioned h"
    and queued: "queued h' = queued h"
    using u h ho(4,5) by (auto simp: unblocked_def isPartitioned_def)
  have wf': "head_wf R' h'" using hinv by (simp add: head_inv_def)
  have q': "queued_ok res (R' r)" if "r \<in> queued h'" for r
    using q [of r] that by (simp add: queued ho(1) handed_def queued_ok_def)
  have ok: "headed_ok R' res h'"
    using hinv q' h'(1) part unblocked_intent [OF wf wf' _ _ u] by (simp add: headed_ok_def h'(3))
  have "R' r = R r" if "r \<notin> queued h" for r using that ho(2) by (auto simp: ho(1) handed_def)
  then have "R' r = R r \<or> r \<in> queued h0" for r using sub by blast
  then have loc': "local_to res s R'" using loc h0 unfolding local_to_def by metis
  define s' where "s' = setHead res (Some h') (s\<lparr>requests := R', notified := notified s @
    grant_events (grantedList h @ conflictList h) h R R'\<rparr>)"
  have "lm_inv (setHead res (Some h') (s\<lparr>requests := R'\<rparr>))"
    by (rule head_update [OF inv loc' ok]) (simp add: h0 h h'(2))
  then have "lm_inv s'" by (simp add: s'_def setHead_def lm_inv_def headOf_def)
  moreover have "granted_on s' = (granted_on s)(res := set (grantedList h) \<union> parted s res \<union> (set (conflictList h) \<inter> set xs))"
    by (simp add: s'_def granted_on_def fun_eq_iff ho(4) Un_ac)
  moreover have "waiting_on s' = (waiting_on s)(res := set (conflictList h) - set xs)"
    by (simp add: s'_def waiting_on_def fun_eq_iff ho(5))
  moreover have "requests s' = R'" "notified s' = notified s @ map (\<lambda>r. (notify_obj (R r), res, LOCK_OK)) xs"
    by (simp_all add: s'_def grant_events_def h(1) xs_def)
  ultimately have "hand_over res R (set (grantedList h) \<union> parted s res) (set (conflictList h)) xs s s'"
    using ho(1-3) unfolding hand_over_def by blast
  moreover have "runModeChanged res h check (s\<lparr>requests := R\<rparr>) = Some s'"
    by (simp add: runModeChanged_def run s'_def)
  ultimately show ?thesis by blast
qed

subsection \<open>Unlock\<close>

text \<open>Only four fields of a request matter to the invariant of a head.\<close>

definition same_fields :: "LockRequest \<Rightarrow> LockRequest \<Rightarrow> bool" where
  "same_fields q q' \<longleftrightarrow> mode q' = mode q \<and> status q' = status q \<and> convertMode q' = convertMode q \<and>
     compatibleFirst q' = compatibleFirst q"

lemma total_fields: "(\<And>q. q \<in> set xs \<Longrightarrow> f (R' q) = f (R q)) \<Longrightarrow> total f R' xs = total f R xs"
  by (induction xs) auto

lemma total_attributes:
  assumes "\<And>r. same_fields (R r) (R' r)"
  shows "total (held m) R' = total (held m) R" "total (waits m) R' = total (waits m) R"
    "total converting R' = total converting R" "total prefersCompatible R' = total prefersCompatible R"
  using assms
  by (auto simp: fun_eq_iff same_fields_def held_def waits_def converting_def prefersCompatible_def
      intro!: total_fields)

lemma head_inv_fields:
  assumes "\<And>r. same_fields (R r) (R' r)"
  shows "head_wf R' h = head_wf R h" "head_safe R' h = head_safe R h" "waiters_live R' h = waiters_live R h"
    "conversions_live R' h = conversions_live R h" "head_inv R' h = head_inv R h"
proof -
  have f: "mode (R' r) = mode (R r)" "status (R' r) = status (R r)" "convertMode (R' r) = convertMode (R r)" for r
    using assms by (simp_all add: same_fields_def)
  show wf: "head_wf R' h = head_wf R h"
    by (simp add: head_wf_def total_attributes [OF assms] granted_ok_def waiting_ok_def f)
  show safe: "head_safe R' h = head_safe R h" by (simp add: head_safe_def f)
  show live: "waiters_live R' h = waiters_live R h" "conversions_live R' h = conversions_live R h"
    by (simp_all add: waiters_live_def conversions_live_def blocked_by_def f)
  show "head_inv R' h = head_inv R h" by (simp add: head_inv_def head_live_def wf safe live)
qed

definition recounted :: "nat \<Rightarrow> RequestPtr \<Rightarrow> store \<Rightarrow> store" where
  "recounted n r R = R(r := (R r)\<lparr>recursiveCount := n\<rparr>)"

lemma recounted_simps [simp]:
  "same_fields (R r') (recounted n r R r')" "r' \<noteq> r \<Longrightarrow> recounted n r R r' = R r'"
  "mode (recounted n r R r') = mode (R r')" "status (recounted n r R r') = status (R r')"
  "convertMode (recounted n r R r') = convertMode (R r')" "lock_ptr (recounted n r R r') = lock_ptr (R r')"
  "partitionedLock (recounted n r R r') = partitionedLock (R r')"
  "partitioned (recounted n r R r') = partitioned (R r')" "recursiveCount (recounted n r R r) = n"
  "compatibleFirst (recounted n r R r') = compatibleFirst (R r')"
  "notify_obj (recounted n r R r') = notify_obj (R r')"
  by (simp_all add: recounted_def same_fields_def)

lemma setRequest_recounted:
  "setRequest r ((requests s r)\<lparr>recursiveCount := n\<rparr>) s = s\<lparr>requests := recounted n r (requests s)\<rparr>"
  by (simp add: setRequest_def recounted_def)

text \<open>Nested calls change the recursive count only.\<close>

lemma recount_inv:
  assumes inv: "lm_inv s" and st: "status (requests s r) = STATUS_GRANTED" and n: "0 < n"
  shows "lm_inv (s\<lparr>requests := recounted n r (requests s)\<rparr>)"
    and "grants (s\<lparr>requests := recounted n r (requests s)\<rparr>) = grants s"
    and "granted_on (s\<lparr>requests := recounted n r (requests s)\<rparr>) = granted_on s"
    and "waiting_on (s\<lparr>requests := recounted n r (requests s)\<rparr>) = waiting_on s"
proof -
  let ?R = "recounted n r (requests s)"
  have q: "queued_ok res (?R r')" if "queued_ok res (requests s r')" for res r'
    using that n st by (cases "r' = r") (simp_all add: queued_ok_def)
  have "headed_ok ?R res h" if "headed_ok (requests s) res h" for res h
    using that q by (simp add: headed_ok_def head_inv_fields [of "requests s" ?R])
  moreover have "parted_ok p res (?R r')" if "parted_ok p res (requests s r')" for p res r'
    using that n by (cases "r' = r") (simp_all add: parted_ok_def)
  ultimately show "lm_inv (s\<lparr>requests := ?R\<rparr>)"
    using inv by (simp add: lm_inv_def partition_ok_def)
  show g: "granted_on (s\<lparr>requests := ?R\<rparr>) = granted_on s" by (simp add: granted_on_def fun_eq_iff)
  show "grants (s\<lparr>requests := ?R\<rparr>) = grants s" by (simp add: grants_def g fun_eq_iff)
  show "waiting_on (s\<lparr>requests := ?R\<rparr>) = waiting_on s" by (simp add: waiting_on_def fun_eq_iff)
qed

lemma unlock_nested:
  assumes "status (requests s r) = STATUS_GRANTED" and "1 < recursiveCount (requests s r)"
  shows "unlock r s = Some (False, s\<lparr>requests := recounted (recursiveCount (requests s r) - 1) r (requests s)\<rparr>)"
  using assms by (simp add: unlock_def setRequest_recounted)

lemma granted_on_cases:
  assumes inv: "lm_inv s" and r: "r \<in> granted_on s res"
  obtains (head) h where "headOf s res = Some h" "r \<in> set (grantedList h)" "queued_ok res (requests s r)"
      "r \<notin> parted s res"
  | (part) p gl where "partitionMaps s p res = Some gl" "r \<in> set gl" "parted_ok p res (requests s r)"
proof (cases "r \<in> parted s res")
  case True
  then obtain p gl where "partitionMaps s p res = Some gl" "r \<in> set gl" by (auto simp: parted_def)
  then show ?thesis using part inv by (auto simp: lm_inv_def partition_ok_def)
next
  case False
  then obtain h where h: "headOf s res = Some h" "r \<in> set (grantedList h)"
    using r by (auto simp: granted_on_def split: option.splits)
  then have "queued_ok res (requests s r)" using lm_inv_head [OF inv h(1)] by (simp add: headed_ok_def)
  with h False show ?thesis using head by blast
qed

lemma granted_on_head: "lm_inv s \<Longrightarrow> r \<in> granted_on s res \<Longrightarrow> \<exists>h. headOf s res = Some h"
  using lm_inv_parted_head [of s r res] by (cases "headOf s res") (auto simp: granted_on_def)

text \<open>The three cases of \<open>unlockHead\<close>, on a well formed head.\<close>

lemma unlockHead_granted:
  assumes "head_wf (requests t) h" and "headOf t res = Some h" and "lock_ptr (requests t r) = Some res"
    and "r \<in> set (grantedList h)" and "status (requests t r) = STATUS_GRANTED"
  shows "unlockHead r t = (let h' = removed_head h r (requests t r)
    in runModeChanged res h' (grantedCounts h' (mode (requests t r)) = 0) t)"
proof -
  have "0 < grantedCounts h (mode (requests t r))" by (rule granted_held(4) [OF assms(1,4,5)])
  then show ?thesis
    using assms by (simp add: unlockHead_def granted.dec_run head_wf_sync [OF assms(1)] Let_def
        removed_head_def prefersCompatible_def)
qed

lemma unlockHead_waiting:
  assumes wf: "head_wf (requests t) h" and "headOf t res = Some h" and "lock_ptr (requests t r) = Some res"
    and r: "r \<in> set (conflictList h)" and "recursiveCount (requests t r) = 0"
  shows "unlockHead r t = runModeChanged res (cancelled_head h r (requests t r)) True t"
proof -
  have "status (requests t r) = STATUS_WAITING" using wf r by (simp add: head_wf_def waiting_ok_def)
  moreover have "0 < conflictCounts h (mode (requests t r))"
    using wf total_member_le [OF r, of "waits (mode (requests t r))" "requests t"]
    by (simp add: head_wf_def waits_def)
  ultimately show ?thesis
    using assms by (simp add: unlockHead_def conflict.dec_run head_wf_sync [OF wf] Let_def cancelled_head_def)
qed

lemma unlockHead_converting:
  assumes wf: "head_wf (requests t) h" and "headOf t res = Some h" and "lock_ptr (requests t r) = Some res"
    and r: "r \<in> set (grantedList h)" and st: "status (requests t r) = STATUS_CONVERTING"
    and "0 < recursiveCount (requests t r)"
  shows "unlockHead r t = runModeChanged res (reverted_head h (requests t r)) True
    (setRequest r (reverted (requests t r)) t)"
proof -
  have "0 < grantedCounts h (convertMode (requests t r))" "convertMode (requests t r) \<noteq> MODE_NONE"
    using converting_held [OF wf r st] by simp_all
  moreover have "grantedCounts h MODE_NONE = 0"
    using wf total_pos_iff [of "held MODE_NONE" "requests t" "grantedList h"]
    by (simp add: head_wf_def held_def)
  ultimately show ?thesis
    using assms by (simp add: unlockHead_def granted.dec_run head_wf_sync [OF wf] Let_def
        reverted_head_def reverted_def)
qed

text \<open>Off the fast paths, \<open>unlock\<close> is \<open>unlockHead\<close> after the recursive count went down.\<close>

lemma unlock_via_head:
  assumes q: "queued_ok res (requests s r)" and new: "status (requests s r) \<noteq> STATUS_NEW"
    and st: "status (requests s r) = STATUS_GRANTED \<Longrightarrow> recursiveCount (requests s r) = 1"
  shows "unlock r s = do {
    t \<leftarrow> unlockHead r (s\<lparr>requests := recounted (recursiveCount (requests s r) - 1) r (requests s)\<rparr>);
    Some (recursiveCount (requests t r) = 0, t)}"
proof -
  have "0 < recursiveCount (requests s r)" "lock_ptr (requests s r) \<noteq> None" "partitionedLock (requests s r) = None"
    and p: "partitioned (requests s r) \<Longrightarrow> status (requests s r) \<noteq> STATUS_WAITING"
    using q by (auto simp: queued_ok_def)
  then show ?thesis
    using st new by (cases "status (requests s r)") (auto simp: unlock_def setRequest_recounted Let_def)
qed

lemma local_to_queued:
  assumes "headOf s res = Some h" and "r \<in> queued h" and "\<And>r'. r' \<noteq> r \<Longrightarrow> R r' = requests s r'"
  shows "local_to res s R"
  using assms unfolding local_to_def by metis

lemma unlock_head_granted:
  assumes inv: "lm_inv s" and h: "headOf s res = Some h" "r \<in> set (grantedList h)"
    and st: "status (requests s r) = STATUS_GRANTED" and n: "recursiveCount (requests s r) = 1"
    and off: "r \<notin> parted s res"
  shows "\<exists>s' xs. unlock r s = Some (True, s') \<and>
    hand_over res (recounted 0 r (requests s)) (granted_on s res - {r}) (waiting_on s res) xs s s'"
proof -
  let ?R = "recounted 0 r (requests s)"
  let ?h = "removed_head h r (requests s r)"
  have ok: "headed_ok (requests s) res h" by (rule lm_inv_head [OF inv h(1)])
  then have wf: "head_wf (requests s) h" and safe: "head_safe (requests s) h"
    and live: "waiters_live (requests s) h" and q: "queued_ok res (requests s r)" and d: "distinct (grantedList h)"
    and nc: "r \<notin> set (conflictList h)"
    using h(2) by (auto simp: headed_ok_def head_inv_def head_live_def head_wf_def)
  note fields = head_inv_fields [of "requests s" ?R, OF recounted_simps(1)]
  have rm: "removed_head h r (?R r) = ?h" by (simp add: removed_head_def prefersCompatible_def)
  have "\<exists>s' xs. runModeChanged res ?h (grantedCounts ?h (mode (requests s r)) = 0) (s\<lparr>requests := ?R\<rparr>) = Some s' \<and>
      hand_over res ?R (set (grantedList ?h) \<union> parted s res) (set (conflictList ?h)) xs s s'"
  proof (rule runModeChanged_run [OF inv h(1)])
    show "local_to res s ?R" by (rule local_to_queued [OF h(1)]) (use h(2) in auto)
    show wf': "head_wf ?R ?h" and "head_safe ?R ?h"
      unfolding fields by (rule head_wf_removed [OF wf h(2) st], rule head_safe_removed [OF safe])
    show "grantedCounts ?h (mode (requests s r)) \<noteq> 0 \<longrightarrow> waiters_live ?R ?h"
      unfolding fields using waiters_live_removed [OF live wf] by simp
    show "queued_ok res (?R r')" if "r' \<in> queued ?h" for r'
    proof -
      have "r' \<noteq> r" "r' \<in> queued h" using that d nc by auto
      then show ?thesis using ok by (simp add: headed_ok_def)
    qed
    show "queued ?h \<subseteq> queued h" using set_remove1_subset by fastforce
    show "onlyIntentModes (grantedModes ?h) \<and> conflictModes ?h = 0" if "isPartitioned ?h"
      using that ok set_remove1_subset [of r "grantedList h"]
      by (auto simp: headed_ok_def isPartitioned_def intro!: intent_kept [OF wf wf'] simp: held_pos)
  qed (use ok in \<open>simp_all add: headed_ok_def\<close>)
  moreover have "set (grantedList ?h) \<union> parted s res = granted_on s res - {r}" "set (conflictList ?h) = waiting_on s res"
    using h(1) off d by (auto simp: granted_on_def waiting_on_def)
  ultimately obtain s' xs where run: "runModeChanged res ?h (grantedCounts ?h (mode (requests s r)) = 0) (s\<lparr>requests := ?R\<rparr>) = Some s'"
    and ho: "hand_over res ?R (granted_on s res - {r}) (waiting_on s res) xs s s'"
    by auto
  have "unlockHead r (s\<lparr>requests := ?R\<rparr>) = Some s'"
    using unlockHead_granted [of "s\<lparr>requests := ?R\<rparr>" h res r] wf h st run q
    by (simp add: fields rm Let_def queued_ok_def)
  moreover have "r \<notin> set xs"
    using ho nc h(1) by (auto simp: hand_over_def waiting_on_def)
  then have "requests s' r = ?R r" using ho by (simp add: hand_over_def handed_def)
  ultimately show ?thesis
    using ho n st by (auto simp: unlock_via_head [OF q _ n])
qed

text \<open>A lock that is still on a partitioned lock head.\<close>

lemma unlock_parted:
  assumes inv: "lm_inv s" and P: "partitionMaps s p res = Some gl" "r \<in> set gl"
    and n: "recursiveCount (requests s r) = 1"
  shows "\<exists>s'. unlock r s = Some (True, s') \<and>
    hand_over res (recounted 0 r (requests s)) (granted_on s res - {r}) (waiting_on s res) [] s s'"
proof -
  let ?R = "recounted 0 r (requests s)"
  define s' where "s' = s\<lparr>requests := ?R, partitionMaps := setPartition p res (Some (remove1 r gl)) (partitionMaps s)\<rparr>"
  have part: "partition_ok (requests s) p' res' gl'" if "partitionMaps s p' res' = Some gl'" for p' res' gl'
    using inv that by (simp add: lm_inv_def)
  have ok: "parted_ok p res (requests s r)" and d: "distinct gl" using part [OF P(1)] P(2) by (simp_all add: partition_ok_def)
  have only: "p' = p \<and> res' = res" if "partitionMaps s p' res' = Some gl'" "r \<in> set gl'" for p' res' gl'
    using part [OF that(1)] that(2) ok by (simp add: partition_ok_def parted_ok_def)
  have off_head: "r \<notin> queued h" if "headOf s res' = Some h" for res' h
    using queuedD [OF inv that] ok by (auto simp: parted_ok_def)
  have s': "requests s' = ?R" "headOf s' = headOf s" "notified s' = notified s" by (simp_all add: s'_def)
  have rm: "partitionMaps s' p' res' = map_option (remove1 r) (partitionMaps s p' res')" for p' res'
  proof (cases "p' = p \<and> res' = res")
    case True
    then show ?thesis using P(1) by (simp add: s'_def)
  next
    case False
    then have same: "partitionMaps s' p' res' = partitionMaps s p' res'" by (auto simp: s'_def)
    have "remove1 r gl' = gl'" if "partitionMaps s p' res' = Some gl'" for gl'
      using only [OF that] False by (auto intro: remove1_idem)
    then show ?thesis unfolding same by (cases "partitionMaps s p' res'") simp_all
  qed
  have "lm_inv s'"
    unfolding lm_inv_def s'
  proof (intro conjI allI impI)
    fix res' h assume h: "headOf s res' = Some h"
    show "headed_ok ?R res' h"
      by (rule headed_ok_cong [OF lm_inv_head [OF inv h]]) (use off_head [OF h] in \<open>auto simp: recounted_def\<close>)
  next
    fix p' res' gl' assume "partitionMaps s' p' res' = Some gl'"
    then obtain gl0 where gl0: "partitionMaps s p' res' = Some gl0" "gl' = remove1 r gl0" by (auto simp: rm)
    have "distinct gl'" and "set gl' = set gl0 - {r}" and "\<forall>r'\<in>set gl0. parted_ok p' res' (requests s r')"
      using part [OF gl0(1)] by (simp_all add: partition_ok_def gl0(2))
    then show "partition_ok ?R p' res' gl'" by (simp add: partition_ok_def recounted_def)
    show "\<exists>h. headOf s res' = Some h \<and> p' \<in> set (partitions h)"
      using gl0(1) inv by (simp add: lm_inv_def)
  qed
  moreover have "parted s' res' = parted s res' - {r}" for res'
  proof -
    have rm1: "set (remove1 r gl') = set gl' - {r}" if "partitionMaps s p' res' = Some gl'" for p' gl'
      using part [OF that] by (simp add: partition_ok_def)
    show ?thesis
    proof (intro set_eqI iffI)
      fix q assume "q \<in> parted s' res'"
      then obtain p' gl' where "partitionMaps s p' res' = Some gl'" "q \<in> set (remove1 r gl')"
        by (auto simp: parted_def rm)
      then show "q \<in> parted s res' - {r}" using rm1 by (auto simp: parted_def)
    next
      fix q assume "q \<in> parted s res' - {r}"
      then obtain p' gl' where "partitionMaps s p' res' = Some gl'" "q \<in> set (remove1 r gl')"
        using rm1 by (auto simp: parted_def)
      then show "q \<in> parted s' res'" by (auto simp: parted_def rm)
    qed
  qed
  then have "parted s' res' = parted s res' - (if res' = res then {r} else {})" for res'
    using only by (auto simp: parted_def)
  then have "granted_on s' = (granted_on s)(res := granted_on s res - {r})" "waiting_on s' = waiting_on s"
    using off_head by (auto simp: granted_on_def waiting_on_def fun_eq_iff s' split: option.splits)
  moreover have "unlock r s = Some (True, s')"
    using ok n P by (simp add: unlock_def setRequest_recounted Let_def parted_ok_def s'_def)
  ultimately show ?thesis
    by (auto simp: hand_over_def handed_def s')
qed

lemma unlock_granted:
  assumes inv: "lm_inv s" and r: "r \<in> granted_on s res"
    and st: "status (requests s r) = STATUS_GRANTED" and n: "recursiveCount (requests s r) = 1"
  shows "\<exists>s' xs. unlock r s = Some (True, s') \<and>
    hand_over res (recounted 0 r (requests s)) (granted_on s res - {r}) (waiting_on s res) xs s s'"
  using inv r
proof (cases rule: granted_on_cases)
  case (head h)
  then show ?thesis using unlock_head_granted [OF inv head(1,2) st n head(4)] by blast
next
  case (part p gl)
  then show ?thesis using unlock_parted [OF inv part(1,2) n] by blast
qed

text \<open>Cancelling a request that waits.\<close>

lemma unlock_waiting:
  assumes inv: "lm_inv s" and r: "r \<in> waiting_on s res"
  shows "\<exists>s' xs. unlock r s = Some (True, s') \<and>
    hand_over res (recounted 0 r (requests s)) (granted_on s res) (waiting_on s res - {r}) xs s s'"
proof -
  let ?R = "recounted 0 r (requests s)"
  obtain h where h: "headOf s res = Some h" "r \<in> set (conflictList h)"
    using r by (auto simp: waiting_on_def split: option.splits)
  let ?h = "cancelled_head h r (requests s r)"
  have ok: "headed_ok (requests s) res h" by (rule lm_inv_head [OF inv h(1)])
  then have wf: "head_wf (requests s) h" and safe: "head_safe (requests s) h"
    and q: "queued_ok res (requests s r)" and d: "distinct (conflictList h)" "r \<notin> set (grantedList h)"
    and st: "status (requests s r) = STATUS_WAITING"
    using h(2) by (auto simp: headed_ok_def head_inv_def head_wf_def waiting_ok_def)
  then have n: "recursiveCount (requests s r) = 1" by (simp add: queued_ok_def)
  note fields = head_inv_fields [of "requests s" ?R, OF recounted_simps(1)]
  have "\<exists>s' xs. runModeChanged res ?h True (s\<lparr>requests := ?R\<rparr>) = Some s' \<and>
      hand_over res ?R (set (grantedList ?h) \<union> parted s res) (set (conflictList ?h)) xs s s'"
  proof (rule runModeChanged_run [OF inv h(1)])
    show "local_to res s ?R" by (rule local_to_queued [OF h(1)]) (use h(2) in auto)
    show "head_wf ?R ?h" and "head_safe ?R ?h"
      unfolding fields by (rule head_wf_cancelled [OF wf h(2)], rule head_safe_cancelled [OF safe])
    show "queued_ok res (?R r')" if "r' \<in> queued ?h" for r'
    proof -
      have "r' \<noteq> r" "r' \<in> queued h" using that d by auto
      then show ?thesis using ok by (simp add: headed_ok_def)
    qed
    show "queued ?h \<subseteq> queued h" using set_remove1_subset by fastforce
    show "onlyIntentModes (grantedModes ?h) \<and> conflictModes ?h = 0" if "isPartitioned ?h"
      using that ok h(2) conflictModes_zero [OF wf] by (auto simp: headed_ok_def isPartitioned_def)
  qed (use ok in \<open>simp_all add: headed_ok_def\<close>)
  moreover have "set (grantedList ?h) \<union> parted s res = granted_on s res" "set (conflictList ?h) = waiting_on s res - {r}"
    using h(1) d by (auto simp: granted_on_def waiting_on_def)
  ultimately obtain s' xs where run: "runModeChanged res ?h True (s\<lparr>requests := ?R\<rparr>) = Some s'"
    and ho: "hand_over res ?R (granted_on s res) (waiting_on s res - {r}) xs s s'"
    by auto
  have "cancelled_head h r (?R r) = ?h" by (simp add: cancelled_head_def)
  then have "unlockHead r (s\<lparr>requests := ?R\<rparr>) = Some s'"
    using unlockHead_waiting [of "s\<lparr>requests := ?R\<rparr>" h res r] wf h run q
    by (simp add: fields queued_ok_def)
  moreover have "r \<notin> set xs" using ho st by (auto simp: hand_over_def)
  then have "requests s' r = ?R r" using ho by (simp add: hand_over_def handed_def)
  ultimately show ?thesis
    using ho n st by (auto simp: unlock_via_head [OF q])
qed

text \<open>Cancelling a conversion: the request keeps the mode it had.\<close>

lemma unlock_converting:
  assumes inv: "lm_inv s" and r: "r \<in> granted_on s res" and st: "status (requests s r) = STATUS_CONVERTING"
  defines "n \<equiv> recursiveCount (requests s r) - 1"
  defines "R \<equiv> (requests s)(r := reverted (recounted n r (requests s) r))"
  shows "\<exists>s' xs. unlock r s = Some (False, s') \<and>
    hand_over res R (granted_on s res) (waiting_on s res) xs s s'"
proof -
  have "r \<notin> parted s res" using lm_inv_parted [OF inv, of r res] st by (auto simp: parted_ok_def)
  then obtain h where h: "headOf s res = Some h" "r \<in> set (grantedList h)"
    using r by (auto simp: granted_on_def split: option.splits)
  have ok: "headed_ok (requests s) res h" by (rule lm_inv_head [OF inv h(1)])
  then have wf: "head_wf (requests s) h" and safe: "head_safe (requests s) h"
    and q: "queued_ok res (requests s r)" and nc: "r \<notin> set (conflictList h)"
    using h(2) by (auto simp: headed_ok_def head_inv_def head_wf_def)
  then have n: "0 < n" using st by (simp add: queued_ok_def n_def)
  let ?R0 = "recounted n r (requests s)"
  have R: "R = ?R0(r := reverted (?R0 r))" by (simp add: R_def recounted_def)
  let ?h = "reverted_head h (requests s r)"
  note fields = head_inv_fields [of "requests s" ?R0, OF recounted_simps(1)]
  have rev: "reverted_head h (?R0 r) = ?h" by (simp add: reverted_head_def)
  have "\<exists>s' xs. runModeChanged res ?h True (s\<lparr>requests := R\<rparr>) = Some s' \<and>
      hand_over res R (set (grantedList ?h) \<union> parted s res) (set (conflictList ?h)) xs s s'"
  proof (rule runModeChanged_run [OF inv h(1)])
    show "local_to res s R" by (rule local_to_queued [OF h(1)]) (use h(2) in \<open>auto simp: R_def\<close>)
    show wf': "head_wf R ?h"
      using head_wf_reverted [of ?R0 h r] wf h(2) st by (simp add: R fields rev)
    show "head_safe R ?h" using safe by (auto simp: head_safe_def R_def reverted_def)
    show "queued_ok res (R r')" if "r' \<in> queued ?h" for r'
      using that ok n q by (auto simp: headed_ok_def R_def reverted_def queued_ok_def)
    show "onlyIntentModes (grantedModes ?h) \<and> conflictModes ?h = 0" if "isPartitioned ?h"
      using that ok by (auto simp: headed_ok_def isPartitioned_def held_pos R_def reverted_def
          intro!: intent_kept [OF wf wf'] split: if_splits)
  qed (use ok in \<open>simp_all add: headed_ok_def\<close>)
  then obtain s' xs where run: "runModeChanged res ?h True (s\<lparr>requests := R\<rparr>) = Some s'"
    and ho: "hand_over res R (granted_on s res) (waiting_on s res) xs s s'"
    using h(1) by (auto simp: granted_on_def waiting_on_def)
  have "unlockHead r (s\<lparr>requests := ?R0\<rparr>) = runModeChanged res ?h True (setRequest r (reverted (?R0 r)) (s\<lparr>requests := ?R0\<rparr>))"
    using unlockHead_converting [of "s\<lparr>requests := ?R0\<rparr>" h res r] wf h q st n
    by (simp add: fields queued_ok_def rev)
  also have "setRequest r (reverted (?R0 r)) (s\<lparr>requests := ?R0\<rparr>) = s\<lparr>requests := R\<rparr>"
    by (simp add: setRequest_def R)
  finally have "unlockHead r (s\<lparr>requests := ?R0\<rparr>) = Some s'" using run by simp
  moreover have "r \<notin> set xs"
    using ho nc h(1) by (auto simp: hand_over_def waiting_on_def R_def reverted_def)
  then have "requests s' r = reverted (?R0 r)" using ho by (simp add: hand_over_def handed_def R)
  then have "recursiveCount (requests s' r) = n" by (simp add: reverted_def)
  ultimately have "unlock r s = Some (False, s')"
    using unlock_via_head [OF q] n st by (simp add: n_def)
  with ho show ?thesis by blast
qed

subsection \<open>Downgrade\<close>

lemma onlyIntentModes_bits:
  "onlyIntentModes w \<longleftrightarrow> (\<forall>n. bit w n \<longrightarrow> (\<exists>m\<in>{MODE_IS, MODE_IX}. n = modeIndex m))"
  unfolding onlyIntentModes_iff by blast

lemma covered_intent: "isModeCovered m' m \<Longrightarrow> m \<in> {MODE_IS, MODE_IX} \<Longrightarrow> m' \<noteq> MODE_NONE \<Longrightarrow> m' \<in> {MODE_IS, MODE_IX}"
  by (cases m') (auto simp: isModeCovered_def)

lemma intent_exchanged:
  assumes wf: "head_wf R h" "head_wf (R(r := q)) h'" and only: "onlyIntentModes (grantedModes h)"
    and lists: "grantedList h' = grantedList h"
    and q: "mode q \<in> {MODE_IS, MODE_IX}" "convertMode q = MODE_NONE"
  shows "onlyIntentModes (grantedModes h')"
proof -
  have "m \<in> {MODE_IS, MODE_IX}" if "s \<in> set (grantedList h)" "0 < held m ((R(r := q)) s)" for s m
  proof (cases "s = r")
    case True
    then show ?thesis using that(2) q by (auto simp: held_pos)
  next
    case False
    then have "bit (grantedModes h) (modeIndex m)" using that bit_grantedModes [OF wf(1)] by auto
    then show ?thesis by (rule onlyIntentModes_mode [OF only])
  qed
  then show ?thesis
    unfolding onlyIntentModes_bits bit_grantedModes [OF wf(2)] lists by blast
qed

lemma downgrade_run:
  assumes inv: "lm_inv s" and r: "r \<in> granted_on s res" and st: "status (requests s r) = STATUS_GRANTED"
    and lock: "lock_ptr (requests s r) \<noteq> None" and m': "m' \<noteq> MODE_NONE" "isModeCovered m' (mode (requests s r))"
  defines "R \<equiv> (requests s)(r := (requests s r)\<lparr>mode := m'\<rparr>)"
  shows "\<exists>s' xs. downgrade r m' s = Some s' \<and> hand_over res R (granted_on s res) (waiting_on s res) xs s s'"
proof -
  have "r \<notin> parted s res" using lm_inv_parted [OF inv, of r res] lock by (auto simp: parted_ok_def)
  then obtain h where h: "headOf s res = Some h" "r \<in> set (grantedList h)"
    using r by (auto simp: granted_on_def split: option.splits)
  let ?h = "exchanged_head h (mode (requests s r)) m'"
  have ok: "headed_ok (requests s) res h" by (rule lm_inv_head [OF inv h(1)])
  then have wf: "head_wf (requests s) h" and safe: "head_safe (requests s) h" and q: "queued_ok res (requests s r)"
    using h(2) by (auto simp: headed_ok_def head_inv_def)
  note gr = granted_held [OF wf h(2) st]
  have wf': "head_wf R ?h" unfolding R_def
    by (rule head_wf_exchanged [OF wf h(2) st m'(1)]) (use gr st in simp_all)
  have "\<exists>s' xs. runModeChanged res ?h True (s\<lparr>requests := R\<rparr>) = Some s' \<and>
      hand_over res R (set (grantedList ?h) \<union> parted s res) (set (conflictList ?h)) xs s s'"
  proof (rule runModeChanged_run [OF inv h(1) _ wf'])
    show "local_to res s R" by (rule local_to_queued [OF h(1)]) (use h(2) in \<open>auto simp: R_def\<close>)
    have "\<not> incompatible m' (mode (requests s x))" if "x \<in> set (grantedList h)" "x \<noteq> r" for x
      using safe that h(2) m'(2) unfolding isModeCovered_iff head_safe_def by metis
    then show "head_safe R ?h" unfolding R_def by (intro head_safe_exchanged [OF safe]) simp_all
    show "queued_ok res (R r')" if "r' \<in> queued ?h" for r'
      using that ok by (auto simp: headed_ok_def R_def queued_ok_def)
    show "onlyIntentModes (grantedModes ?h) \<and> conflictModes ?h = 0" if "isPartitioned ?h"
    proof -
      have p: "isPartitioned h" using that by (simp add: isPartitioned_def)
      have "m' \<in> {MODE_IS, MODE_IX}" by (rule covered_intent [OF m'(2) intent_head [OF ok p h(2)] m'(1)])
      then have "onlyIntentModes (grantedModes ?h)"
        using ok p gr by (intro intent_exchanged [OF wf wf' [unfolded R_def]]) (simp_all add: headed_ok_def)
      then show ?thesis using ok p by (simp add: headed_ok_def)
    qed
  qed (use ok in \<open>simp_all add: headed_ok_def\<close>)
  then obtain s' xs where run: "runModeChanged res ?h True (s\<lparr>requests := R\<rparr>) = Some s'"
    and ho: "hand_over res R (granted_on s res) (waiting_on s res) xs s s'"
    using h(1) by (auto simp: granted_on_def waiting_on_def)
  have "downgrade r m' s = Some s'"
    using q m'(2) st h gr run
    by (simp add: granted.inc_dec_run [OF head_wf_sync(1) [OF wf] gr(4)] downgrade_def Let_def queued_ok_def isModeCovered_def setRequest_def R_def exchanged_head_def)
  with ho show ?thesis by blast
qed

subsection \<open>Convert\<close>

lemma modesWithoutCurrent_blocked:
  assumes wf: "head_wf R h" and r: "r \<in> set (grantedList h)" and st: "status (R r) = STATUS_GRANTED"
  shows "conflicts c (modesWithoutCurrent realModes (R r) (grantedCounts h) 0) \<longleftrightarrow>
    blocked_by R (grantedList h) r c"
proof -
  from wf have d: "distinct (grantedList h)"
    and cnt: "grantedCounts h = (\<lambda>m. total (held m) R (grantedList h))"
    by (simp_all add: head_wf_def)
  have "modesWithoutCurrent is (R r) counts acc =
      foldl (\<lambda>acc i. if held i (R r) < counts i then acc OR modeMask i else acc) acc is"
    for "is" :: "LockMode list" and counts acc
    by (induction "is" arbitrary: acc) (simp_all add: Let_def granted_held(1) [OF wf r st] eq_commute)
  moreover have "held i (R r) < grantedCounts h i \<longleftrightarrow> (\<exists>s\<in>set (grantedList h). s \<noteq> r \<and> 0 < held i (R s))" for i
    unfolding cnt by (rule total_gt_member [OF d r])
  then have "(\<exists>i\<in>set realModes. held i (R r) < grantedCounts h i \<and> incompatible c i) \<longleftrightarrow>
      blocked_by R (grantedList h) r c"
    unfolding blocked_by_def held_pos by (auto dest: incompatible_not_NONE)
  ultimately show ?thesis by (simp add: conflicts_foldl)
qed

text \<open>A stronger request blocks at least what it blocked before.\<close>

definition stronger :: "LockRequest \<Rightarrow> LockRequest \<Rightarrow> bool" where
  "stronger q q' \<longleftrightarrow> (\<forall>c. incompatible c (mode q) \<or> incompatible c (convertMode q) \<longrightarrow>
     incompatible c (mode q') \<or> incompatible c (convertMode q'))"

lemma blocked_by_stronger:
  assumes "blocked_by R xs x c" and "stronger (R r) q"
  shows "blocked_by (R(r := q)) xs x c"
  using assms unfolding blocked_by_def stronger_def by (metis fun_upd_apply)

lemma head_live_stronger:
  assumes live: "head_live R h" and wf: "head_wf R h" "head_wf (R(r := q)) h'"
    and str: "stronger (R r) q" and lists: "grantedList h' = grantedList h" "conflictList h' = conflictList h"
    and r: "r \<in> set (grantedList h)"
    and q: "status q = STATUS_CONVERTING \<Longrightarrow> blocked_by R (grantedList h) r (convertMode q)"
  shows "head_live (R(r := q)) h'"
  unfolding head_live_def
proof
  show "conversions_live (R(r := q)) h'"
    unfolding conversions_live_def lists
  proof (intro ballI impI)
    fix x assume x: "x \<in> set (grantedList h)" and conv: "status ((R(r := q)) x) = STATUS_CONVERTING"
    have "blocked_by R (grantedList h) x (convertMode ((R(r := q)) x))"
      using live q x conv by (cases "x = r") (auto simp: head_live_def conversions_live_def)
    then show "blocked_by (R(r := q)) (grantedList h) x (convertMode ((R(r := q)) x))"
      by (rule blocked_by_stronger [where R = R and r = r and q = q, OF _ str])
  qed
  have "r \<notin> set (conflictList h)" using wf(1) r by (auto simp: head_wf_def)
  moreover have "conflicts c (grantedModes h')" if "conflicts c (grantedModes h)" for c
    using that str unfolding grantedModes_conflict [OF wf(1)] grantedModes_conflict [OF wf(2)] lists stronger_def
    by (metis fun_upd_apply)
  ultimately show "waiters_live (R(r := q)) h'"
    using live unfolding head_live_def waiters_live_def lists by (metis fun_upd_other)
qed

text \<open>The mode \<open>m\<close> is blocked by a holder other than \<open>r\<close>, or by the mode such a holder converts
  to.\<close>

definition obstructed :: "ResourceId \<Rightarrow> RequestPtr \<Rightarrow> LockMode \<Rightarrow> LockManager \<Rightarrow> bool" where
  "obstructed res r m s \<longleftrightarrow> (\<exists>g\<in>granted_on s res. g \<noteq> r \<and>
     (incompatible m (mode (requests s g)) \<or> incompatible m (convertMode (requests s g))))"

text \<open>What \<open>convert\<close> does for a client.\<close>

definition conversion :: "ResourceId \<Rightarrow> RequestPtr \<Rightarrow> LockMode \<Rightarrow> LockManager \<Rightarrow> LockResult \<Rightarrow> LockManager \<Rightarrow> bool" where
  "conversion res r m' s x s' \<longleftrightarrow> lm_inv s' \<and> notified s' = notified s \<and> waiting_on s' = waiting_on s \<and>
     recursiveCount (requests s' r) = recursiveCount (requests s r) + 1 \<and>
     (if obstructed res r m' s
      then x = LOCK_WAITING \<and> status (requests s' r) = STATUS_CONVERTING \<and>
        convertMode (requests s' r) = m' \<and> grants s' = grants s
      else x = LOCK_OK \<and> status (requests s' r) = STATUS_GRANTED \<and>
        grants s' = (grants s)(res := (grants s res)(r \<mapsto> m')))"

text \<open>Both outcomes replace one request of a head without partitions.\<close>

lemma replace_granted:
  assumes inv: "lm_inv t" and h: "headOf t res = Some h" "r \<in> set (grantedList h)" "\<not> isPartitioned h"
    and h': "head_inv ((requests t)(r := q)) h'" "grantedList h' = grantedList h" "conflictList h' = conflictList h"
      "resourceId h' = resourceId h" "partitions h' = partitions h"
    and q: "queued_ok res q"
  defines "t' \<equiv> setHead res (Some h') (t\<lparr>requests := (requests t)(r := q)\<rparr>)"
  shows "lm_inv t'" and "waiting_on t' = waiting_on t"
    and "grants t' = (grants t)(res := (grants t res)(r \<mapsto> mode q))"
proof -
  have ok: "headed_ok (requests t) res h" by (rule lm_inv_head [OF inv h(1)])
  have ok': "headed_ok ((requests t)(r := q)) res h'"
    using ok h' h(3) q by (auto simp: headed_ok_def isPartitioned_def)
  show "lm_inv t'" unfolding t'_def
    by (rule head_update [OF inv _ ok'], rule local_to_queued [OF h(1)]) (use h h' in auto)
  show "waiting_on t' = waiting_on t" using h(1) h'(3) by (simp add: t'_def waiting_on_def fun_eq_iff)
  have g: "granted_on t' = granted_on t" using h(1) h'(2) by (simp add: t'_def granted_on_def fun_eq_iff)
  have "r \<in> granted_on t res" using h by (simp add: granted_on_def)
  moreover have "r \<notin> granted_on t res'" if "res' \<noteq> res" for res'
  proof
    assume "r \<in> granted_on t res'"
    then show False using inv
      by (cases rule: granted_on_cases [rotated])
        (use queuedD [OF inv h(1), of r] h(2) that in \<open>auto simp: queued_ok_def parted_ok_def\<close>)
  qed
  ultimately show "grants t' = (grants t)(res := (grants t res)(r \<mapsto> mode q))"
    by (auto simp: grants_def g fun_eq_iff) (auto simp: t'_def)
qed

lemma convert_covered:
  assumes "status (requests s r) = STATUS_GRANTED" and "0 < recursiveCount (requests s r)"
    and "isModeCovered m' (mode (requests s r))"
  shows "convert res r m' s =
    Some (LOCK_OK, s\<lparr>requests := recounted (recursiveCount (requests s r) + 1) r (requests s)\<rparr>)"
  using assms by (simp add: convert_def setRequest_recounted isModeCovered_def)

lemma convert_head_run:
  assumes hinv: "head_inv R h" and r: "r \<in> set (grantedList h)" and st: "status (R r) = STATUS_GRANTED"
    and m': "m' \<noteq> MODE_NONE" "m' \<noteq> mode (R r)" "isModeCovered (mode (R r)) m'"
  shows "blocked_by R (grantedList h) r m' \<Longrightarrow>
      head_inv (R(r := (R r)\<lparr>status := STATUS_CONVERTING, convertMode := m'\<rparr>)) (converting_head h m')"
    and "\<not> blocked_by R (grantedList h) r m' \<Longrightarrow>
      head_inv (R(r := (R r)\<lparr>mode := m'\<rparr>)) (exchanged_head h (mode (R r)) m')"
proof -
  from hinv have wf: "head_wf R h" and safe: "head_safe R h" and live: "head_live R h" by (simp_all add: head_inv_def)
  note gr = granted_held [OF wf r st]
  show "head_inv (R(r := (R r)\<lparr>status := STATUS_CONVERTING, convertMode := m'\<rparr>)) (converting_head h m')"
    if b: "blocked_by R (grantedList h) r m'"
  proof -
    let ?q = "(R r)\<lparr>status := STATUS_CONVERTING, convertMode := m'\<rparr>"
    have wf': "head_wf (R(r := ?q)) (converting_head h m')"
      by (rule head_wf_converting [OF wf r st m']) simp_all
    moreover have "head_safe (R(r := ?q)) (converting_head h m')" using safe by (auto simp: head_safe_def)
    moreover have "head_live (R(r := ?q)) (converting_head h m')"
      by (rule head_live_stronger [OF live wf wf' _ _ _ r]) (use b gr in \<open>simp_all add: stronger_def\<close>)
    ultimately show ?thesis by (simp add: head_inv_def)
  qed
  show "head_inv (R(r := (R r)\<lparr>mode := m'\<rparr>)) (exchanged_head h (mode (R r)) m')"
    if b: "\<not> blocked_by R (grantedList h) r m'"
  proof -
    let ?q = "(R r)\<lparr>mode := m'\<rparr>"
    have wf': "head_wf (R(r := ?q)) (exchanged_head h (mode (R r)) m')"
      by (rule head_wf_exchanged [OF wf r st m'(1)]) (use st gr in simp_all)
    moreover have "head_safe (R(r := ?q)) (exchanged_head h (mode (R r)) m')"
      by (rule head_safe_exchanged [OF safe]) (use b in \<open>auto simp: blocked_by_def\<close>)
    moreover have "head_live (R(r := ?q)) (exchanged_head h (mode (R r)) m')"
      by (rule head_live_stronger [OF live wf wf' _ _ _ r])
        (use st gr covered_incompatible [OF m'(3)] in \<open>auto simp: stronger_def\<close>)
    ultimately show ?thesis by (simp add: head_inv_def)
  qed
qed

lemma convert_run:
  assumes inv: "lm_inv s" and r: "r \<in> granted_on s res" and st: "status (requests s r) = STATUS_GRANTED"
    and m': "isModeCovered (mode (requests s r)) m'" "\<not> isModeCovered m' (mode (requests s r))"
  shows "\<exists>x s'. convert res r m' s = Some (x, s') \<and> conversion res r m' s x s'"
proof -
  let ?n = "recursiveCount (requests s r)"
  let ?s = "s\<lparr>requests := recounted (?n + 1) r (requests s)\<rparr>"
  have n: "0 < ?n" using granted_on_cases [OF inv r] by (metis queued_ok_def parted_ok_def)
  note up = recount_inv [OF inv st, of "?n + 1"]
  have inv1: "lm_inv ?s" by (rule up(1)) simp
  obtain h where h: "headOf ?s res = Some h"
    using granted_on_head [OF inv r] by auto
  from prepare_run [OF inv1 h] obtain h1 s1 where
    run: "(if isPartitioned h then migratePartitionedLockHeads h ?s else Some (h, ?s)) = Some (h1, s1)"
    and prep: "prepared res ?s h1 s1" by blast
  let ?t = "setHead res (Some h1) s1"
  let ?q = "requests s1 r"
  have inv2: "lm_inv ?t" and np: "\<not> isPartitioned h1" and ns: "notified s1 = notified s"
    and on: "granted_on ?t = granted_on s" "waiting_on ?t = waiting_on s" and part: "parted s1 res = {}"
    using prep up by (simp_all add: prepared_def)
  have g: "grants ?t = grants s" using preparedD(6) [OF prep] up(2) by simp
  have q: "mode ?q = mode (requests s r)" "status ?q = STATUS_GRANTED" "recursiveCount ?q = ?n + 1"
    using preparedD(2,3,5) [OF prep, of r] st by simp_all
  have r1: "r \<in> set (grantedList h1)" using r part by (simp add: granted_on_def flip: on(1))
  have ok: "headed_ok (requests s1) res h1" using lm_inv_head [OF inv2, of res h1] by simp
  then have wf: "head_wf (requests s1) h1" and hinv: "head_inv (requests s1) h1" and qok: "queued_ok res ?q"
    using r1 by (auto simp: headed_ok_def head_inv_def)
  have m2: "m' \<noteq> MODE_NONE" "m' \<noteq> mode ?q" "isModeCovered (mode ?q) m'"
    using m' q(1) by (auto simp: isModeCovered_def)
  note head = convert_head_run [OF hinv r1 q(2) m2]
  have held: "set (grantedList h1) = granted_on s res" using part by (simp add: granted_on_def flip: on(1))
  have blocked: "blocked_by (requests s1) (grantedList h1) r m' \<longleftrightarrow> obstructed res r m' s"
    using preparedD(2,4) [OF prep] by (simp add: blocked_by_def obstructed_def held)
  have up_ok: "LockConflictsTable (mode (requests s r)) OR LockConflictsTable m' = LockConflictsTable m'"
    using m'(1) by (simp add: isModeCovered_def or.commute)
  have enter: "convert res r m' s =
      (if conflicts m' (modesWithoutCurrent realModes ?q (grantedCounts h1) 0) then do {
         invariant (recursiveCount ?q > 1);
         h \<leftarrow> incGrantedModeCount m' (h1\<lparr>conversionsCount := conversionsCount h1 + 1\<rparr>);
         Some (LOCK_WAITING, setHead res (Some h)
           (setRequest r (?q\<lparr>status := STATUS_CONVERTING, convertMode := m'\<rparr>) s1))
       } else do {
         h \<leftarrow> incGrantedModeCount m' h1;
         h \<leftarrow> decGrantedModeCount (mode ?q) h;
         Some (LOCK_OK, setHead res (Some h) (setRequest r (?q\<lparr>mode := m'\<rparr>) s1))
       })"
    using st n m'(2) h run up_ok
    by (cases "isPartitioned h") (auto simp: convert_def setRequest_recounted Let_def isModeCovered_def)
  show ?thesis
  proof (cases "blocked_by (requests s1) (grantedList h1) r m'")
    case True
    let ?q' = "?q\<lparr>status := STATUS_CONVERTING, convertMode := m'\<rparr>"
    let ?s' = "setHead res (Some (converting_head h1 m')) (?t\<lparr>requests := (requests ?t)(r := ?q')\<rparr>)"
    note rep = replace_granted [OF inv2 _ r1 np, of res ?q' "converting_head h1 m'"]
    have "conversion res r m' s LOCK_WAITING ?s'"
      using rep head(1) [OF True] qok q n r True
      by (simp add: conversion_def queued_ok_def g on ns blocked) (auto simp: fun_eq_iff grants_def)
    moreover have "convert res r m' s = Some (LOCK_WAITING, ?s')"
      unfolding enter using True q n
      by (simp add: modesWithoutCurrent_blocked [OF wf r1 q(2)] granted.inc_run head_wf_sync [OF wf]
          converting_head_def Let_def) (simp add: setHead_def setRequest_def)
    ultimately show ?thesis by blast
  next
    case False
    let ?q' = "?q\<lparr>mode := m'\<rparr>"
    let ?s' = "setHead res (Some (exchanged_head h1 (mode ?q) m')) (?t\<lparr>requests := (requests ?t)(r := ?q')\<rparr>)"
    note rep = replace_granted [OF inv2 _ r1 np, of res ?q' "exchanged_head h1 (mode ?q) m'"]
    have "conversion res r m' s LOCK_OK ?s'"
      using rep head(2) [OF False] qok q False by (simp add: conversion_def queued_ok_def g on ns blocked)
    moreover have "convert res r m' s = Some (LOCK_OK, ?s')"
      unfolding enter using False
      by (simp add: modesWithoutCurrent_blocked [OF wf r1 q(2)] exchanged_head_def Let_def
          granted.inc_dec_run [OF head_wf_sync(1) [OF wf] granted_held(4) [OF wf r1 q(2)]])
        (simp add: setHead_def setRequest_def)
    ultimately show ?thesis by blast
  qed
qed

subsection \<open>Cleaning up\<close>

text \<open>A client cannot see the cleanup: exactly the heads that nobody holds go.\<close>

definition cleaned :: "ResourceId set \<Rightarrow> LockManager \<Rightarrow> LockManager \<Rightarrow> bool" where
  "cleaned X s s' \<longleftrightarrow> lm_inv s' \<and> grants s' = grants s \<and> granted_on s' = granted_on s \<and>
     waiting_on s' = waiting_on s \<and> notified s' = notified s \<and>
     (\<forall>res. headOf s' res = None \<longleftrightarrow> headOf s res = None \<or> res \<in> X \<and> granted_on s res = {})"

lemma cleaned_trans: "cleaned X s s1 \<Longrightarrow> cleaned Y s1 s2 \<Longrightarrow> cleaned (X \<union> Y) s s2"
  by (auto simp: cleaned_def)

lemma empty_head:
  assumes inv: "lm_inv t" and h: "headOf t res = Some h" "\<not> isPartitioned h" "grantedModes h = 0"
  shows "grantedList h = []" "conflictModes h = 0" "conflictList h = []" "conversionsCount h = 0"
    "compatibleFirstCount h = 0"
    and "lm_inv (setHead res None t)" "granted_on (setHead res None t) = granted_on t"
    "waiting_on (setHead res None t) = waiting_on t" "grants (setHead res None t) = grants t"
proof -
  from lm_inv_head [OF inv h(1)] have wf: "head_wf (requests t) h" and live: "waiters_live (requests t) h"
    by (simp_all add: headed_ok_def head_inv_def head_live_def)
  show gl: "grantedList h = []" using grantedModes_zero [OF wf] h(3) by simp
  then show "conversionsCount h = 0" "compatibleFirstCount h = 0" using wf by (simp_all add: head_wf_def)
  show cl: "conflictList h = []" using live h(3) by (auto simp: waiters_live_def)
  then show "conflictModes h = 0" using conflictModes_zero [OF wf] by simp
  have none: "partitionMaps t p res = None" for p
    using inv h(1,2) by (cases "partitionMaps t p res") (fastforce simp: lm_inv_def isPartitioned_def)+
  then have part: "parted t res = {}" by (simp add: parted_def)
  show g: "granted_on (setHead res None t) = granted_on t" and "waiting_on (setHead res None t) = waiting_on t"
    using h(1) gl cl part by (simp_all add: granted_on_def waiting_on_def fun_eq_iff)
  show "grants (setHead res None t) = grants t" by (simp add: grants_def g fun_eq_iff)
  have "res' \<noteq> res" if "partitionMaps t p res' = Some gl" for p res' gl using that none by auto
  then show "lm_inv (setHead res None t)" using inv by (fastforce simp: lm_inv_def)
qed

lemma cleanup_step:
  assumes inv: "lm_inv s" and h: "headOf s res = Some h"
  shows "\<exists>s'. (\<forall>rest. cleanupBucket (res # rest) s = cleanupBucket rest s') \<and> cleaned {res} s s' \<and>
    (\<forall>res'. res' \<noteq> res \<longrightarrow> headOf s' res' = headOf s res')"
proof -
  from prepare_run [OF inv h] obtain h1 s1 where
    run: "(if isPartitioned h then migratePartitionedLockHeads h s else Some (h, s)) = Some (h1, s1)"
    and prep: "prepared res s h1 s1" by blast
  let ?t = "setHead res (Some h1) s1"
  have inv1: "lm_inv ?t" and np: "\<not> isPartitioned h1" and heads: "headOf s1 = headOf s" and part: "parted s1 res = {}"
    and t: "granted_on ?t = granted_on s" "waiting_on ?t = waiting_on s" "grants ?t = grants s" "notified ?t = notified s"
    using prep preparedD(6) [OF prep] by (simp_all add: prepared_def)
  have wf: "head_wf (requests ?t) h1" using lm_inv_head [OF inv1, of res h1] by (simp add: headed_ok_def head_inv_def)
  have held: "granted_on s res = set (grantedList h1)" using part by (simp add: granted_on_def flip: t(1))
  have step: "cleanupBucket (res # rest) s = (if grantedModes h1 = 0 then do {
       invariant (grantedList h1 = []); invariant (conflictModes h1 = 0); invariant (conflictList h1 = []);
       invariant (conversionsCount h1 = 0); invariant (compatibleFirstCount h1 = 0);
       cleanupBucket rest (setHead res None s1)
     } else cleanupBucket rest ?t)" for rest
    using h run by (cases "isPartitioned h") auto
  show ?thesis
  proof (cases "grantedModes h1 = 0")
    case True
    note e = empty_head [OF inv1 _ np True, of res]
    have "cleanupBucket (res # rest) s = cleanupBucket rest (setHead res None s1)" for rest
      unfolding step using True e(1-5) by simp
    moreover have "cleaned {res} s (setHead res None s1)"
      using e t held by (auto simp: cleaned_def heads h)
    ultimately show ?thesis by (intro exI [of _ "setHead res None s1"]) (auto simp: heads)
  next
    case False
    then have "cleaned {res} s ?t" using inv1 t held grantedModes_zero [OF wf] by (auto simp: cleaned_def heads h)
    moreover have "cleanupBucket (res # rest) s = cleanupBucket rest ?t" for rest unfolding step using False by simp
    ultimately show ?thesis by (intro exI [of _ ?t]) (simp add: heads)
  qed
qed

lemma cleanupBucket_run:
  assumes "lm_inv s" and "distinct xs" and "\<And>res. res \<in> set xs \<Longrightarrow> headOf s res \<noteq> None"
  shows "\<exists>s'. cleanupBucket xs s = Some s' \<and> cleaned (set xs) s s' \<and>
    (\<forall>res. res \<notin> set xs \<longrightarrow> headOf s' res = headOf s res)"
  using assms
proof (induction xs arbitrary: s)
  case Nil
  then show ?case by (auto simp: cleaned_def)
next
  case (Cons res xs)
  then obtain h where h: "headOf s res = Some h" by fastforce
  from cleanup_step [OF Cons.prems(1) h] obtain s1 where
    eq: "cleanupBucket (res # xs) s = cleanupBucket xs s1" and c: "cleaned {res} s s1"
    and heads: "\<And>res'. res' \<noteq> res \<Longrightarrow> headOf s1 res' = headOf s res'" by blast
  have "\<exists>s'. cleanupBucket xs s1 = Some s' \<and> cleaned (set xs) s1 s' \<and>
      (\<forall>res. res \<notin> set xs \<longrightarrow> headOf s' res = headOf s1 res)"
    by (rule Cons.IH) (use c Cons.prems heads in \<open>auto simp: cleaned_def\<close>)
  then obtain s' where s': "cleanupBucket xs s1 = Some s'" "cleaned (set xs) s1 s'"
    "\<forall>res. res \<notin> set xs \<longrightarrow> headOf s' res = headOf s1 res" by blast
  then show ?case using eq heads cleaned_trans [OF c s'(2)] by auto
qed

lemma cleanupBuckets_run:
  assumes "lm_inv s" and "distinct is" and "\<And>i. i \<in> set is \<Longrightarrow> distinct (order i) \<and>
      set (order i) = {res. getBucket res = i \<and> headOf s res \<noteq> None}"
  shows "\<exists>s'. cleanupBuckets is order s = Some s' \<and> cleaned (\<Union>i\<in>set is. set (order i)) s s'"
  using assms
proof (induction "is" arbitrary: s)
  case Nil
  then show ?case by (auto simp: cleaned_def)
next
  case (Cons i "is")
  have "\<exists>s1. cleanupBucket (order i) s = Some s1 \<and> cleaned (set (order i)) s s1 \<and>
      (\<forall>res. res \<notin> set (order i) \<longrightarrow> headOf s1 res = headOf s res)"
    by (rule cleanupBucket_run) (use Cons.prems in auto)
  then obtain s1 where s1: "cleanupBucket (order i) s = Some s1" "cleaned (set (order i)) s s1"
    and heads: "\<And>res. res \<notin> set (order i) \<Longrightarrow> headOf s1 res = headOf s res" by blast
  have "\<exists>s'. cleanupBuckets is order s1 = Some s' \<and> cleaned (\<Union>i\<in>set is. set (order i)) s1 s'"
  proof (rule Cons.IH)
    fix j assume j: "j \<in> set is"
    have "headOf s1 res = headOf s res" if "getBucket res = j" for res
      using heads [of res] Cons.prems(2,3) j that by auto
    then show "distinct (order j) \<and> set (order j) = {res. getBucket res = j \<and> headOf s1 res \<noteq> None}"
      using Cons.prems(3) [of j] j by auto
  qed (use s1(2) Cons.prems(2) in \<open>auto simp: cleaned_def\<close>)
  then obtain s' where "cleanupBuckets is order s1 = Some s'" "cleaned (\<Union>i\<in>set is. set (order i)) s1 s'" by blast
  then show ?case using s1(1) cleaned_trans [OF s1(2)] by auto
qed

lemma getBucket_less: "getBucket res < numLockBuckets"
  by (simp add: getBucket_def numLockBuckets_def)

lemma cleanup_run:
  assumes inv: "lm_inv s" and order: "\<And>i. i < numLockBuckets \<Longrightarrow> distinct (order i) \<and>
      set (order i) = {res. getBucket res = i \<and> headOf s res \<noteq> None}"
  shows "\<exists>s'. cleanupUnusedLocks order s = Some s' \<and> cleaned UNIV s s'"
proof -
  have "\<exists>s'. cleanupUnusedLocks order s = Some s' \<and> cleaned (\<Union>i\<in>set [0..<numLockBuckets]. set (order i)) s s'"
    unfolding cleanupUnusedLocks_def by (rule cleanupBuckets_run [OF inv]) (use order in auto)
  moreover have "cleaned UNIV s s'" if "cleaned (\<Union>i\<in>set [0..<numLockBuckets]. set (order i)) s s'" for s'
    using that order getBucket_less unfolding cleaned_def by fastforce
  ultimately show ?thesis by blast
qed

end
