(* ===== verification/LockSystem.thy ===== *)
theory LockSystem
  imports LockRelease
begin

unbundle bit_operations_syntax

text \<open>
  The lock manager as a system: when \<open>lock\<close> grants at once, the step relation of the calls that
  concurrent clients make, with the fast and the slow path of \<open>lock\<close> as separate steps, and the
  properties of every reachable state. Source:
  \<^verbatim>\<open>src/src/mongo/db/concurrency/lock_manager.cpp\<close>.
\<close>

subsection \<open>When a lock is granted at once\<close>

text \<open>The policy of \<open>LockHead::newRequest\<close>, for a client: no holder has or waits to convert to an
  incompatible mode, and no waiting request is incompatible, unless a holder asked for the
  compatible-first policy.\<close>

definition admissible :: "LockMode \<Rightarrow> ResourceId \<Rightarrow> LockManager \<Rightarrow> bool" where
  "admissible m res s \<longleftrightarrow>
     (\<forall>r\<in>granted_on s res. \<not> incompatible m (mode (requests s r)) \<and> \<not> incompatible m (convertMode (requests s r))) \<and>
     ((\<exists>r\<in>granted_on s res. compatibleFirst (requests s r)) \<or>
      (\<forall>r\<in>waiting_on s res. \<not> incompatible m (mode (requests s r))))"

lemma compatibleFirstCount_zero:
  "head_wf R h \<Longrightarrow> compatibleFirstCount h = 0 \<longleftrightarrow> (\<forall>r\<in>set (grantedList h). \<not> compatibleFirst (R r))"
  using total_pos_iff [of prefersCompatible R "grantedList h"]
  by (auto simp: head_wf_def prefersCompatible_def)

text \<open>On a head without partitions the policy is what \<open>newRequest\<close> tests.\<close>

lemma admissible_head:
  assumes inv: "lm_inv t" and h: "headOf t res = Some h" "parted t res = {}"
  shows "admissible m res t \<longleftrightarrow>
    \<not> (conflicts m (grantedModes h) \<or> compatibleFirstCount h = 0 \<and> conflicts m (conflictModes h))"
proof -
  from lm_inv_head [OF inv h(1)] have wf: "head_wf (requests t) h" by (simp add: headed_ok_def head_inv_def)
  show ?thesis
    unfolding grantedModes_conflict [OF wf] conflictModes_conflict [OF wf] compatibleFirstCount_zero [OF wf]
    using h by (auto simp: admissible_def granted_on_def waiting_on_def)
qed

lemma admissible_prepared:
  assumes "prepared res s h' s'"
  shows "admissible m res (setHead res (Some h') s') = admissible m res s"
proof -
  have q: "\<exists>l p. requests s' r = (requests s r)\<lparr>lock_ptr := l, partitionedLock := p\<rparr>" for r
    using assms by (simp add: prepared_def)
  have "compatibleFirst (requests s' r) = compatibleFirst (requests s r)" for r using q [of r] by auto
  moreover have "mode (requests s' r) = mode (requests s r)" "convertMode (requests s' r) = convertMode (requests s r)" for r
    using preparedD [OF assms] by blast+
  ultimately show ?thesis using assms by (simp add: admissible_def prepared_def)
qed

text \<open>While a resource has partitions, every intent mode is admissible.\<close>

lemma admissible_intent:
  assumes inv: "lm_inv s" and m: "m \<in> {MODE_IS, MODE_IX}"
    and h: "\<And>h. headOf s res = Some h \<Longrightarrow> onlyIntentModes (grantedModes h) \<and> conflictModes h = 0"
  shows "admissible m res s"
proof -
  have "\<not> incompatible m (mode (requests s r)) \<and> \<not> incompatible m (convertMode (requests s r))"
    if r: "r \<in> granted_on s res" for r
    using inv r
  proof (cases rule: granted_on_cases)
    case (head h')
    then have wf: "head_wf (requests s) h'"
      using lm_inv_head [OF inv head(1)] by (simp add: headed_ok_def head_inv_def)
    have "\<not> conflicts m (grantedModes h')" using onlyIntent_no_conflict h [OF head(1)] m by blast
    then show ?thesis using head(2) unfolding grantedModes_conflict [OF wf] by blast
  next
    case (part p gl)
    then show ?thesis using m incompatible_intent by (auto simp: parted_ok_def)
  qed
  moreover have "waiting_on s res = {}"
  proof (cases "headOf s res")
    case (Some h')
    then have "head_wf (requests s) h'" using lm_inv_head [OF inv] by (simp add: headed_ok_def head_inv_def)
    then show ?thesis using h [OF Some] Some conflictModes_zero by (simp add: waiting_on_def)
  qed (simp add: waiting_on_def)
  ultimately show ?thesis by (simp add: admissible_def)
qed

lemma lockSlowPath_admissible:
  assumes inv: "lm_inv s" and off: "\<not> on_manager s r"
    and intent: "partitioned (requests s r) \<Longrightarrow> m \<in> {MODE_IS, MODE_IX}"
    and run: "lockSlowPath res r m s = Some (x, s')"
  shows "x = LOCK_OK \<longleftrightarrow> admissible m res s"
proof -
  define h where "h = findOrInsertHead res s"
  show ?thesis
  proof (cases "partitioned (requests s r) \<and> onlyIntentModes (grantedModes h) \<and> conflictModes h = 0")
    case True
    then have "x = LOCK_OK" using run by (simp add: lockSlowPath_def Let_def flip: h_def)
    moreover have "admissible m res s"
      by (rule admissible_intent [OF inv]) (use True intent in \<open>auto simp: h_def findOrInsertHead_def\<close>)
    ultimately show ?thesis by simp
  next
    case False
    from prepare_new_run [OF inv h_def] obtain h1 s1 where
      prep_run: "(if isPartitioned h then migratePartitionedLockHeads h s else Some (h, s)) = Some (h1, s1)"
      and prep: "prepared res s h1 s1" by blast
    let ?t = "setHead res (Some h1) s1"
    let ?R = "(requests s1)(r := (requests s1 r)\<lparr>partitioned := False\<rparr>)"
    have inv1: "lm_inv ?t" and off1: "\<not> on_manager ?t r" and part: "parted ?t res = {}"
      using prep off preparedD(1) [OF prep] by (simp_all add: prepared_def)
    have "headed_ok ?R res h1"
      using lm_inv_head [OF off_manager_update(1) [OF inv1 off1], of _ res h1] by simp
    then have wf: "head_wf ?R h1" by (simp add: headed_ok_def head_inv_def)
    obtain h' R' where new: "newRequest r m h1 ?R = Some (x, h', R')"
      using run False prep_run
      by (auto simp: lockSlowPath_def Let_def setRequest_def run_simps simp flip: h_def split: if_splits)
    then have "x = LOCK_OK \<longleftrightarrow>
        \<not> (conflicts m (grantedModes h1) \<or> compatibleFirstCount h1 = 0 \<and> conflicts m (conflictModes h1))"
      by (auto simp: newRequest_run [OF wf] Let_def split: if_splits)
    also have "\<dots> \<longleftrightarrow> admissible m res ?t" using admissible_head [OF inv1 _ part, of h1] by simp
    finally show ?thesis using admissible_prepared [OF prep] by simp
  qed
qed

lemma lock_admissible:
  assumes inv: "lm_inv s" and run: "lock res r m s = Some (x, s')"
  shows "x = LOCK_OK \<longleftrightarrow> admissible m res s"
proof -
  let ?q = "(requests s r)\<lparr>partitioned := (m = MODE_IX \<or> m = MODE_IS)\<rparr>"
  let ?s = "setRequest r ?q s"
  have new: "status (requests s r) = STATUS_NEW" using run by (simp add: lock_def run_simps)
  have off: "\<not> on_manager s r" by (rule new_not_on_manager [OF inv new])
  note upd = off_manager_update [OF inv off, of ?q]
  have "admissible m res ?s = admissible m res s"
  proof -
    have "granted_on ?s = granted_on s" by (simp add: granted_on_def fun_eq_iff)
    moreover have "requests ?s r' = requests s r'" if "r' \<in> granted_on s res \<union> waiting_on s res" for r'
      using that off by (auto simp: on_manager_def)
    ultimately show ?thesis by (simp add: admissible_def upd(3))
  qed
  moreover have "x = LOCK_OK \<longleftrightarrow> admissible m res ?s"
  proof (cases "fst (lockFastPath res r m ?s)")
    case True
    then obtain gl where intent: "m = MODE_IX \<or> m = MODE_IS" and gl: "partitionMaps ?s (getPartition ?q) res = Some gl"
      by (auto simp: lockFastPath_def Let_def split: if_splits option.splits)
    then obtain h where h: "headOf ?s res = Some h" "isPartitioned h"
      using upd(1) unfolding lm_inv_def isPartitioned_def by (metis empty_iff list.set(1))
    then have "admissible m res ?s"
      using intent lm_inv_head [OF upd(1)] by (intro admissible_intent [OF upd(1)]) (auto simp: headed_ok_def)
    then show ?thesis using run True by (auto simp: lock_def run_simps split: prod.splits)
  next
    case False
    then have "lockFastPath res r m ?s = (False, ?s)"
      by (auto simp: lockFastPath_def Let_def split: if_splits option.splits)
    then have "lockSlowPath res r m ?s = Some (x, s')" using run new by (simp add: lock_def)
    then show ?thesis using off upd(4) by (intro lockSlowPath_admissible [OF upd(1)]) (auto split: if_splits)
  qed
  ultimately show ?thesis by simp
qed

subsection \<open>The calls of the clients\<close>

text \<open>The fast path of \<open>lock\<close>, with the assignment to \<open>partitioned\<close> in front of it.\<close>

definition lockEnter :: "ResourceId \<Rightarrow> RequestPtr \<Rightarrow> LockMode \<Rightarrow> LockManager \<Rightarrow> bool \<times> LockManager" where
  "lockEnter resId r m s = lockFastPath resId r m
     (setRequest r ((requests s r)\<lparr>partitioned := (m = MODE_IX \<or> m = MODE_IS)\<rparr>) s)"

definition initialised :: "LockManager \<Rightarrow> RequestPtr \<Rightarrow> bool" where
  "initialised s r \<longleftrightarrow> status (requests s r) = STATUS_NEW \<and> convertMode (requests s r) = MODE_NONE"

text \<open>The heads of the buckets, in any order: what the iterators of \<open>cleanupUnusedLocks\<close> yield.\<close>

definition enumerates :: "(nat \<Rightarrow> ResourceId list) \<Rightarrow> LockManager \<Rightarrow> bool" where
  "enumerates order s \<longleftrightarrow> (\<forall>i<numLockBuckets. distinct (order i) \<and>
     set (order i) = {res. getBucket res = i \<and> headOf s res \<noteq> None})"

text \<open>A client initialises a request that is on no list, sets its two policy flags, and then
  calls the lock manager with it. A request is unlocked while it is on a list, converted and
  downgraded while it is granted, to a comparable mode. The two sections of \<open>lock\<close> are two
  steps, so that every other call may happen in between.\<close>

inductive step :: "LockManager \<Rightarrow> LockManager \<Rightarrow> bool" where
  initNew: "\<not> on_manager s r \<Longrightarrow> step s (setRequest r (initNewRequest l n (requests s r)) s)"
| policy: "\<not> on_manager s r \<Longrightarrow>
    step s (setRequest r ((requests s r)\<lparr>enqueueAtFront := a, compatibleFirst := b\<rparr>) s)"
| fast: "initialised s r \<Longrightarrow> m \<noteq> MODE_NONE \<Longrightarrow> step s (snd (lockEnter res r m s))"
| slow: "initialised s r \<Longrightarrow> m \<noteq> MODE_NONE \<Longrightarrow> (partitioned (requests s r) \<Longrightarrow> m \<in> {MODE_IS, MODE_IX}) \<Longrightarrow>
    lockSlowPath res r m s = Some (x, s') \<Longrightarrow> step s s'"
| conversion: "r \<in> granted_on s res \<Longrightarrow> status (requests s r) = STATUS_GRANTED \<Longrightarrow>
    isModeCovered m (mode (requests s r)) \<or> isModeCovered (mode (requests s r)) m \<Longrightarrow>
    convert res r m s = Some (x, s') \<Longrightarrow> step s s'"
| release: "on_manager s r \<Longrightarrow> unlock r s = Some (b, s') \<Longrightarrow> step s s'"
| weaken: "r \<in> granted_on s res \<Longrightarrow> status (requests s r) = STATUS_GRANTED \<Longrightarrow>
    lock_ptr (requests s r) \<noteq> None \<Longrightarrow> m \<noteq> MODE_NONE \<Longrightarrow> isModeCovered m (mode (requests s r)) \<Longrightarrow>
    downgrade r m s = Some s' \<Longrightarrow> step s s'"
| cleanup: "enumerates order s \<Longrightarrow> cleanupUnusedLocks order s = Some s' \<Longrightarrow> step s s'"

inductive reachable :: "LockManager \<Rightarrow> bool" where
  start: "reachable (initLockManager R)"
| advance: "reachable s \<Longrightarrow> step s s' \<Longrightarrow> reachable s'"

text \<open>The status of a request tells where it is.\<close>

lemma granted_status:
  assumes "lm_inv s" and "r \<in> granted_on s res"
  shows "status (requests s r) \<in> {STATUS_GRANTED, STATUS_CONVERTING}" and "0 < recursiveCount (requests s r)"
    and "status (requests s r) = STATUS_CONVERTING \<Longrightarrow> 1 < recursiveCount (requests s r)"
proof -
  have "status (requests s r) \<in> {STATUS_GRANTED, STATUS_CONVERTING} \<and> 0 < recursiveCount (requests s r) \<and>
      (status (requests s r) = STATUS_CONVERTING \<longrightarrow> 1 < recursiveCount (requests s r))"
    using assms
  proof (cases rule: granted_on_cases)
    case (head h)
    then show ?thesis using lm_inv_head [OF assms(1) head(1)]
      by (auto simp: headed_ok_def head_inv_def head_wf_def granted_ok_def queued_ok_def)
  next
    case (part p gl)
    then show ?thesis by (simp add: parted_ok_def)
  qed
  then show "status (requests s r) \<in> {STATUS_GRANTED, STATUS_CONVERTING}" and "0 < recursiveCount (requests s r)"
    and "status (requests s r) = STATUS_CONVERTING \<Longrightarrow> 1 < recursiveCount (requests s r)" by blast+
qed

lemma hand_over_inv: "hand_over res R G W xs s s' \<Longrightarrow> lm_inv s'"
  by (simp add: hand_over_def)

text \<open>\<open>unlock\<close> of a request on a list never aborts and keeps the invariant.\<close>

lemma unlock_total:
  assumes inv: "lm_inv s" and on: "on_manager s r"
  shows "\<exists>b s'. unlock r s = Some (b, s') \<and> lm_inv s'"
proof -
  from on obtain res where "r \<in> granted_on s res \<or> r \<in> waiting_on s res" by (auto simp: on_manager_def)
  then show ?thesis
  proof
    assume "r \<in> waiting_on s res"
    then show ?thesis using unlock_waiting [OF inv] hand_over_inv by blast
  next
    assume r: "r \<in> granted_on s res"
    consider (conv) "status (requests s r) = STATUS_CONVERTING"
      | (last) "status (requests s r) = STATUS_GRANTED" "recursiveCount (requests s r) = 1"
      | (nested) "status (requests s r) = STATUS_GRANTED" "1 < recursiveCount (requests s r)"
      using granted_status [OF inv r] by fastforce
    then show ?thesis
    proof cases
      case conv
      then show ?thesis using unlock_converting [OF inv r] hand_over_inv by blast
    next
      case last
      then show ?thesis using unlock_granted [OF inv r] hand_over_inv by blast
    next
      case nested
      then show ?thesis using unlock_nested [OF nested] recount_inv(1) [OF inv nested(1)] by auto
    qed
  qed
qed

lemma convert_total:
  assumes inv: "lm_inv s" and r: "r \<in> granted_on s res" and st: "status (requests s r) = STATUS_GRANTED"
    and m: "isModeCovered m (mode (requests s r)) \<or> isModeCovered (mode (requests s r)) m"
  shows "\<exists>x s'. convert res r m s = Some (x, s') \<and> lm_inv s'"
proof (cases "isModeCovered m (mode (requests s r))")
  case True
  then show ?thesis
    using convert_covered [OF st granted_status(2) [OF inv r]] recount_inv(1) [OF inv st] by simp
next
  case False
  then show ?thesis using convert_run [OF inv r st, of m] m by (auto simp: conversion_def)
qed

lemma lockEnter_outcome:
  assumes inv: "lm_inv s" and r: "initialised s r"
  shows "lm_inv (snd (lockEnter res r m s))"
    and "\<not> fst (lockEnter res r m s) \<Longrightarrow> lockEnter res r m s =
      (False, setRequest r ((requests s r)\<lparr>partitioned := (m = MODE_IX \<or> m = MODE_IS)\<rparr>) s)"
proof -
  let ?q = "(requests s r)\<lparr>partitioned := (m = MODE_IX \<or> m = MODE_IS)\<rparr>"
  let ?s = "setRequest r ?q s"
  show no: "lockEnter res r m s = (False, ?s)" if "\<not> fst (lockEnter res r m s)"
    using that by (auto simp: lockEnter_def lockFastPath_def Let_def split: if_splits option.splits)
  have off: "\<not> on_manager s r" using new_not_on_manager [OF inv] r by (simp add: initialised_def)
  show "lm_inv (snd (lockEnter res r m s))"
  proof (cases "fst (lockEnter res r m s)")
    case True
    then have "m \<noteq> MODE_NONE" by (auto simp: lockEnter_def lockFastPath_def Let_def split: if_splits option.splits)
    then obtain x s' where "lock res r m s = Some (x, s')" "outcome res r m s x s'"
      using lock_outcome [OF inv] r unfolding initialised_def by blast
    moreover have "lock res r m s = Some (LOCK_OK, snd (lockEnter res r m s))"
      using True r by (auto simp: lock_def lockEnter_def initialised_def Let_def split: prod.splits)
    ultimately show ?thesis by (auto simp: outcome_def acquired_def)
  next
    case False
    then show ?thesis using no off_manager_update(1) [OF inv off] by simp
  qed
qed

text \<open>Every step keeps the invariant.\<close>

lemma lm_inv_initLockManager: "lm_inv (initLockManager R)"
  by (simp add: lm_inv_def initLockManager_def headOf_def)

lemma step_inv: "step s s' \<Longrightarrow> lm_inv s \<Longrightarrow> lm_inv s'"
proof (induction rule: step.induct)
  case (slow s r m res x s')
  have "\<not> on_manager s r" using new_not_on_manager [OF slow.prems] slow(1) by (simp add: initialised_def)
  then have "\<exists>x s'. lockSlowPath res r m s = Some (x, s') \<and> outcome res r m s x s'"
    using slow(1-3,5) by (intro lockSlowPath_outcome) (simp_all add: initialised_def)
  then show ?case using slow(4) by (auto simp: outcome_def acquired_def enqueued_def)
next
  case (conversion r s res m x s')
  then show ?case using convert_total [of s r res m] by (metis option.inject prod.inject)
next
  case (release s r b s')
  then show ?case using unlock_total [of s r] by (metis option.inject prod.inject)
next
  case (weaken r s res m s')
  then show ?case using downgrade_run [of s r res m] hand_over_inv by (metis option.inject)
next
  case (cleanup order s s')
  then have "\<exists>s'. cleanupUnusedLocks order s = Some s' \<and> cleaned UNIV s s'"
    by (intro cleanup_run) (simp_all add: enumerates_def)
  then show ?case using cleanup(2) by (auto simp: cleaned_def)
qed (auto intro: off_manager_update lockEnter_outcome)

lemma reachable_inv: "reachable s \<Longrightarrow> lm_inv s"
  by (induction rule: reachable.induct) (auto intro: lm_inv_initLockManager step_inv)

text \<open>\<open>lock\<close> is its two steps in a row.\<close>

lemma lock_reachable:
  assumes "reachable s" and "initialised s r" and "m \<noteq> MODE_NONE" and run: "lock res r m s = Some (x, s')"
  shows "reachable s'"
proof -
  have enter: "reachable (snd (lockEnter res r m s))" by (rule advance [OF assms(1) fast [OF assms(2,3)]])
  show ?thesis
  proof (cases "fst (lockEnter res r m s)")
    case True
    then have "s' = snd (lockEnter res r m s)"
      using run by (simp add: lock_def lockEnter_def run_simps Let_def split: prod.splits)
    with enter show ?thesis by simp
  next
    case False
    let ?s = "setRequest r ((requests s r)\<lparr>partitioned := (m = MODE_IX \<or> m = MODE_IS)\<rparr>) s"
    have no: "lockEnter res r m s = (False, ?s)" by (rule lockEnter_outcome(2) [OF reachable_inv [OF assms(1)] assms(2) False])
    then have slow_run: "lockSlowPath res r m ?s = Some (x, s')"
      using run assms(2) by (simp add: lock_def lockEnter_def initialised_def)
    have "initialised ?s r" "partitioned (requests ?s r) \<Longrightarrow> m \<in> {MODE_IS, MODE_IX}"
      using assms(2) by (auto simp: initialised_def)
    then have "step ?s s'" using slow [OF _ assms(3) _ slow_run] by blast
    then show ?thesis using enter no by (auto intro: advance)
  qed
qed

subsection \<open>What a client sees of a release\<close>

text \<open>The requests \<open>xs\<close> are woken, in this order, each once: those that waited hold the resource
  in the mode they asked for, those that waited to convert in the mode they convert to. For the
  others, \<open>V\<close> is what is held and \<open>W\<close> who waits. The other resources are as before.\<close>

definition wakes ::
  "ResourceId \<Rightarrow> (RequestPtr \<Rightarrow> LockMode option) \<Rightarrow> RequestPtr set \<Rightarrow> RequestPtr list \<Rightarrow> LockManager \<Rightarrow> LockManager \<Rightarrow> bool"
where
  "wakes res V W xs s s' \<longleftrightarrow> distinct xs \<and>
     set xs \<subseteq> W \<union> {x. V x \<noteq> None \<and> status (requests s x) = STATUS_CONVERTING} \<and>
     notified s' = notified s @ map (\<lambda>x. (notify_obj (requests s x), res, LOCK_OK)) xs \<and>
     grants s' = (grants s)(res := (\<lambda>x. if x \<notin> set xs then V x
       else if x \<in> W then Some (mode (requests s x)) else Some (convertMode (requests s x)))) \<and>
     waiting_on s' = (waiting_on s)(res := W - set xs)"

lemma on_one_resource:
  assumes inv: "lm_inv s" and x: "x \<in> granted_on s res \<union> waiting_on s res"
    and x': "x \<in> granted_on s res' \<union> waiting_on s res'"
  shows "res' = res"
proof -
  have at: "lock_ptr (requests s x) = Some res \<and> partitionedLock (requests s x) = None \<or>
      lock_ptr (requests s x) = None \<and> (\<exists>p. partitionedLock (requests s x) = Some (p, res))"
    if on: "x \<in> granted_on s res \<union> waiting_on s res" for res
  proof (cases "x \<in> granted_on s res")
    case True
    with inv show ?thesis by (cases rule: granted_on_cases) (auto simp: queued_ok_def parted_ok_def)
  next
    case False
    then obtain h where "headOf s res = Some h" "x \<in> set (conflictList h)"
      using on by (auto simp: waiting_on_def split: option.splits)
    then show ?thesis using lm_inv_head [OF inv] by (auto simp: headed_ok_def queued_ok_def)
  qed
  show ?thesis using at [OF x] at [OF x'] by auto
qed

lemma granted_not_waiting:
  assumes inv: "lm_inv s" and x: "x \<in> granted_on s res"
  shows "x \<notin> waiting_on s res"
proof
  assume "x \<in> waiting_on s res"
  then obtain h where "headOf s res = Some h" "x \<in> set (conflictList h)"
    by (auto simp: waiting_on_def split: option.splits)
  then have "status (requests s x) = STATUS_WAITING"
    using lm_inv_head [OF inv] by (auto simp: headed_ok_def head_inv_def head_wf_def waiting_ok_def)
  then show False using granted_status(1) [OF inv x] by auto
qed

lemma hand_over_wakes:
  assumes inv: "lm_inv s" and ho: "hand_over res R G W xs s s'"
    and R: "\<And>x. x \<noteq> r \<Longrightarrow> R x = requests s x" and on: "r \<in> granted_on s res \<union> waiting_on s res"
    and r: "notify_obj (R r) = notify_obj (requests s r)" "r \<notin> W" "status (R r) \<noteq> STATUS_CONVERTING"
    and G: "G \<subseteq> granted_on s res" and W: "W \<subseteq> waiting_on s res"
  shows "wakes res (\<lambda>x. if x \<in> G then Some (mode (R x)) else None) W xs s s'"
proof -
  have sub: "set xs \<subseteq> W \<union> {x\<in>G. status (R x) = STATUS_CONVERTING}"
    and s': "requests s' = handed W (set xs) R" "granted_on s' = (granted_on s)(res := G \<union> (W \<inter> set xs))"
      "waiting_on s' = (waiting_on s)(res := W - set xs)"
    and n: "distinct xs" "notified s' = notified s @ map (\<lambda>x. (notify_obj (R x), res, LOCK_OK)) xs"
    using ho by (simp_all add: hand_over_def)
  have r_xs: "r \<notin> set xs" using sub r by auto
  then have xs_R: "x \<in> set xs \<Longrightarrow> R x = requests s x" for x using R by metis
  have GW: "x \<notin> W" if "x \<in> G" for x using granted_not_waiting [OF inv] that G W by blast
  have at_res: "grants s' res x = (if x \<notin> set xs then if x \<in> G then Some (mode (R x)) else None
      else if x \<in> W then Some (mode (requests s x)) else Some (convertMode (requests s x)))" for x
    using sub xs_R GW by (auto simp: grants_def s' handed_def)
  have other: "grants s' res' x = grants s res' x" if "res' \<noteq> res" for res' x
  proof (cases "x \<in> granted_on s res'")
    case True
    then have "x \<notin> set xs" "x \<noteq> r" using on_one_resource [OF inv, of x res res'] on that sub G W by auto
    then show ?thesis using that R by (simp add: grants_def s' handed_def)
  qed (use that in \<open>simp add: grants_def s'\<close>)
  have "map (\<lambda>x. (notify_obj (R x), res, LOCK_OK)) xs = map (\<lambda>x. (notify_obj (requests s x), res, LOCK_OK)) xs"
    using xs_R by auto
  then show ?thesis
    using n s'(3) sub xs_R at_res other by (auto simp: wakes_def fun_eq_iff)
qed

subsection \<open>Sample runs\<close>

text \<open>A store of initialised requests and the states after some calls on the resource 5: the
  requests 0 and 1 share it, then request 2 waits to have it exclusively; request 0 asks to
  convert to the exclusive mode; in another run request 0 has it exclusively.\<close>

definition sampleRequests :: store where
  "sampleRequests = (\<lambda>r. initNewRequest r r \<lparr>locker = 0, notify_obj = 0, enqueueAtFront = False,
     compatibleFirst = False, partitioned = False, recursiveCount = 0, lock_ptr = None,
     partitionedLock = None, status = STATUS_NEW, mode = MODE_NONE, convertMode = MODE_NONE\<rparr>)"

definition sample0 :: LockManager where "sample0 = initLockManager sampleRequests"
definition sample1 :: LockManager where "sample1 = snd (the (lock 5 0 MODE_S sample0))"
definition sample2 :: LockManager where "sample2 = snd (the (lock 5 1 MODE_S sample1))"
definition sample3 :: LockManager where "sample3 = snd (the (lock 5 2 MODE_X sample2))"

lemma the_Some: "\<not> Option.is_none y \<Longrightarrow> y = Some (fst (the y), snd (the y))"
  by (cases y) simp_all

lemma sample_lock:
  assumes "reachable s" and "initialised s r" and "m \<noteq> MODE_NONE" and "\<not> Option.is_none (lock res r m s)"
  shows "reachable (snd (the (lock res r m s)))"
  by (rule lock_reachable [OF assms(1-3) the_Some [OF assms(4)]])

lemma sample_head:
  assumes "map_option grantedList (headOf s res) = Some gl" and "map_option conflictList (headOf s res) = Some cl"
  shows "r \<in> set gl \<Longrightarrow> grants s res r = Some (mode (requests s r))" and "r \<in> set gl \<Longrightarrow> r \<in> granted_on s res"
    and "r \<in> set cl \<Longrightarrow> r \<in> waiting_on s res"
  using assms by (auto simp: grants_def granted_on_def waiting_on_def)

lemma sample0_reachable: "reachable sample0"
  by (simp add: sample0_def start)

lemma sample1_reachable: "reachable sample1"
  unfolding sample1_def by (rule sample_lock [OF sample0_reachable]; code_simp)

lemma lock_other_heads:
  assumes inv: "lm_inv s" and run: "lock res r m s = Some (x, s')" and "res' \<noteq> res"
  shows "headOf s' res' = headOf s res'"
proof -
  let ?s = "setRequest r ((requests s r)\<lparr>partitioned := (m = MODE_IX \<or> m = MODE_IS)\<rparr>) s"
  have "status (requests s r) = STATUS_NEW" using run by (simp add: lock_def run_simps)
  then have inv': "lm_inv ?s" using off_manager_update(1) [OF inv new_not_on_manager [OF inv]] by blast
  from prepare_new_run [OF inv' refl, of res] obtain h1 s1 where
    "(if isPartitioned (findOrInsertHead res ?s) then migratePartitionedLockHeads (findOrInsertHead res ?s) ?s
      else Some (findOrInsertHead res ?s, ?s)) = Some (h1, s1)" and "headOf s1 = headOf s"
    by (auto simp: prepared_def)
  then show ?thesis
    using run assms(3)
    by (auto simp: lock_def lockFastPath_def lockSlowPath_def partitionedNewRequest_def Let_def run_simps
        split: if_splits option.splits prod.splits)
qed

lemma sample1_heads: "headOf sample1 res \<noteq> None \<longleftrightarrow> res = 5"
proof -
  have "\<not> Option.is_none (lock 5 0 MODE_S sample0)" by code_simp
  then have "lock 5 0 MODE_S sample0 = Some (fst (the (lock 5 0 MODE_S sample0)), sample1)"
    unfolding sample1_def by (rule the_Some)
  then have "headOf sample1 res = headOf sample0 res" if "res \<noteq> 5"
    using lock_other_heads [OF reachable_inv [OF sample0_reachable]] that by blast
  then have "headOf sample1 res = None" if "res \<noteq> 5"
    using that by (simp add: sample0_def initLockManager_def headOf_def)
  moreover have "\<not> Option.is_none (headOf sample1 5)" by code_simp
  ultimately show ?thesis by (cases "res = 5") (auto simp: Option.is_none_def)
qed

lemma sample2_reachable: "reachable sample2"
  unfolding sample2_def by (rule sample_lock [OF sample1_reachable]; code_simp)

lemma sample3_reachable: "reachable sample3"
  unfolding sample3_def by (rule sample_lock [OF sample2_reachable]; code_simp)


lemma sample2_lists:
  "map_option grantedList (headOf sample2 5) = Some [0, 1]" "map_option conflictList (headOf sample2 5) = Some []"
  "mode (requests sample2 0) = MODE_S" "mode (requests sample2 1) = MODE_S"
  "status (requests sample2 0) = STATUS_GRANTED" "recursiveCount (requests sample2 0) = 1"
  by code_simp+

lemma sample3_lists:
  "map_option grantedList (headOf sample3 5) = Some [0, 1]" "map_option conflictList (headOf sample3 5) = Some [2]"
  "mode (requests sample3 0) = MODE_S" "status (requests sample3 0) = STATUS_GRANTED"
  "recursiveCount (requests sample3 0) = 1"
  by code_simp+




subsection \<open>The contract of the lock manager\<close>



text \<open>C2: \<open>lock\<close> on an initialised request never aborts. It grants exactly if the mode is
  admissible next to the present holders and waiting requests, and then the request is one more
  holder. Otherwise it is one more waiting request. Nobody else is affected.\<close>

theorem lock_spec:
  assumes "reachable s" and "initialised s r" and "m \<noteq> MODE_NONE"
  shows "\<exists>s'. reachable s' \<and> notified s' = notified s \<and>
    (if admissible m res s
     then lock res r m s = Some (LOCK_OK, s') \<and> waiting_on s' = waiting_on s \<and>
       grants s' = (grants s)(res := (grants s res)(r \<mapsto> m))
     else lock res r m s = Some (LOCK_WAITING, s') \<and> grants s' = grants s \<and>
       waiting_on s' = (waiting_on s)(res := insert r (waiting_on s res)))"
proof -
  note inv = reachable_inv [OF assms(1)]
  obtain x s' where run: "lock res r m s = Some (x, s')" and out: "outcome res r m s x s'"
    using lock_outcome [OF inv _ _ assms(3)] assms(2) unfolding initialised_def by blast
  then show ?thesis
    using lock_reachable [OF assms run] lock_admissible [OF inv run]
    by (auto simp: outcome_def acquired_def enqueued_def intro!: exI [of _ s'])
qed

theorem lock_spec_witness:
  "initialised sample2 2 \<and> (\<exists>x s'. lock 5 2 MODE_X sample2 = Some (x, s') \<and> reachable s')"
proof -
  have "initialised sample2 2" by code_simp
  then show ?thesis using lock_spec [OF sample2_reachable, of 2 MODE_X 5] by (auto split: if_splits)
qed

text \<open>C3: the last \<open>unlock\<close> of a held lock never aborts and returns true. The request holds
  nothing any more, and the resource goes to the woken requests, each notified exactly once.\<close>

theorem unlock_spec:
  assumes "reachable s" and "grants s res r = Some m"
    and "status (requests s r) = STATUS_GRANTED" and "recursiveCount (requests s r) = 1"
  shows "\<exists>s' xs. unlock r s = Some (True, s') \<and> reachable s' \<and>
    wakes res ((grants s res)(r := None)) (waiting_on s res) xs s s'"
proof -
  note inv = reachable_inv [OF assms(1)]
  have r: "r \<in> granted_on s res" using assms(2) by (auto simp: grants_def split: if_splits)
  from unlock_granted [OF inv r assms(3,4)] obtain s' xs where run: "unlock r s = Some (True, s')"
    and ho: "hand_over res (recounted 0 r (requests s)) (granted_on s res - {r}) (waiting_on s res) xs s s'" by blast
  have "wakes res (\<lambda>x. if x \<in> granted_on s res - {r} then Some (mode (recounted 0 r (requests s) x)) else None)
      (waiting_on s res) xs s s'"
    by (rule hand_over_wakes [OF inv ho]) (use r granted_not_waiting [OF inv r] assms(3) in auto)
  moreover have "(\<lambda>x. if x \<in> granted_on s res - {r} then Some (mode (recounted 0 r (requests s) x)) else None) =
      (grants s res)(r := None)" by (auto simp: grants_def fun_eq_iff)
  moreover have "on_manager s r" using r by (auto simp: on_manager_def)
  then have "reachable s'" using run by (intro advance [OF assms(1) release])
  ultimately show ?thesis using run by auto
qed

theorem unlock_spec_witness:
  "grants sample3 5 0 = Some MODE_S \<and> (\<exists>s' xs. unlock 0 sample3 = Some (True, s') \<and> reachable s' \<and>
     wakes 5 ((grants sample3 5)(0 := None)) (waiting_on sample3 5) xs sample3 s')"
  using unlock_spec [OF sample3_reachable, of 5 0 MODE_S] sample_head(1) [OF sample3_lists(1,2)]
    sample3_lists(3-5) by simp



text \<open>C6: \<open>convert\<close> of a held lock to a comparable mode never aborts. A mode that is covered
  already is granted at once, and a stronger one is granted exactly if no other holder obstructs
  it. Otherwise the request goes on holding its mode while it waits for the new one.\<close>

theorem convert_spec:
  assumes "reachable s" and "grants s res r = Some m0" and "status (requests s r) = STATUS_GRANTED"
    and "isModeCovered m m0 \<or> isModeCovered m0 m"
  shows "\<exists>x s'. convert res r m s = Some (x, s') \<and> reachable s' \<and>
    (if isModeCovered m m0
     then x = LOCK_OK \<and> grants s' = grants s \<and> waiting_on s' = waiting_on s \<and> notified s' = notified s \<and>
       recursiveCount (requests s' r) = recursiveCount (requests s r) + 1
     else conversion res r m s x s')"
proof -
  note inv = reachable_inv [OF assms(1)]
  have r: "r \<in> granted_on s res" and m0: "m0 = mode (requests s r)"
    using assms(2) by (auto simp: grants_def split: if_splits)
  have "reachable s'" if "convert res r m s = Some (x, s')" for x s'
    using step.conversion [OF r assms(3) _ that] assms(4) by (intro advance [OF assms(1)]) (simp add: m0)
  moreover have "\<exists>x s'. convert res r m s = Some (x, s') \<and> (if isModeCovered m m0
      then x = LOCK_OK \<and> grants s' = grants s \<and> waiting_on s' = waiting_on s \<and> notified s' = notified s \<and>
        recursiveCount (requests s' r) = recursiveCount (requests s r) + 1
      else conversion res r m s x s')"
  proof (cases "isModeCovered m m0")
    case True
    then show ?thesis
      using convert_covered [OF assms(3) granted_status(2) [OF inv r], of m res]
        recount_inv(2,4) [OF inv assms(3), of "recursiveCount (requests s r) + 1"] by (simp add: m0)
  next
    case False
    then show ?thesis using convert_run [OF inv r assms(3), of m] assms(4) by (simp add: m0)
  qed
  ultimately show ?thesis by blast
qed

theorem convert_spec_witness:
  "grants sample2 5 0 = Some MODE_S \<and> (\<exists>x s'. convert 5 0 MODE_X sample2 = Some (x, s') \<and>
     conversion 5 0 MODE_X sample2 x s')"
proof -
  have "isModeCovered MODE_S MODE_X" "\<not> isModeCovered MODE_X MODE_S" by code_simp+
  then show ?thesis
    using convert_spec [OF sample2_reachable, of 5 0 MODE_S MODE_X] sample_head(1) [OF sample2_lists(1,2)]
      sample2_lists(3,5) by auto
qed







text \<open>C10: \<open>cleanupUnusedLocks\<close> never aborts, whatever the order in which the hash maps yield their
  entries. A client cannot see it, and it deletes exactly the heads that nobody holds.\<close>

theorem cleanup_spec:
  assumes "reachable s" and "enumerates order s"
  shows "\<exists>s'. cleanupUnusedLocks order s = Some s' \<and> reachable s' \<and> grants s' = grants s \<and>
    waiting_on s' = waiting_on s \<and> notified s' = notified s \<and>
    (\<forall>res. headOf s' res = None \<longleftrightarrow> granted_on s res = {})"
proof -
  note inv = reachable_inv [OF assms(1)]
  have "\<exists>s'. cleanupUnusedLocks order s = Some s' \<and> cleaned UNIV s s'"
    by (rule cleanup_run [OF inv]) (use assms(2) in \<open>simp add: enumerates_def\<close>)
  then obtain s' where run: "cleanupUnusedLocks order s = Some s'" and c: "cleaned UNIV s s'" by blast
  have "reachable s'" by (rule advance [OF assms(1) step.cleanup [OF assms(2) run]])
  moreover have "headOf s res = None \<Longrightarrow> granted_on s res = {}" for res
    using granted_on_head [OF inv] by fastforce
  ultimately show ?thesis using run c by (auto simp: cleaned_def)
qed

theorem cleanup_spec_witness:
  "enumerates (\<lambda>i. if i = getBucket 5 then [5] else []) sample1 \<and>
   (\<exists>s'. cleanupUnusedLocks (\<lambda>i. if i = getBucket 5 then [5] else []) sample1 = Some s' \<and>
     grants s' = grants sample1)"
proof -
  have "enumerates (\<lambda>i. if i = getBucket 5 then [5] else []) sample1"
    using sample1_heads by (auto simp: enumerates_def)
  then show ?thesis using cleanup_spec [OF sample1_reachable] by blast
qed

end
