(* ===== verification/FastMap.thy ===== *)
theory FastMap
  imports Prelude
begin

text \<open>
  \<open>FastMapNoAlloc\<close> of \<^verbatim>\<open>src/src/mongo/db/concurrency/fast_map_noalloc.h\<close>: an
  associative array in a fixed number of slots. The array \<open>_fastAccess\<close> is a list whose length is
  \<open>PreallocCount\<close>, and an iterator is its index into the array, where the length stands for the
  end. Reading the array at or past \<open>PreallocCount\<close> is undefined in the source and \<^const>\<open>None\<close>
  here, like a failing \<open>invariant\<close>.

  The locale \<open>slot_map\<close> states what a client relies on, over the map that the slots represent, and
  its interpretation shows that the slots provide it.
\<close>

subsection \<open>Definitions\<close>

record ('k, 'v) PreallocEntry =
  inUse :: bool
  entryKey :: 'k
  entryValue :: 'v

record ('k, 'v) FastMapNoAlloc =
  fastAccess :: "('k, 'v) PreallocEntry list"
  fastAccessUsedSize :: int

type_synonym Iterator = nat

text \<open>The scans of the source, from an index on: the first entry with the property, or the length
  of the array.\<close>

function firstFrom :: "('e \<Rightarrow> bool) \<Rightarrow> 'e list \<Rightarrow> nat \<Rightarrow> nat" where
  "firstFrom p xs idx = (if idx < length xs \<and> \<not> p (xs ! idx) then firstFrom p xs (idx + 1) else idx)"
  by pat_completeness auto
termination by (relation "measure (\<lambda>(p, xs, idx). length xs - idx)") auto

declare firstFrom.simps [simp del]

definition emptyFastMap :: "('k, 'v) PreallocEntry list \<Rightarrow> ('k, 'v) FastMapNoAlloc" where
  "emptyFastMap slots = \<lparr>fastAccess = map (\<lambda>e. e\<lparr>inUse := False\<rparr>) slots, fastAccessUsedSize = 0\<rparr>"

definition finished :: "('k, 'v) FastMapNoAlloc \<Rightarrow> Iterator \<Rightarrow> bool" where
  "finished m it \<longleftrightarrow> it = length (fastAccess m)"

definition iter_objAddr :: "('k, 'v) FastMapNoAlloc \<Rightarrow> Iterator \<Rightarrow> 'v option" where
  "iter_objAddr m it = do {
     invariant (\<not> finished m it);
     Some (entryValue (fastAccess m ! it))
   }"

definition iter_key :: "('k, 'v) FastMapNoAlloc \<Rightarrow> Iterator \<Rightarrow> 'k option" where
  "iter_key m it = do {
     invariant (\<not> finished m it);
     Some (entryKey (fastAccess m ! it))
   }"

definition iter_next :: "('k, 'v) FastMapNoAlloc \<Rightarrow> Iterator \<Rightarrow> Iterator option" where
  "iter_next m it = do {
     invariant (\<not> finished m it);
     Some (firstFrom inUse (fastAccess m) (it + 1))
   }"

definition iter_remove ::
  "('k, 'v) FastMapNoAlloc \<Rightarrow> Iterator \<Rightarrow> (Iterator \<times> ('k, 'v) FastMapNoAlloc) option" where
  "iter_remove m it = do {
     invariant (\<not> finished m it);
     invariant (inUse (fastAccess m ! it));
     let m = m\<lparr>fastAccess := (fastAccess m)[it := (fastAccess m ! it)\<lparr>inUse := False\<rparr>],
               fastAccessUsedSize := fastAccessUsedSize m - 1\<rparr>;
     it \<leftarrow> iter_next m it;
     Some (it, m)
   }"

definition map_insert ::
  "'k \<Rightarrow> ('k, 'v) FastMapNoAlloc \<Rightarrow> (Iterator \<times> ('k, 'v) FastMapNoAlloc) option" where
  "map_insert key m = do {
     let idx = firstFrom (\<lambda>e. \<not> inUse e) (fastAccess m) 0;
     invariant (idx < length (fastAccess m));
     let e = (fastAccess m ! idx)\<lparr>inUse := True, entryKey := key\<rparr>;
     Some (idx, m\<lparr>fastAccess := (fastAccess m)[idx := e], fastAccessUsedSize := fastAccessUsedSize m + 1\<rparr>)
   }"


definition map_find :: "'k \<Rightarrow> ('k, 'v) FastMapNoAlloc \<Rightarrow> Iterator" where
  "map_find key m = firstFrom (\<lambda>e. inUse e \<and> entryKey e = key) (fastAccess m) 0"



subsection \<open>Scanning\<close>

lemma firstFrom_ge: "idx \<le> firstFrom p xs idx"
  by (induction p xs idx rule: firstFrom.induct) (subst firstFrom.simps, auto)

lemma firstFrom_le: "idx \<le> length xs \<Longrightarrow> firstFrom p xs idx \<le> length xs"
  by (induction p xs idx rule: firstFrom.induct) (subst firstFrom.simps, auto)

lemma firstFrom_skips: "idx \<le> i \<Longrightarrow> i < firstFrom p xs idx \<Longrightarrow> i < length xs \<and> \<not> p (xs ! i)"
proof (induction p xs idx rule: firstFrom.induct)
  case (1 p xs idx)
  then show ?case by (cases "i = idx") (auto simp: firstFrom.simps [of p xs idx] split: if_splits)
qed

lemma firstFrom_holds: "firstFrom p xs idx < length xs \<Longrightarrow> p (xs ! firstFrom p xs idx)"
proof (induction p xs idx rule: firstFrom.induct)
  case (1 p xs idx)
  then show ?case by (cases "idx < length xs \<and> \<not> p (xs ! idx)") (auto simp: firstFrom.simps [of p xs idx])
qed

text \<open>The result of a scan is the first index, from the start on, that has the property.\<close>

lemma firstFrom_eqI:
  assumes "idx \<le> i" and "i \<le> length xs" and "\<And>j. idx \<le> j \<Longrightarrow> j < i \<Longrightarrow> \<not> p (xs ! j)"
    and "i < length xs \<Longrightarrow> p (xs ! i)"
  shows "firstFrom p xs idx = i"
proof -
  have "\<not> i < firstFrom p xs idx" using firstFrom_skips [of idx i p xs] assms(1,4) by auto
  moreover have "\<not> firstFrom p xs idx < i"
    using firstFrom_holds [of p xs idx] firstFrom_ge [of idx p xs] assms(2,3) by fastforce
  ultimately show ?thesis by simp
qed

lemma firstFrom_none: "firstFrom p xs 0 = length xs \<longleftrightarrow> (\<forall>x\<in>set xs. \<not> p x)"
proof
  assume "firstFrom p xs 0 = length xs"
  then show "\<forall>x\<in>set xs. \<not> p x" using firstFrom_skips [of 0 _ p xs] by (auto simp: in_set_conv_nth)
next
  assume "\<forall>x\<in>set xs. \<not> p x"
  then show "firstFrom p xs 0 = length xs" by (intro firstFrom_eqI) auto
qed

subsection \<open>The map that the slots represent\<close>

definition usedEntries :: "('k, 'v) FastMapNoAlloc \<Rightarrow> ('k \<times> 'v) list" where
  "usedEntries m = map (\<lambda>e. (entryKey e, entryValue e)) (filter inUse (fastAccess m))"

definition map_lookup :: "('k, 'v) FastMapNoAlloc \<Rightarrow> 'k \<Rightarrow> 'v option" where
  "map_lookup m = map_of (usedEntries m)"

text \<open>The values are the objects that the slots hold room for, so different slots have different
  ones; the keys in use are different, and the counter is right.\<close>

definition map_inv :: "('k, 'v) FastMapNoAlloc \<Rightarrow> bool" where
  "map_inv m \<longleftrightarrow> distinct (map fst (usedEntries m)) \<and> distinct (map entryValue (fastAccess m)) \<and>
     fastAccessUsedSize m = int (length (usedEntries m))"

definition slots :: "('k, 'v) FastMapNoAlloc \<Rightarrow> 'v set" where
  "slots m = entryValue ` set (fastAccess m)"

lemma map_inv_empty: "distinct (map entryValue es) \<Longrightarrow> map_inv (emptyFastMap es)"
  by (simp add: map_inv_def emptyFastMap_def usedEntries_def comp_def)

lemma usedEntries_update:
  assumes "i < length (fastAccess m)"
  shows "usedEntries (m\<lparr>fastAccess := (fastAccess m)[i := e], fastAccessUsedSize := n\<rparr>) =
    map (\<lambda>e. (entryKey e, entryValue e)) (filter inUse (take i (fastAccess m))) @
    (if inUse e then [(entryKey e, entryValue e)] else []) @
    map (\<lambda>e. (entryKey e, entryValue e)) (filter inUse (drop (Suc i) (fastAccess m)))"
  using assms by (simp add: usedEntries_def upd_conv_take_nth_drop)

lemma usedEntries_split:
  assumes "i < length (fastAccess m)"
  shows "usedEntries m =
    map (\<lambda>e. (entryKey e, entryValue e)) (filter inUse (take i (fastAccess m))) @
    (if inUse (fastAccess m ! i) then [(entryKey (fastAccess m ! i), entryValue (fastAccess m ! i))] else []) @
    map (\<lambda>e. (entryKey e, entryValue e)) (filter inUse (drop (Suc i) (fastAccess m)))"
  using usedEntries_update [OF assms, where e = "fastAccess m ! i" and n = "fastAccessUsedSize m"] assms by simp

lemma lookup_at:
  assumes "map_inv m" and "i < length (fastAccess m)" and "inUse (fastAccess m ! i)"
  shows "map_lookup m (entryKey (fastAccess m ! i)) = Some (entryValue (fastAccess m ! i))"
proof -
  have "(entryKey (fastAccess m ! i), entryValue (fastAccess m ! i)) \<in> set (usedEntries m)"
    using assms(2,3) by (auto simp: usedEntries_def)
  then show ?thesis using assms(1) by (simp add: map_lookup_def map_inv_def map_of_is_SomeI)
qed

lemma lookup_Some_iff:
  assumes "map_inv m"
  shows "map_lookup m k = Some v \<longleftrightarrow> (\<exists>e\<in>set (fastAccess m). inUse e \<and> entryKey e = k \<and> entryValue e = v)"
  using assms by (auto simp: map_lookup_def map_inv_def usedEntries_def)

subsubsection \<open>Finding\<close>

lemma find_lookup:
  assumes inv: "map_inv m"
  shows "map_lookup m k = (if finished m (map_find k m) then None else Some (entryValue (fastAccess m ! map_find k m)))"
    and "map_find k m \<le> length (fastAccess m)"
    and "\<not> finished m (map_find k m) \<Longrightarrow> inUse (fastAccess m ! map_find k m) \<and> entryKey (fastAccess m ! map_find k m) = k"
proof -
  let ?p = "\<lambda>e. inUse e \<and> entryKey e = k"
  show le: "map_find k m \<le> length (fastAccess m)" by (simp add: map_find_def firstFrom_le)
  then have found: "?p (fastAccess m ! map_find k m)" if "\<not> finished m (map_find k m)"
    using firstFrom_holds [of ?p "fastAccess m" 0] that by (simp add: finished_def map_find_def)
  then show "\<not> finished m (map_find k m) \<Longrightarrow> inUse (fastAccess m ! map_find k m) \<and> entryKey (fastAccess m ! map_find k m) = k"
    by simp
  show "map_lookup m k = (if finished m (map_find k m) then None else Some (entryValue (fastAccess m ! map_find k m)))"
  proof (cases "finished m (map_find k m)")
    case True
    then have "\<forall>e\<in>set (fastAccess m). \<not> ?p e"
      unfolding finished_def map_find_def firstFrom_none .
    then have "map_lookup m k \<noteq> Some v" for v using lookup_Some_iff [OF inv] by blast
    then show ?thesis using True by (cases "map_lookup m k") auto
  next
    case False
    then show ?thesis using lookup_at [OF inv, of "map_find k m"] found [OF False] le by (simp add: finished_def)
  qed
qed

lemma objAddr_find: "map_inv m \<Longrightarrow> iter_objAddr m (map_find k m) = map_lookup m k"
  using find_lookup(1) [of m k] by (simp add: iter_objAddr_def)

subsubsection \<open>Inserting and removing\<close>

lemma insert_run:
  assumes inv: "map_inv m" and new: "map_lookup m k = None" and room: "length (usedEntries m) < length (fastAccess m)"
  shows "\<exists>it m' v. map_insert k m = Some (it, m') \<and> map_inv m' \<and> map_lookup m' = (map_lookup m)(k \<mapsto> v) \<and>
    iter_objAddr m' it = Some v \<and> v \<in> slots m - ran (map_lookup m) \<and>
    slots m' = slots m \<and> length (fastAccess m') = length (fastAccess m)"
proof -
  let ?es = "fastAccess m"
  define i where "i = firstFrom (\<lambda>e. \<not> inUse e) ?es 0"
  have "i < length ?es"
  proof (rule ccontr)
    assume "\<not> i < length ?es"
    then have "i = length ?es" using firstFrom_le [of 0 ?es "\<lambda>e. \<not> inUse e"] by (simp add: i_def)
    then have "filter inUse ?es = ?es" unfolding i_def firstFrom_none by simp
    then show False using room by (simp add: usedEntries_def)
  qed
  moreover from this have free: "\<not> inUse (?es ! i)" using firstFrom_holds [of _ ?es 0] by (simp add: i_def)
  ultimately have i: "i < length ?es" "\<not> inUse (?es ! i)" by auto
  define e where "e = (?es ! i)\<lparr>inUse := True, entryKey := k\<rparr>"
  define m' where "m' = m\<lparr>fastAccess := ?es[i := e], fastAccessUsedSize := fastAccessUsedSize m + 1\<rparr>"
  let ?v = "entryValue (?es ! i)"
  have e: "inUse e" "entryKey e = k" "entryValue e = ?v" by (simp_all add: e_def)
  define pre where "pre = map (\<lambda>e. (entryKey e, entryValue e)) (filter inUse (take i ?es))"
  define post where "post = map (\<lambda>e. (entryKey e, entryValue e)) (filter inUse (drop (Suc i) ?es))"
  have split: "usedEntries m = pre @ post" "usedEntries m' = pre @ (k, ?v) # post"
    using i(2) usedEntries_split [OF i(1)]
      usedEntries_update [OF i(1), where e = e and n = "fastAccessUsedSize m + 1", folded m'_def]
    by (simp_all add: e pre_def post_def)
  have vals: "map entryValue (?es[i := e]) = map entryValue ?es"
    using e(3) i(1) by (simp add: map_update list_update_same_conv)
  have k_new: "k \<notin> fst ` set (usedEntries m)" using new by (simp add: map_lookup_def map_of_eq_None_iff)
  have inv': "map_inv m'"
    unfolding map_inv_def
  proof (intro conjI)
    show "distinct (map fst (usedEntries m'))"
      using inv k_new by (auto simp: map_inv_def split)
    show "distinct (map entryValue (fastAccess m'))" using inv vals by (simp add: m'_def map_inv_def)
    show "fastAccessUsedSize m' = int (length (usedEntries m'))"
      using inv by (simp add: map_inv_def split) (simp add: m'_def)
  qed
  have k_none: "map_of (pre @ post) k = None" using new by (simp add: map_lookup_def split)
  have look: "map_lookup m' = (map_lookup m)(k \<mapsto> ?v)"
  proof
    fix x show "map_lookup m' x = ((map_lookup m)(k \<mapsto> ?v)) x"
      using k_none by (auto simp: map_lookup_def split map_add_def split: option.splits)
  qed
  have "?v \<notin> ran (map_lookup m)"
  proof
    assume "?v \<in> ran (map_lookup m)"
    then obtain j where "j < length ?es" "inUse (?es ! j)" "entryValue (?es ! j) = ?v"
      by (auto simp: ran_def lookup_Some_iff [OF inv] in_set_conv_nth)
    then show False using inv i by (auto simp: map_inv_def distinct_conv_nth)
  qed
  moreover have "slots m' = slots m"
    using arg_cong [OF vals, of set] by (simp add: slots_def m'_def)
  moreover have "?v \<in> slots m" using i(1) by (simp add: slots_def)
  moreover have "map_insert k m = Some (i, m')"
    using i(1) by (simp add: map_insert_def Let_def m'_def e_def flip: i_def)
  moreover have "iter_objAddr m' i = Some ?v" using i(1) e by (simp add: iter_objAddr_def finished_def m'_def)
  ultimately show ?thesis using inv' look by (auto simp: m'_def)
qed

lemma remove_run:
  assumes inv: "map_inv m" and i: "i < length (fastAccess m)" "inUse (fastAccess m ! i)"
  shows "\<exists>m'. iter_remove m i = Some (firstFrom inUse (fastAccess m) (i + 1), m') \<and> map_inv m' \<and>
    map_lookup m' = (map_lookup m)(entryKey (fastAccess m ! i) := None) \<and> slots m' = slots m \<and>
    length (fastAccess m') = length (fastAccess m) \<and>
    (\<forall>j. j \<noteq> i \<longrightarrow> fastAccess m' ! j = fastAccess m ! j) \<and>
    firstFrom inUse (fastAccess m') (i + 1) = firstFrom inUse (fastAccess m) (i + 1)"
proof -
  let ?es = "fastAccess m"
  let ?k = "entryKey (?es ! i)"
  define e where "e = (?es ! i)\<lparr>inUse := False\<rparr>"
  define m' where "m' = m\<lparr>fastAccess := ?es[i := e], fastAccessUsedSize := fastAccessUsedSize m - 1\<rparr>"
  have e: "\<not> inUse e" "entryValue e = entryValue (?es ! i)" by (simp_all add: e_def)
  define pre where "pre = map (\<lambda>e. (entryKey e, entryValue e)) (filter inUse (take i ?es))"
  define post where "post = map (\<lambda>e. (entryKey e, entryValue e)) (filter inUse (drop (Suc i) ?es))"
  have split: "usedEntries m = pre @ (?k, entryValue (?es ! i)) # post" "usedEntries m' = pre @ post"
    using i(2) usedEntries_split [OF i(1)]
      usedEntries_update [OF i(1), where e = e and n = "fastAccessUsedSize m - 1", folded m'_def]
    by (simp_all add: e pre_def post_def)
  have vals: "map entryValue (?es[i := e]) = map entryValue ?es"
    using e(2) i(1) by (simp add: map_update list_update_same_conv)
  have "map_inv m'"
    unfolding map_inv_def
  proof (intro conjI)
    show "distinct (map fst (usedEntries m'))" using inv by (auto simp: map_inv_def split)
    show "distinct (map entryValue (fastAccess m'))" using inv vals by (simp add: m'_def map_inv_def)
    show "fastAccessUsedSize m' = int (length (usedEntries m'))"
      using inv by (simp add: map_inv_def split) (simp add: m'_def)
  qed
  moreover have "map_lookup m' = (map_lookup m)(?k := None)"
  proof
    fix x
    have "?k \<notin> fst ` set (pre @ post)" using inv by (auto simp: map_inv_def split)
    then have "map_of (pre @ post) ?k = None" by (auto simp: map_of_eq_None_iff)
    then show "map_lookup m' x = ((map_lookup m)(?k := None)) x"
      by (auto simp: map_lookup_def split map_add_def split: option.splits)
  qed
  moreover have "slots m' = slots m" using arg_cong [OF vals, of set] by (simp add: slots_def m'_def)
  moreover have next_eq: "firstFrom inUse (fastAccess m') (i + 1) = firstFrom inUse ?es (i + 1)"
  proof (rule firstFrom_eqI)
    let ?j = "firstFrom inUse ?es (i + 1)"
    have ge: "i + 1 \<le> ?j" by (rule firstFrom_ge)
    then show "i + 1 \<le> ?j" .
    show "?j \<le> length (fastAccess m')" using firstFrom_le [of "i + 1" ?es] i(1) by (simp add: m'_def)
    show "\<not> inUse (fastAccess m' ! j)" if "i + 1 \<le> j" "j < ?j" for j
      using firstFrom_skips [OF that] that(1) by (simp add: m'_def)
    show "inUse (fastAccess m' ! ?j)" if "?j < length (fastAccess m')"
      using firstFrom_holds [of inUse ?es "i + 1"] that ge by (simp add: m'_def)
  qed
  moreover have "iter_remove m i = Some (firstFrom inUse ?es (i + 1), m')"
    using i next_eq by (simp add: iter_remove_def iter_next_def finished_def Let_def m'_def e_def)
  ultimately show ?thesis by (auto simp: m'_def)
qed

subsubsection \<open>Iterating\<close>






subsection \<open>The interface\<close>

text \<open>What the lock manager's clients rely on: lookups through \<open>find\<close>, insertion of an absent key
  while there is room, into the room of an unused object, and removal of a present key.\<close>

locale slot_map =
  fixes lookup :: "'m \<Rightarrow> 'k \<Rightarrow> 'v option" and invar :: "'m \<Rightarrow> bool" and capacity :: "'m \<Rightarrow> nat"
    and room :: "'m \<Rightarrow> 'v set" and find :: "'k \<Rightarrow> 'm \<Rightarrow> 'it" and at :: "'m \<Rightarrow> 'it \<Rightarrow> 'v option"
    and ins :: "'k \<Rightarrow> 'm \<Rightarrow> ('it \<times> 'm) option" and rem :: "'m \<Rightarrow> 'it \<Rightarrow> ('it \<times> 'm) option"
  assumes find_at: "invar m \<Longrightarrow> at m (find k m) = lookup m k"
    and ins_run: "invar m \<Longrightarrow> lookup m k = None \<Longrightarrow> card (dom (lookup m)) < capacity m \<Longrightarrow>
      \<exists>it m' v. ins k m = Some (it, m') \<and> invar m' \<and> lookup m' = (lookup m)(k \<mapsto> v) \<and> at m' it = Some v \<and>
        v \<in> room m - ran (lookup m) \<and> room m' = room m \<and> capacity m' = capacity m"
    and ins_full: "invar m \<Longrightarrow> capacity m \<le> card (dom (lookup m)) \<Longrightarrow> ins k m = None"
    and rem_run: "invar m \<Longrightarrow> lookup m k = Some v \<Longrightarrow>
      \<exists>it' m'. rem m (find k m) = Some (it', m') \<and> invar m' \<and> lookup m' = (lookup m)(k := None) \<and>
        room m' = room m \<and> capacity m' = capacity m"
begin

lemma ins_rem:
  assumes "invar m" and "lookup m k = None" and "card (dom (lookup m)) < capacity m"
  shows "\<exists>it m1 it' m2. ins k m = Some (it, m1) \<and> rem m1 (find k m1) = Some (it', m2) \<and> invar m2 \<and> lookup m2 = lookup m"
proof -
  from ins_run [OF assms] obtain it m1 v where ins: "ins k m = Some (it, m1)" "invar m1" "lookup m1 = (lookup m)(k \<mapsto> v)"
    by blast
  moreover from this have "lookup m1 k = Some v" by simp
  ultimately obtain it' m2 where "rem m1 (find k m1) = Some (it', m2)" "invar m2" "lookup m2 = (lookup m1)(k := None)"
    using rem_run [of m1 k v] by blast
  moreover from this ins have "lookup m2 = lookup m" using assms(2) by (simp add: fun_upd_idem)
  ultimately show ?thesis using ins(1) by blast
qed

end

lemma card_dom_lookup: "map_inv m \<Longrightarrow> card (dom (map_lookup m)) = length (usedEntries m)"
proof -
  assume "map_inv m"
  then have "card (fst ` set (usedEntries m)) = length (usedEntries m)"
    using distinct_card [of "map fst (usedEntries m)"] by (simp add: map_inv_def)
  then show ?thesis by (simp add: map_lookup_def dom_map_of_conv_image_fst)
qed

interpretation fm: slot_map map_lookup map_inv "\<lambda>m. length (fastAccess m)" slots map_find iter_objAddr
  map_insert iter_remove
proof unfold_locales
  fix m :: "('k, 'v) FastMapNoAlloc" and k v assume inv: "map_inv m"
  show "iter_objAddr m (map_find k m) = map_lookup m k" by (rule objAddr_find [OF inv])
  show "\<exists>it m' v. map_insert k m = Some (it, m') \<and> map_inv m' \<and> map_lookup m' = (map_lookup m)(k \<mapsto> v) \<and>
      iter_objAddr m' it = Some v \<and> v \<in> slots m - ran (map_lookup m) \<and> slots m' = slots m \<and>
      length (fastAccess m') = length (fastAccess m)"
    if "map_lookup m k = None" "card (dom (map_lookup m)) < length (fastAccess m)"
    using insert_run [OF inv that(1)] that(2) card_dom_lookup [OF inv] by simp
  show "map_insert k m = None" if "length (fastAccess m) \<le> card (dom (map_lookup m))"
  proof -
    have "length (filter inUse (fastAccess m)) = length (fastAccess m)"
      using that card_dom_lookup [OF inv] length_filter_le [of inUse "fastAccess m"] by (simp add: usedEntries_def)
    then have "\<forall>e\<in>set (fastAccess m). \<not> \<not> inUse e" using length_filter_less [of _ "fastAccess m" inUse] by fastforce
    then have "firstFrom (\<lambda>e. \<not> inUse e) (fastAccess m) 0 = length (fastAccess m)" unfolding firstFrom_none .
    then show ?thesis by (simp add: map_insert_def)
  qed
  show "\<exists>it' m'. iter_remove m (map_find k m) = Some (it', m') \<and> map_inv m' \<and>
      map_lookup m' = (map_lookup m)(k := None) \<and> slots m' = slots m \<and> length (fastAccess m') = length (fastAccess m)"
    if "map_lookup m k = Some v"
  proof -
    have "\<not> finished m (map_find k m)" using that find_lookup(1) [OF inv, of k] by auto
    then have "map_find k m < length (fastAccess m)" "inUse (fastAccess m ! map_find k m)"
      "entryKey (fastAccess m ! map_find k m) = k"
      using find_lookup(2,3) [OF inv, of k] by (auto simp: finished_def)
    then show ?thesis using remove_run [OF inv, of "map_find k m"] by auto
  qed
qed

subsection \<open>Properties of the map\<close>

definition sampleSlots :: "(nat, nat) FastMapNoAlloc" where
  "sampleSlots = emptyFastMap [\<lparr>inUse = False, entryKey = 0, entryValue = 10\<rparr>, \<lparr>inUse = False, entryKey = 0, entryValue = 11\<rparr>]"

lemma sampleSlots_inv: "map_inv sampleSlots"
  unfolding sampleSlots_def by (rule map_inv_empty) simp

text \<open>C29: inserting an absent key into a map with a free slot gives it the object of a slot that
  no other key has, \<open>find\<close> reaches that object afterwards, the other keys keep theirs, and
  removing the key again gives back the map as it was. A map without a free slot refuses the
  insertion.\<close>

theorem map_insert_remove:
  assumes "map_inv m" and "map_lookup m k = None"
  shows "if card (dom (map_lookup m)) < length (fastAccess m)
    then \<exists>it m1 v it' m2. map_insert k m = Some (it, m1) \<and> map_inv m1 \<and>
      map_lookup m1 = (map_lookup m)(k \<mapsto> v) \<and> v \<in> slots m - ran (map_lookup m) \<and>
      iter_objAddr m1 it = Some v \<and> iter_objAddr m1 (map_find k m1) = Some v \<and>
      iter_remove m1 (map_find k m1) = Some (it', m2) \<and> map_inv m2 \<and> map_lookup m2 = map_lookup m
    else map_insert k m = None"
proof (cases "card (dom (map_lookup m)) < length (fastAccess m)")
  case True
  from fm.ins_run [OF assms True] obtain it m1 v where ins: "map_insert k m = Some (it, m1)" "map_inv m1"
    "map_lookup m1 = (map_lookup m)(k \<mapsto> v)" "iter_objAddr m1 it = Some v" "v \<in> slots m - ran (map_lookup m)" by blast
  moreover from fm.ins_rem [OF assms True] ins(1) obtain it' m2 where
    "iter_remove m1 (map_find k m1) = Some (it', m2)" "map_inv m2" "map_lookup m2 = map_lookup m" by auto
  moreover have "iter_objAddr m1 (map_find k m1) = Some v" using fm.find_at [OF ins(2)] ins(3) by simp
  ultimately show ?thesis using True by auto
qed (use fm.ins_full [OF assms(1)] in auto)

theorem map_insert_remove_witness:
  "map_lookup sampleSlots 7 = None \<and> (\<exists>it m1 v. map_insert 7 sampleSlots = Some (it, m1) \<and>
     map_lookup m1 = (map_lookup sampleSlots)(7 \<mapsto> v))"
proof -
  have "map_lookup sampleSlots = Map.empty" "length (fastAccess sampleSlots) = 2"
    by (simp_all add: sampleSlots_def emptyFastMap_def map_lookup_def usedEntries_def)
  then show ?thesis using map_insert_remove [OF sampleSlots_inv, of 7] by auto
qed



end
