(* ===== verification/DeadlockDetector.thy ===== *)
theory DeadlockDetector
  imports LockSystem
begin

unbundle bit_operations_syntax

text \<open>
  \<open>DeadlockDetector\<close> of \<^verbatim>\<open>src/src/mongo/db/concurrency/lock_manager.cpp\<close>: the search of
  the wait-for graph from a blocked locker. The detector asks other lockers what they wait for, so
  the definitions take that function, \<open>Locker::getWaitingResource\<close>, as the argument
  \<open>waitingResource\<close>; a locker that does not wait answers with an invalid resource id.

  The proofs show that the search ends, and that it reports a cycle exactly if the locker waits,
  directly or through others, for itself.
\<close>

subsection \<open>Definitions\<close>

record Edges =
  edgesResId :: ResourceId
  owners :: "LockerId list"

type_synonym UnprocessedNode = "LockerId \<times> ResourceId"

record DeadlockDetector =
  initialLockerId :: LockerId
  unprocessed :: "UnprocessedNode list"
  waitForGraph :: "LockerId \<rightharpoonup> Edges"
  foundCycle :: bool

definition newDetector :: "(LockerId \<Rightarrow> ResourceId) \<Rightarrow> LockerId \<Rightarrow> DeadlockDetector" where
  "newDetector waitingResource l =
     \<lparr>initialLockerId = l,
      unprocessed = (if isValid (waitingResource l) then [(l, waitingResource l)] else []),
      waitForGraph = Map.empty, foundCycle = False\<rparr>"

text \<open>The test that ends every loop body: a conflicting owner that waits itself is queued and
  recorded.\<close>

definition addOwner ::
  "(LockerId \<Rightarrow> ResourceId) \<Rightarrow> LockerId \<Rightarrow> UnprocessedNode list \<times> LockerId list
     \<Rightarrow> UnprocessedNode list \<times> LockerId list" where
  "addOwner waitingResource lockerId acc =
     (let (queue, os) = acc; waitResId = waitingResource lockerId
      in if isValid waitResId then ((lockerId, waitResId) # queue, os @ [lockerId]) else (queue, os))"

text \<open>The loop over the granted list, from its back; \<open>seen\<close> tells whether the request itself was
  passed.\<close>

fun scanGranted ::
  "(LockerId \<Rightarrow> ResourceId) \<Rightarrow> store \<Rightarrow> RequestPtr \<Rightarrow> RequestPtr list \<Rightarrow> bool
     \<Rightarrow> UnprocessedNode list \<times> LockerId list \<Rightarrow> (UnprocessedNode list \<times> LockerId list) option" where
  "scanGranted waitingResource R request [] seen acc = Some acc"
| "scanGranted waitingResource R request (it # rest) seen acc =
     (if it = request then scanGranted waitingResource R request rest True acc
      else if status (R request) = STATUS_WAITING then
        scanGranted waitingResource R request rest seen
          (if conflicts (mode (R request)) (modeMask (mode (R it))) \<or>
              conflicts (mode (R request)) (modeMask (convertMode (R it)))
           then addOwner waitingResource (locker (R it)) acc else acc)
      else do {
        invariant (status (R request) = STATUS_CONVERTING);
        scanGranted waitingResource R request rest seen
          (if conflicts (convertMode (R request)) (modeMask (mode (R it))) \<or>
              (seen \<and> conflicts (convertMode (R request)) (modeMask (convertMode (R it))))
           then addOwner waitingResource (locker (R it)) acc else acc)
      })"

text \<open>The loop over the requests in front of a waiting one.\<close>

fun scanWaiting ::
  "(LockerId \<Rightarrow> ResourceId) \<Rightarrow> store \<Rightarrow> RequestPtr \<Rightarrow> RequestPtr list
     \<Rightarrow> UnprocessedNode list \<times> LockerId list \<Rightarrow> (UnprocessedNode list \<times> LockerId list) option" where
  "scanWaiting waitingResource R request [] acc = Some acc"
| "scanWaiting waitingResource R request (it # rest) acc = do {
     invariant (it \<noteq> request);
     scanWaiting waitingResource R request rest
       (if conflicts (mode (R request)) (modeMask (mode (R it)))
        then addOwner waitingResource (locker (R it)) acc else acc)
   }"

text \<open>The requests in front of a request on its list, the nearest first: what \<open>prev\<close> yields.\<close>

definition before :: "RequestPtr \<Rightarrow> RequestPtr list \<Rightarrow> RequestPtr list" where
  "before r xs = rev (takeWhile (\<lambda>x. x \<noteq> r) xs)"

definition processNextNode ::
  "(LockerId \<Rightarrow> ResourceId) \<Rightarrow> LockManager \<Rightarrow> UnprocessedNode \<Rightarrow> DeadlockDetector \<Rightarrow> DeadlockDetector option" where
  "processNextNode waitingResource s node d =
     (let (lockerId, resId) = node; R = requests s
      in case headOf s resId of None \<Rightarrow> Some d | Some h \<Rightarrow>
         (case findRequest lockerId h R of None \<Rightarrow> Some d | Some request \<Rightarrow>
           if status (R request) = STATUS_GRANTED then Some d
           else if waitForGraph d lockerId \<noteq> None then
             Some (if \<not> foundCycle d then d\<lparr>foundCycle := (lockerId = initialLockerId d)\<rparr> else d)
           else do {
             (queue, os) \<leftarrow> scanGranted waitingResource R request (rev (grantedList h)) False (unprocessed d, []);
             (queue, os) \<leftarrow> (if status (R request) = STATUS_WAITING
               then scanWaiting waitingResource R request (before request (conflictList h)) (queue, os)
               else Some (queue, os));
             Some (d\<lparr>unprocessed := queue,
                     waitForGraph := (waitForGraph d)(lockerId \<mapsto> \<lparr>edgesResId = resId, owners = os\<rparr>)\<rparr>)
           }))"

definition nextNode ::
  "(LockerId \<Rightarrow> ResourceId) \<Rightarrow> LockManager \<Rightarrow> DeadlockDetector \<Rightarrow> (bool \<times> DeadlockDetector) option" where
  "nextNode waitingResource s d =
     (case unprocessed d of
        [] \<Rightarrow> Some (False, d)
      | front # queue \<Rightarrow> do {
          d \<leftarrow> processNextNode waitingResource s front (d\<lparr>unprocessed := queue\<rparr>);
          Some (unprocessed d \<noteq> [], d)
        })"

text \<open>\<open>check\<close>: the loop \<open>while (next())\<close>, on a state of the lock manager that does not change. A loop
  that does not end has the value \<^const>\<open>None\<close>.\<close>

partial_function (option) check ::
  "(LockerId \<Rightarrow> ResourceId) \<Rightarrow> LockManager \<Rightarrow> DeadlockDetector \<Rightarrow> DeadlockDetector option" where
  "check waitingResource s d = do {
     (more, d) \<leftarrow> nextNode waitingResource s d;
     if more then check waitingResource s d else Some d
   }"

declare check.simps [code]

definition hasCycle :: "DeadlockDetector \<Rightarrow> bool option" where
  "hasCycle d = do {
     invariant (unprocessed d = []);
     Some (foundCycle d)
   }"

subsection \<open>The wait-for relation\<close>

text \<open>The request \<open>it\<close> stands in the way of the request \<open>r\<close>: for a waiting request a holder, and a
  waiting request in front of it, for a conversion a holder, and the conversion of a holder in
  front of it.\<close>

definition obstructs :: "store \<Rightarrow> LockHead \<Rightarrow> RequestPtr \<Rightarrow> RequestPtr \<Rightarrow> bool" where
  "obstructs R h r it \<longleftrightarrow>
     status (R r) = STATUS_WAITING \<and>
       (it \<in> set (grantedList h) \<and> it \<noteq> r \<and>
          (incompatible (mode (R r)) (mode (R it)) \<or> incompatible (mode (R r)) (convertMode (R it))) \<or>
        it \<in> set (takeWhile (\<lambda>x. x \<noteq> r) (conflictList h)) \<and> incompatible (mode (R r)) (mode (R it))) \<or>
     status (R r) = STATUS_CONVERTING \<and> it \<in> set (grantedList h) \<and> it \<noteq> r \<and>
       (incompatible (convertMode (R r)) (mode (R it)) \<or>
        it \<in> set (takeWhile (\<lambda>x. x \<noteq> r) (grantedList h)) \<and>
          incompatible (convertMode (R r)) (convertMode (R it)))"

text \<open>The request that a locker waits with.\<close>

definition pendingRequest ::
  "(LockerId \<Rightarrow> ResourceId) \<Rightarrow> LockManager \<Rightarrow> LockerId \<Rightarrow> (LockHead \<times> RequestPtr) option" where
  "pendingRequest wr s l = do {
     h \<leftarrow> headOf s (wr l);
     r \<leftarrow> findRequest l h (requests s);
     if status (requests s r) = STATUS_GRANTED then None else Some (h, r)
   }"

definition waitsFor :: "(LockerId \<Rightarrow> ResourceId) \<Rightarrow> LockManager \<Rightarrow> (LockerId \<times> LockerId) set" where
  "waitsFor wr s = {(l, l'). isValid (wr l) \<and> isValid (wr l') \<and>
     (\<exists>h r it. pendingRequest wr s l = Some (h, r) \<and> obstructs (requests s) h r it \<and> locker (requests s it) = l')}"

subsection \<open>One node\<close>

text \<open>The loops queue and record the same lockers.\<close>

definition queuedBy ::
  "(LockerId \<Rightarrow> ResourceId) \<Rightarrow> LockerId list \<Rightarrow> UnprocessedNode list \<times> LockerId list \<Rightarrow> UnprocessedNode list \<times> LockerId list"
where
  "queuedBy wr os acc = (rev (map (\<lambda>l. (l, wr l)) os) @ fst acc, snd acc @ os)"

lemma addOwner_queuedBy: "addOwner wr l acc = queuedBy wr (if isValid (wr l) then [l] else []) acc"
  by (cases acc) (simp add: addOwner_def queuedBy_def)

lemma queuedBy_queuedBy: "queuedBy wr os' (queuedBy wr os acc) = queuedBy wr (os @ os') acc"
  by (simp add: queuedBy_def)

lemma queuedBy_Nil [simp]: "queuedBy wr [] acc = acc"
  by (simp add: queuedBy_def)

text \<open>The test of the loop over the granted list.\<close>

definition inWay :: "store \<Rightarrow> RequestPtr \<Rightarrow> bool \<Rightarrow> RequestPtr \<Rightarrow> bool" where
  "inWay R r late it \<longleftrightarrow> (if status (R r) = STATUS_WAITING
     then incompatible (mode (R r)) (mode (R it)) \<or> incompatible (mode (R r)) (convertMode (R it))
     else incompatible (convertMode (R r)) (mode (R it)) \<or>
       late \<and> incompatible (convertMode (R r)) (convertMode (R it)))"

definition lockersOf :: "(LockerId \<Rightarrow> ResourceId) \<Rightarrow> store \<Rightarrow> RequestPtr set \<Rightarrow> LockerId set" where
  "lockersOf wr R A = {l. isValid (wr l) \<and> (\<exists>it\<in>A. locker (R it) = l)}"

lemma lockersOf_insert:
  "lockersOf wr R (insert it A) = (if isValid (wr (locker (R it))) then {locker (R it)} else {}) \<union> lockersOf wr R A"
  by (auto simp: lockersOf_def)

lemma scanGranted_run:
  assumes st: "status (R r) \<in> {STATUS_WAITING, STATUS_CONVERTING}" and "distinct xs"
  shows "\<exists>os. scanGranted wr R r xs seen acc = Some (queuedBy wr os acc) \<and>
    set os = lockersOf wr R {it \<in> set xs. it \<noteq> r \<and> inWay R r (seen \<or> it \<in> set (dropWhile (\<lambda>x. x \<noteq> r) xs)) it}"
  using assms(2)
proof (induction xs arbitrary: seen acc)
  case Nil
  then show ?case by (auto simp: lockersOf_def intro!: exI [of _ "[]"])
next
  case (Cons it xs)
  show ?case
  proof (cases "it = r")
    case True
    obtain os where "scanGranted wr R r xs True acc = Some (queuedBy wr os acc)"
      "set os = lockersOf wr R {it \<in> set xs. it \<noteq> r \<and> inWay R r (True \<or> it \<in> set (dropWhile (\<lambda>x. x \<noteq> r) xs)) it}"
      using Cons.IH [of True acc] Cons.prems by auto
    moreover have "{it' \<in> set (it # xs). it' \<noteq> r \<and> inWay R r (seen \<or> it' \<in> set (dropWhile (\<lambda>x. x \<noteq> r) (it # xs))) it'} =
        {it \<in> set xs. it \<noteq> r \<and> inWay R r True it}"
      using True Cons.prems by auto
    ultimately show ?thesis using True by (intro exI [of _ os]) simp
  next
    case False
    let ?os = "if inWay R r seen it \<and> isValid (wr (locker (R it))) then [locker (R it)] else []"
    let ?A = "{it \<in> set xs. it \<noteq> r \<and> inWay R r (seen \<or> it \<in> set (dropWhile (\<lambda>x. x \<noteq> r) xs)) it}"
    obtain os where run: "scanGranted wr R r xs seen (queuedBy wr ?os acc) = Some (queuedBy wr os (queuedBy wr ?os acc))"
      and os: "set os = lockersOf wr R ?A"
      using Cons.IH [of seen "queuedBy wr ?os acc"] Cons.prems by auto
    have "scanGranted wr R r (it # xs) seen acc = scanGranted wr R r xs seen (queuedBy wr ?os acc)"
      using st False by (auto simp: addOwner_queuedBy inWay_def)
    moreover have "it \<notin> set (dropWhile (\<lambda>x. x \<noteq> r) xs)" using Cons.prems set_dropWhileD by fastforce
    then have "{it' \<in> set (it # xs). it' \<noteq> r \<and> inWay R r (seen \<or> it' \<in> set (dropWhile (\<lambda>x. x \<noteq> r) (it # xs))) it'} =
        (if inWay R r seen it then insert it ?A else ?A)"
      using False by auto
    ultimately show ?thesis
      using run os by (intro exI [of _ "?os @ os"]) (simp add: queuedBy_queuedBy lockersOf_insert)
  qed
qed

lemma scanWaiting_run:
  assumes "r \<notin> set xs"
  shows "\<exists>os. scanWaiting wr R r xs acc = Some (queuedBy wr os acc) \<and>
    set os = lockersOf wr R {it \<in> set xs. incompatible (mode (R r)) (mode (R it))}"
  using assms
proof (induction xs arbitrary: acc)
  case Nil
  then show ?case by (auto simp: lockersOf_def intro!: exI [of _ "[]"])
next
  case (Cons it xs)
  let ?os = "if incompatible (mode (R r)) (mode (R it)) \<and> isValid (wr (locker (R it))) then [locker (R it)] else []"
  let ?A = "{it \<in> set xs. incompatible (mode (R r)) (mode (R it))}"
  obtain os where run: "scanWaiting wr R r xs (queuedBy wr ?os acc) = Some (queuedBy wr os (queuedBy wr ?os acc))"
    and os: "set os = lockersOf wr R ?A"
    using Cons.IH [of "queuedBy wr ?os acc"] Cons.prems by auto
  have "scanWaiting wr R r (it # xs) acc = scanWaiting wr R r xs (queuedBy wr ?os acc)"
    using Cons.prems by (auto simp: addOwner_queuedBy)
  moreover have "{it' \<in> set (it # xs). incompatible (mode (R r)) (mode (R it'))} =
      (if incompatible (mode (R r)) (mode (R it)) then insert it ?A else ?A)" by auto
  ultimately show ?case
    using run os by (intro exI [of _ "?os @ os"]) (simp add: queuedBy_queuedBy lockersOf_insert)
qed

lemma dropWhile_rev:
  assumes "distinct xs" and "r \<in> set xs"
  shows "set (dropWhile (\<lambda>x. x \<noteq> r) (rev xs)) = insert r (set (takeWhile (\<lambda>x. x \<noteq> r) xs))"
proof -
  from split_list [OF assms(2)] obtain ys zs where xs: "xs = ys @ r # zs" by blast
  with assms(1) have "r \<notin> set ys" "r \<notin> set zs" by auto
  then show ?thesis by (simp add: xs dropWhile_append takeWhile_append)
qed

lemma pendingRequest_facts:
  assumes inv: "lm_inv s" and p: "pendingRequest wr s l = Some (h, r)"
  shows "headOf s (wr l) = Some h" "findRequest l h (requests s) = Some r" "locker (requests s r) = l"
    "distinct (grantedList h)" "distinct (conflictList h)"
    "status (requests s r) = STATUS_CONVERTING \<and> r \<in> set (grantedList h) \<or>
     status (requests s r) = STATUS_WAITING \<and> r \<in> set (conflictList h)"
proof -
  show h: "headOf s (wr l) = Some h" and f: "findRequest l h (requests s) = Some r"
    using p by (auto simp: pendingRequest_def run_simps split: if_splits)
  have st: "status (requests s r) \<noteq> STATUS_GRANTED"
    using p by (auto simp: pendingRequest_def run_simps split: if_splits)
  have wf: "head_wf (requests s) h" using lm_inv_head [OF inv h] by (simp add: headed_ok_def head_inv_def)
  then show "distinct (grantedList h)" "distinct (conflictList h)" by (simp_all add: head_wf_def)
  have r: "r \<in> queued h" and loc: "locker (requests s r) = l"
    using f by (auto simp: findRequest_def find_Some_iff split: option.splits)
  show "locker (requests s r) = l" by (rule loc)
  show "status (requests s r) = STATUS_CONVERTING \<and> r \<in> set (grantedList h) \<or>
      status (requests s r) = STATUS_WAITING \<and> r \<in> set (conflictList h)"
    using r wf st by (auto simp: head_wf_def granted_ok_def waiting_ok_def)
qed

lemma processNextNode_idle:
  assumes "pendingRequest wr s l = None"
  shows "processNextNode wr s (l, wr l) d = Some d"
  using assms by (auto simp: pendingRequest_def processNextNode_def Let_def split: option.splits if_splits)

lemma processNextNode_seen:
  assumes "lm_inv s" and "pendingRequest wr s l = Some (h, r)" and "waitForGraph d l \<noteq> None"
  shows "processNextNode wr s (l, wr l) d =
    Some (if foundCycle d then d else d\<lparr>foundCycle := (l = initialLockerId d)\<rparr>)"
  using pendingRequest_facts [OF assms(1,2)] assms(3) by (auto simp: processNextNode_def)

lemma processNextNode_new:
  assumes inv: "lm_inv s" and p: "pendingRequest wr s l = Some (h, r)" and new: "waitForGraph d l = None"
    and valid: "isValid (wr l)"
  shows "\<exists>os. processNextNode wr s (l, wr l) d =
      Some (d\<lparr>unprocessed := rev (map (\<lambda>l. (l, wr l)) os) @ unprocessed d,
              waitForGraph := (waitForGraph d)(l \<mapsto> \<lparr>edgesResId = wr l, owners = os\<rparr>)\<rparr>) \<and>
    set os = {l'. (l, l') \<in> waitsFor wr s}"
proof -
  note facts = pendingRequest_facts [OF inv p]
  let ?R = "requests s"
  have st: "status (?R r) \<in> {STATUS_WAITING, STATUS_CONVERTING}" using facts(6) by auto
  obtain os where run: "scanGranted wr ?R r (rev (grantedList h)) False (unprocessed d, []) =
      Some (queuedBy wr os (unprocessed d, []))"
    and os: "set os = lockersOf wr ?R {it \<in> set (rev (grantedList h)). it \<noteq> r \<and>
      inWay ?R r (False \<or> it \<in> set (dropWhile (\<lambda>x. x \<noteq> r) (rev (grantedList h)))) it}"
    using scanGranted_run [where R = ?R and r = r and xs = "rev (grantedList h)" and wr = wr and seen = False
      and acc = "(unprocessed d, [])", OF st] facts(4) by auto
  have "r \<notin> set (before r (conflictList h))" by (auto simp: before_def dest: set_takeWhileD)
  from scanWaiting_run [OF this, of wr ?R "queuedBy wr os (unprocessed d, [])"] obtain os' where
    run': "scanWaiting wr ?R r (before r (conflictList h)) (queuedBy wr os (unprocessed d, [])) =
      Some (queuedBy wr os' (queuedBy wr os (unprocessed d, [])))"
    and os': "set os' = lockersOf wr ?R {it \<in> set (before r (conflictList h)). incompatible (mode (?R r)) (mode (?R it))}"
    by blast
  have edges: "(l, l') \<in> waitsFor wr s \<longleftrightarrow> l' \<in> lockersOf wr ?R {it. obstructs ?R h r it}" for l'
    using p valid by (auto simp: waitsFor_def lockersOf_def)
  show ?thesis
  proof (cases "status (?R r) = STATUS_WAITING")
    case True
    have "set (os @ os') = lockersOf wr ?R {it. obstructs ?R h r it}"
      using True by (auto simp: os os' lockersOf_def obstructs_def inWay_def before_def)
    then have "set (os @ os') = {l'. (l, l') \<in> waitsFor wr s}" by (simp add: edges)
    moreover have "processNextNode wr s (l, wr l) d =
        Some (d\<lparr>unprocessed := rev (map (\<lambda>l. (l, wr l)) (os @ os')) @ unprocessed d,
                waitForGraph := (waitForGraph d)(l \<mapsto> \<lparr>edgesResId = wr l, owners = os @ os'\<rparr>)\<rparr>)"
      using facts(1,2) True new run run' by (simp add: processNextNode_def queuedBy_def)
    ultimately show ?thesis by blast
  next
    case False
    then have r: "status (?R r) = STATUS_CONVERTING" "r \<in> set (grantedList h)" using facts(6) by auto
    have "set os = lockersOf wr ?R {it. obstructs ?R h r it}"
      using r by (auto simp: os lockersOf_def obstructs_def inWay_def dropWhile_rev [OF facts(4) r(2)]
          dest: set_takeWhileD)
    then have "set os = {l'. (l, l') \<in> waitsFor wr s}" by (simp add: edges)
    moreover have "processNextNode wr s (l, wr l) d =
        Some (d\<lparr>unprocessed := rev (map (\<lambda>l. (l, wr l)) os) @ unprocessed d,
                waitForGraph := (waitForGraph d)(l \<mapsto> \<lparr>edgesResId = wr l, owners = os\<rparr>)\<rparr>)"
      using facts(1,2) r(1) new run by (simp add: processNextNode_def queuedBy_def)
    ultimately show ?thesis by blast
  qed
qed

subsection \<open>The search\<close>

text \<open>The state of the search: everything visited or queued is reached from the initial locker,
  and what a visited locker waits for is visited, queued or does not wait any more. A second visit
  to the initial locker is still to come, or was recorded.\<close>

definition pendingLockers :: "(LockerId \<Rightarrow> ResourceId) \<Rightarrow> LockManager \<Rightarrow> LockerId set" where
  "pendingLockers wr s = {l. pendingRequest wr s l \<noteq> None}"

definition search_ok ::
  "(LockerId \<Rightarrow> ResourceId) \<Rightarrow> LockerId rel \<Rightarrow> LockerId set \<Rightarrow> LockerId \<Rightarrow> LockerId set \<Rightarrow> UnprocessedNode list \<Rightarrow> bool \<Rightarrow> bool" where
  "search_ok wr W P l0 G Q found \<longleftrightarrow>
     (\<forall>l res. (l, res) \<in> set Q \<longrightarrow> res = wr l \<and> isValid res) \<and>
     (\<forall>l\<in>G. l \<in> P \<and> (l0, l) \<in> W\<^sup>*) \<and>
     (\<forall>l\<in>G. \<forall>l'\<in>P. (l, l') \<in> W \<longrightarrow> l' \<in> G \<or> l' \<in> fst ` set Q) \<and>
     (\<forall>l\<in>G. (l, l0) \<in> W \<longrightarrow> found \<or> l0 \<in> fst ` set Q) \<and>
     (found \<longrightarrow> (l0, l0) \<in> W\<^sup>+) \<and>
     (l0 \<in> G \<longrightarrow> (\<forall>l\<in>fst ` set Q. (l0, l) \<in> W\<^sup>+)) \<and>
     (l0 \<notin> G \<longrightarrow> G = {} \<and> (Q = [] \<or> Q = [(l0, wr l0)]) \<and> (isValid (wr l0) \<and> l0 \<in> P \<longrightarrow> Q \<noteq> []))"

lemma search_okD:
  assumes "search_ok wr W P l0 G Q found"
  shows "(l, res) \<in> set Q \<Longrightarrow> res = wr l \<and> isValid res"
    and "l \<in> G \<Longrightarrow> l \<in> P" and "l \<in> G \<Longrightarrow> (l0, l) \<in> W\<^sup>*"
    and "l \<in> G \<Longrightarrow> (l, l') \<in> W \<Longrightarrow> l' \<in> P \<Longrightarrow> l' \<in> G \<or> l' \<in> fst ` set Q"
    and "l \<in> G \<Longrightarrow> (l, l0) \<in> W \<Longrightarrow> found \<or> l0 \<in> fst ` set Q"
    and "found \<Longrightarrow> (l0, l0) \<in> W\<^sup>+"
    and "l0 \<in> G \<Longrightarrow> l \<in> fst ` set Q \<Longrightarrow> (l0, l) \<in> W\<^sup>+"
    and "l0 \<notin> G \<Longrightarrow> G = {}" and "l0 \<notin> G \<Longrightarrow> Q = [] \<or> Q = [(l0, wr l0)]"
    and "l0 \<notin> G \<Longrightarrow> isValid (wr l0) \<Longrightarrow> l0 \<in> P \<Longrightarrow> Q \<noteq> []"
proof -
  note ok = assms [unfolded search_ok_def]
  show "(l, res) \<in> set Q \<Longrightarrow> res = wr l \<and> isValid res"
    using conjunct1 [OF ok] by blast
  note ok = conjunct2 [OF ok]
  show "l \<in> G \<Longrightarrow> l \<in> P" "l \<in> G \<Longrightarrow> (l0, l) \<in> W\<^sup>*"
    using conjunct1 [OF ok] by blast+
  note ok = conjunct2 [OF ok]
  show "l \<in> G \<Longrightarrow> (l, l') \<in> W \<Longrightarrow> l' \<in> P \<Longrightarrow> l' \<in> G \<or> l' \<in> fst ` set Q"
    using conjunct1 [OF ok] by simp
  note ok = conjunct2 [OF ok]
  show "l \<in> G \<Longrightarrow> (l, l0) \<in> W \<Longrightarrow> found \<or> l0 \<in> fst ` set Q"
    using conjunct1 [OF ok] by blast
  note ok = conjunct2 [OF ok]
  show "found \<Longrightarrow> (l0, l0) \<in> W\<^sup>+"
    using conjunct1 [OF ok] by simp
  note ok = conjunct2 [OF ok]
  show "l0 \<in> G \<Longrightarrow> l \<in> fst ` set Q \<Longrightarrow> (l0, l) \<in> W\<^sup>+"
    using conjunct1 [OF ok] by blast
  show "l0 \<notin> G \<Longrightarrow> G = {}" "l0 \<notin> G \<Longrightarrow> Q = [] \<or> Q = [(l0, wr l0)]"
    "l0 \<notin> G \<Longrightarrow> isValid (wr l0) \<Longrightarrow> l0 \<in> P \<Longrightarrow> Q \<noteq> []"
    using conjunct2 [OF ok] by simp_all
qed

lemma search_okI:
  assumes "\<And>l res. (l, res) \<in> set Q \<Longrightarrow> res = wr l \<and> isValid res"
    and "\<And>l. l \<in> G \<Longrightarrow> l \<in> P" and "\<And>l. l \<in> G \<Longrightarrow> (l0, l) \<in> W\<^sup>*"
    and "\<And>l l'. l \<in> G \<Longrightarrow> (l, l') \<in> W \<Longrightarrow> l' \<in> P \<Longrightarrow> l' \<in> G \<or> l' \<in> fst ` set Q"
    and "\<And>l. l \<in> G \<Longrightarrow> (l, l0) \<in> W \<Longrightarrow> found \<or> l0 \<in> fst ` set Q"
    and "found \<Longrightarrow> (l0, l0) \<in> W\<^sup>+"
    and "l0 \<in> G" and "\<And>l. l \<in> fst ` set Q \<Longrightarrow> (l0, l) \<in> W\<^sup>+"
  shows "search_ok wr W P l0 G Q found"
  unfolding search_ok_def using assms(7) by (intro conjI allI ballI impI; use assms in meson)

definition search_inv :: "(LockerId \<Rightarrow> ResourceId) \<Rightarrow> LockManager \<Rightarrow> DeadlockDetector \<Rightarrow> bool" where
  "search_inv wr s d = search_ok wr (waitsFor wr s) (pendingLockers wr s) (initialLockerId d)
     (dom (waitForGraph d)) (unprocessed d) (foundCycle d)"

lemma search_inv_newDetector: "search_inv wr s (newDetector wr l)"
  by (simp add: search_inv_def search_ok_def newDetector_def)

text \<open>The three things that can happen to the first node.\<close>

lemma search_idle:
  assumes ok: "search_ok wr W P l0 G ((l, wr l) # Q) found" and l: "l \<notin> P"
  shows "search_ok wr W P l0 G Q found"
proof (cases "l0 \<in> G")
  case True
  then have "l \<noteq> l0" using search_okD(2) [OF ok] l by blast
  show ?thesis
  proof (rule search_okI)
    show "l' \<in> G \<or> l' \<in> fst ` set Q" if "x \<in> G" "(x, l') \<in> W" "l' \<in> P" for x l'
      using search_okD(4) [OF ok that] that l by auto
    show "found \<or> l0 \<in> fst ` set Q" if "x \<in> G" "(x, l0) \<in> W" for x
      using search_okD(5) [OF ok that] \<open>l \<noteq> l0\<close> by simp
    show "res = wr x \<and> isValid res" if "(x, res) \<in> set Q" for x res
      using that by (intro search_okD(1) [OF ok]) simp
    show "(l0, x) \<in> W\<^sup>+" if "x \<in> fst ` set Q" for x
      using that by (intro search_okD(7) [OF ok True]) simp
  qed (auto intro: True search_okD(2,3,6) [OF ok])
next
  case False
  then show ?thesis using ok l by (simp add: search_ok_def)
qed

lemma search_seen:
  assumes ok: "search_ok wr W P l0 G ((l, wr l) # Q) found" and l: "l \<in> G"
  shows "search_ok wr W P l0 G Q (found \<or> l = l0)"
proof (rule search_okI)
  show G: "l0 \<in> G" using search_okD(8) [OF ok] l by blast
  show "l' \<in> G \<or> l' \<in> fst ` set Q" if "x \<in> G" "(x, l') \<in> W" "l' \<in> P" for x l'
    using search_okD(4) [OF ok that] l by auto
  show "(found \<or> l = l0) \<or> l0 \<in> fst ` set Q" if "x \<in> G" "(x, l0) \<in> W" for x
    using search_okD(5) [OF ok that] by auto
  show "(l0, l0) \<in> W\<^sup>+" if "found \<or> l = l0"
    using that search_okD(6) [OF ok] search_okD(7) [OF ok G, of l] by auto
  show "res = wr x \<and> isValid res" if "(x, res) \<in> set Q" for x res
    using that by (intro search_okD(1) [OF ok]) simp
  show "(l0, x) \<in> W\<^sup>+" if "x \<in> fst ` set Q" for x
    using that by (intro search_okD(7) [OF ok G]) simp
qed (auto intro: search_okD(2,3) [OF ok])

lemma search_new:
  assumes ok: "search_ok wr W P l0 G ((l, wr l) # Q) found" and P: "l \<in> P" and "l \<notin> G"
    and os: "set os = {l'. (l, l') \<in> W}" and valid: "\<And>l'. (l, l') \<in> W \<Longrightarrow> isValid (wr l')"
  shows "search_ok wr W P l0 (insert l G) (rev (map (\<lambda>l. (l, wr l)) os) @ Q) found"
proof -
  define R where "R = rev (map (\<lambda>l. (l, wr l)) os) @ Q"
  have first: "G = {} \<and> l = l0 \<and> Q = []" if "l0 \<notin> G"
    using search_okD(8,9) [OF ok that] by simp
  have l: "(l0, l) \<in> W\<^sup>*"
    using search_okD(7) [OF ok, of l] first by (cases "l0 \<in> G") (auto intro: trancl_into_rtrancl)
  have set_Q: "x \<in> fst ` set R \<longleftrightarrow> (l, x) \<in> W \<or> x \<in> fst ` set Q" for x
    using os by (force simp: R_def image_iff)
  show ?thesis
    unfolding R_def [symmetric]
  proof (rule search_okI)
    show "res = wr x \<and> isValid res" if "(x, res) \<in> set R" for x res
      using that search_okD(1) [OF ok, of x res] os valid [of x] by (auto simp: R_def)
    show "x \<in> P" "(l0, x) \<in> W\<^sup>*" if "x \<in> insert l G" for x
      using that P l search_okD(2,3) [OF ok, of x] by auto
    show "l' \<in> insert l G \<or> l' \<in> fst ` set R" if "x \<in> insert l G" "(x, l') \<in> W" "l' \<in> P" for x l'
      using that search_okD(4) [OF ok _ that(2,3)] by (auto simp: set_Q)
    show "found \<or> l0 \<in> fst ` set R" if "x \<in> insert l G" "(x, l0) \<in> W" for x
      using that search_okD(5) [OF ok _ that(2)] first assms(3) by (auto simp: set_Q)
    show "(l0, l0) \<in> W\<^sup>+" if found using search_okD(6) [OF ok that] .
    show "l0 \<in> insert l G" using first by blast
    show "(l0, x) \<in> W\<^sup>+" if "x \<in> fst ` set R" for x
      using that l first search_okD(7) [OF ok _, of x]
      by (cases "l0 \<in> G") (auto simp: set_Q intro: rtrancl_into_trancl1)
  qed
qed

text \<open>What is left to do: lockers that wait and were not visited, then the queue.\<close>

definition searchMeasure :: "(LockerId \<Rightarrow> ResourceId) \<Rightarrow> LockManager \<Rightarrow> (DeadlockDetector \<times> DeadlockDetector) set" where
  "searchMeasure wr s = inv_image (less_than <*lex*> less_than)
     (\<lambda>d. (card (pendingLockers wr s - dom (waitForGraph d)), length (unprocessed d)))"

lemma wf_searchMeasure: "wf (searchMeasure wr s)"
  by (auto simp: searchMeasure_def)

lemma search_step:
  assumes inv: "lm_inv s" and fin: "finite (pendingLockers wr s)"
    and sinv: "search_inv wr s d" and q: "unprocessed d = n # queue"
  shows "\<exists>d'. processNextNode wr s n (d\<lparr>unprocessed := queue\<rparr>) = Some d' \<and> search_inv wr s d' \<and>
    initialLockerId d' = initialLockerId d \<and> (d', d) \<in> searchMeasure wr s"
proof -
  let ?d = "d\<lparr>unprocessed := queue\<rparr>"
  obtain l where n: "n = (l, wr l)" and valid: "isValid (wr l)"
    using sinv q by (cases n) (simp add: search_inv_def search_ok_def)
  have ok: "search_ok wr (waitsFor wr s) (pendingLockers wr s) (initialLockerId d) (dom (waitForGraph d)) ((l, wr l) # queue) (foundCycle d)"
    using sinv q n by (simp add: search_inv_def)
  show ?thesis
  proof (cases "pendingRequest wr s l")
    case None
    have "(?d, d) \<in> searchMeasure wr s" by (simp add: searchMeasure_def q)
    then show ?thesis using processNextNode_idle [OF None] search_idle [OF ok] None by (simp add: n search_inv_def pendingLockers_def)
  next
    case (Some hr)
    then obtain h r where pend: "pendingRequest wr s l = Some (h, r)" by (cases hr) auto
    show ?thesis
    proof (cases "l \<in> dom (waitForGraph d)")
      case True
      let ?d' = "if foundCycle d then ?d else ?d\<lparr>foundCycle := (l = initialLockerId d)\<rparr>"
      have "processNextNode wr s n ?d = Some ?d'"
        using processNextNode_seen [OF inv pend, of ?d] True by (auto simp: n)
      moreover have "search_inv wr s ?d'" using search_seen [OF ok True] by (cases "foundCycle d") (simp_all add: search_inv_def)
      moreover have "(?d', d) \<in> searchMeasure wr s" by (simp add: searchMeasure_def q)
      ultimately show ?thesis by simp
    next
      case False
      then obtain os where run: "processNextNode wr s n ?d =
          Some (?d\<lparr>unprocessed := rev (map (\<lambda>l. (l, wr l)) os) @ queue,
                  waitForGraph := (waitForGraph d)(l \<mapsto> \<lparr>edgesResId = wr l, owners = os\<rparr>)\<rparr>)"
        and os: "set os = {l'. (l, l') \<in> waitsFor wr s}"
        using processNextNode_new [OF inv pend _ valid, of ?d] by (auto simp: n)
      let ?d' = "?d\<lparr>unprocessed := rev (map (\<lambda>l. (l, wr l)) os) @ queue,
        waitForGraph := (waitForGraph d)(l \<mapsto> \<lparr>edgesResId = wr l, owners = os\<rparr>)\<rparr>"
      have "isValid (wr l')" if "(l, l') \<in> waitsFor wr s" for l' using that by (simp add: waitsFor_def)
      then have "search_inv wr s ?d'" using search_new [OF ok _ False os] pend by (simp add: search_inv_def pendingLockers_def)
      moreover have "pendingLockers wr s - dom (waitForGraph ?d') \<subset>
          pendingLockers wr s - dom (waitForGraph d)"
        using False pend by (auto simp: pendingLockers_def)
      then have "(?d', d) \<in> searchMeasure wr s"
        using psubset_card_mono [OF finite_Diff [OF fin]] by (simp add: searchMeasure_def)
      ultimately show ?thesis using run by simp
    qed
  qed
qed

lemma check_run:
  assumes inv: "lm_inv s" and fin: "finite (pendingLockers wr s)" and "search_inv wr s d"
  shows "\<exists>d'. check wr s d = Some d' \<and> search_inv wr s d' \<and> unprocessed d' = [] \<and> initialLockerId d' = initialLockerId d"
  using wf_searchMeasure [of wr s] assms(3)
proof (induction d rule: wf_induct_rule)
  case (less d)
  show ?case
  proof (cases "unprocessed d")
    case Nil
    then show ?thesis using less.prems by (subst check.simps) (simp add: nextNode_def)
  next
    case (Cons n queue)
    from search_step [OF inv fin less.prems Cons] obtain d' where
      run: "processNextNode wr s n (d\<lparr>unprocessed := queue\<rparr>) = Some d'" and d': "search_inv wr s d'"
      "initialLockerId d' = initialLockerId d" "(d', d) \<in> searchMeasure wr s" by blast
    show ?thesis
    proof (cases "unprocessed d' = []")
      case True
      then show ?thesis using run d' Cons by (subst check.simps) (simp add: nextNode_def)
    next
      case False
      then have "check wr s d = check wr s d'" using run Cons by (subst check.simps) (simp add: nextNode_def)
      then show ?thesis using less.IH [OF d'(3) d'(1)] d'(2) by auto
    qed
  qed
qed

lemma search_complete:
  assumes ok: "search_ok wr W P l0 G [] found" and W: "\<And>x y. (x, y) \<in> W \<Longrightarrow> x \<in> P \<and> isValid (wr x)"
  shows "found \<longleftrightarrow> (l0, l0) \<in> W\<^sup>+"
proof
  assume "(l0, l0) \<in> W\<^sup>+"
  then obtain l where path: "(l0, l) \<in> W\<^sup>*" and last: "(l, l0) \<in> W" by (auto dest: tranclD2)
  from path last obtain y where "(l0, y) \<in> W" by (metis converse_rtranclE)
  then have start: "l0 \<in> G" using W search_okD(10) [OF ok] by blast
  have "l' \<in> P \<longrightarrow> l' \<in> G" if "(l0, l') \<in> W\<^sup>*" for l'
    using that
  proof (induction rule: rtrancl_induct)
    case base
    then show ?case using start by simp
  next
    case (step y z)
    then show ?case using W search_okD(4) [OF ok, of y z] by auto
  qed
  then have "l \<in> G" using path last W by blast
  then show found using last search_okD(5) [OF ok] by simp
qed (rule search_okD(6) [OF ok])

lemma finite_pendingLockers:
  assumes "lm_inv s"
  shows "finite (pendingLockers wr s)"
proof (rule finite_subset)
  let ?on = "\<lambda>res. case headOf s res of None \<Rightarrow> {} | Some h \<Rightarrow> set (grantedList h) \<union> set (conflictList h)"
  show "finite ((\<lambda>r. locker (requests s r)) ` (\<Union>res\<in>UNIV. ?on res))"
    by (intro finite_imageI finite_UN_I) (auto split: option.split)
  show "pendingLockers wr s \<subseteq> (\<lambda>r. locker (requests s r)) ` (\<Union>res\<in>UNIV. ?on res)"
  proof
    fix l assume "l \<in> pendingLockers wr s"
    then obtain h r where pend: "pendingRequest wr s l = Some (h, r)" by (auto simp: pendingLockers_def)
    note facts = pendingRequest_facts [OF assms pend]
    then have "r \<in> ?on (wr l)" by auto
    then have "r \<in> (\<Union>res\<in>UNIV. ?on res)" by (rule UN_I [OF UNIV_I])
    then show "l \<in> (\<lambda>r. locker (requests s r)) ` (\<Union>res\<in>UNIV. ?on res)"
      using facts(3) by (intro image_eqI [of _ _ r]) simp_all
  qed
qed

subsection \<open>A deadlock of two conversions\<close>

text \<open>Both holders of S on a database ask for X.\<close>

definition sampleDb :: ResourceId where "sampleDb = 0x6000000000000005"
definition shared1 :: LockManager where "shared1 = snd (the (lock sampleDb 0 MODE_S sample0))"
definition shared2 :: LockManager where "shared2 = snd (the (lock sampleDb 1 MODE_S shared1))"
definition deadlock1 :: LockManager where "deadlock1 = snd (the (convert sampleDb 0 MODE_X shared2))"
definition deadlock2 :: LockManager where "deadlock2 = snd (the (convert sampleDb 1 MODE_X deadlock1))"

text \<open>The bucket of a 64-bit id, computed on words.\<close>

lemma getBucket_code [code]: "getBucket resId = unat (resId mod 128)"
  by (simp add: getBucket_def numLockBuckets_def unat_mod_distrib)

lemma shared_reachable: "reachable shared1" "reachable shared2"
proof -
  show "reachable shared1" unfolding shared1_def by (rule sample_lock [OF sample0_reachable]; code_simp)
  then show "reachable shared2" unfolding shared2_def by (rule sample_lock; code_simp)
qed

lemma sample_convert:
  assumes "reachable s" and "r \<in> set gl" and "status (requests s r) = STATUS_GRANTED"
    and "isModeCovered (mode (requests s r)) m" and "\<not> Option.is_none (convert res r m s)"
    and "map_option grantedList (headOf s res) = Some gl" "map_option conflictList (headOf s res) = Some cl"
  shows "reachable (snd (the (convert res r m s)))"
  using step.conversion [OF sample_head(2) [OF assms(6,7,2)] assms(3) _ the_Some [OF assms(5)]] assms(4)
  by (intro advance [OF assms(1)]) simp

lemma deadlock1_reachable: "reachable deadlock1"
  unfolding deadlock1_def by (rule sample_convert [OF shared_reachable(2), where gl = "[0, 1]" and cl = "[]"]; code_simp)

lemma deadlock2_reachable: "reachable deadlock2"
  unfolding deadlock2_def by (rule sample_convert [OF deadlock1_reachable, where gl = "[0, 1]" and cl = "[]"]; code_simp)

lemma deadlock2_check:
  "map_option hasCycle (check (\<lambda>_. sampleDb) deadlock2 (newDetector (\<lambda>_. sampleDb) 0)) = Some (Some True)"
  by code_simp

subsection \<open>Properties\<close>

text \<open>C14: Deadlock detection is total and exact: on every state the lock manager can reach, and
  whatever the lockers say they wait for, the loop of \<open>check\<close> ends with nothing left to process and
  \<open>hasCycle\<close> answers, without failing its invariant, whether the locker waits for itself in the
  transitive closure of the wait-for relation.\<close>

theorem deadlock_check:
  assumes "reachable s"
  shows "\<exists>d. check wr s (newDetector wr l) = Some d \<and> hasCycle d = Some ((l, l) \<in> (waitsFor wr s)\<^sup>+)"
proof -
  have inv: "lm_inv s" by (rule reachable_inv [OF assms])
  from check_run [OF inv finite_pendingLockers [OF inv] search_inv_newDetector]
  obtain d where d: "check wr s (newDetector wr l) = Some d" "search_inv wr s d" "unprocessed d = []" "initialLockerId d = l"
    by (auto simp: newDetector_def)
  have "foundCycle d \<longleftrightarrow> (l, l) \<in> (waitsFor wr s)\<^sup>+"
    using d by (intro search_complete [where wr = wr and P = "pendingLockers wr s" and G = "dom (waitForGraph d)"])
      (auto simp: search_inv_def waitsFor_def pendingLockers_def)
  then show ?thesis using d by (simp add: hasCycle_def)
qed

theorem deadlock_check_witness:
  "reachable deadlock2 \<and>
   map_option hasCycle (check (\<lambda>_. sampleDb) deadlock2 (newDetector (\<lambda>_. sampleDb) 0)) = Some (Some True) \<and>
   (0, 0) \<in> (waitsFor (\<lambda>_. sampleDb) deadlock2)\<^sup>+"
  using deadlock_check [OF deadlock2_reachable, of "\<lambda>_. sampleDb" 0] deadlock2_reachable deadlock2_check
  by auto

end
