(* ===== verification/BaseTypes.thy ===== *)
theory BaseTypes
  imports Prelude
begin

text \<open>
  The status of an operation, \<^verbatim>\<open>src/src/mongo/base/status.h\<close>, and the decimal form in which a stream
  prints an integer.
\<close>

datatype ErrorCode = BadValue | FailedToParse | ShutdownInProgress | NotSecondary | NodeNotFound | InvalidOptions
  | Unauthorized | AuthenticationFailed | HostUnreachable | ReplicaSetNotFound
  | InconsistentReplicaSetNames | InvalidReplicaSetConfig | CannotSatisfyWriteConcern
  | UnknownReplWriteConcern | NoSuchKey | StaleTerm | CallbackCanceled | NotMaster | ExceededTimeLimit
  | OperationFailed | NewReplicaSetConfigurationIncompatible | CannotInitializeNodeWithData | OtherError

text \<open>A status; the text of a message is left out.\<close>

datatype Status = StatusOK | StatusError ErrorCode

text \<open>Decimal digits, as a stream prints an integer.\<close>

fun natToString :: "nat \<Rightarrow> string" where
  "natToString n = (if n < 10 then [char_of (48 + n)] else natToString (n div 10) @ [char_of (48 + n mod 10)])"

definition intToString :: "int \<Rightarrow> string" where
  "intToString i = (if i < 0 then CHR ''-'' # natToString (nat (- i)) else natToString (nat i))"

subsection \<open>Lemmas\<close>

text \<open>The printed integer determines the integer.\<close>

definition digitsValue :: "string \<Rightarrow> nat" where
  "digitsValue s = foldl (\<lambda>n c. n * 10 + (of_char c - 48)) 0 s"

declare natToString.simps [simp del]

lemma digitsValue_natToString: "digitsValue (natToString n) = n"
proof (induction n rule: natToString.induct)
  case (1 n)
  show ?case
  proof (cases "n < 10")
    case True
    then show ?thesis by (subst natToString.simps) (simp add: digitsValue_def)
  next
    case False
    then have "digitsValue (natToString n) = digitsValue (natToString (n div 10)) * 10 + n mod 10"
      by (subst natToString.simps) (simp add: digitsValue_def)
    then show ?thesis using 1 False by simp
  qed
qed

lemma intToString_inj:
  assumes "0 \<le> i" and "0 \<le> j" and "intToString i = intToString j"
  shows "i = j"
proof -
  have "natToString (nat i) = natToString (nat j)" using assms by (simp add: intToString_def)
  then have "nat i = nat j" using digitsValue_natToString by metis
  then show ?thesis using assms by simp
qed

end
