(* ===== verification/ReplTypes.thy ===== *)
theory ReplTypes
  imports BaseTypes Complex_Main "HOL-Library.Signed_Division"
begin

text \<open>
  The values that the replication code of \<^verbatim>\<open>src/src/mongo/db/repl\<close> computes with: timestamps and
  optimes (\<^verbatim>\<open>bson/timestamp.h\<close>, \<^verbatim>\<open>optime.h\<close>), member states (\<^verbatim>\<open>member_state.h\<close>), network names
  (\<^verbatim>\<open>util/net/hostandport.h\<close>) and the last vote (\<^verbatim>\<open>last_vote.h\<close>).

  A timestamp is a pair of 32-bit unsigned words and is linearly ordered. An optime adds a term;
  its comparison in the code looks at the timestamps alone as soon as one of the two terms is the
  uninitialized one, so that it is a linear order only among optimes of one protocol version:
  \<open>opTime_less_mixed\<close> shows that it is not transitive in general.

  Dates and durations are milliseconds as unbounded integers, terms and config versions unbounded
  integers. A priority is a double: the model has rational numbers, the infinities and NaN, on
  which every comparison is false.
\<close>

type_synonym Date_t = int
type_synonym Milliseconds = int
type_synonym Term = int

subsection \<open>Timestamps\<close>

datatype Timestamp = Timestamp (getSecs: "32 word") (getInc: "32 word")

instantiation Timestamp :: linorder
begin

definition less_eq_Timestamp :: "Timestamp \<Rightarrow> Timestamp \<Rightarrow> bool" where
  "a \<le> b \<longleftrightarrow> getSecs a < getSecs b \<or> getSecs a = getSecs b \<and> getInc a \<le> getInc b"

definition less_Timestamp :: "Timestamp \<Rightarrow> Timestamp \<Rightarrow> bool" where
  "a < b \<longleftrightarrow> getSecs a < getSecs b \<or> getSecs a = getSecs b \<and> getInc a < getInc b"

instance
  by standard (auto simp: less_eq_Timestamp_def less_Timestamp_def intro: Timestamp.expand)

end

definition Timestamp_isNull :: "Timestamp \<Rightarrow> bool" where
  "Timestamp_isNull ts \<longleftrightarrow> getSecs ts = 0"

text \<open>\<open>asULL\<close> and the constructor from a 64-bit integer.\<close>

definition Timestamp_asULL :: "Timestamp \<Rightarrow> 64 word" where
  "Timestamp_asULL ts = push_bit 32 (ucast (getSecs ts)) OR ucast (getInc ts)"

definition Timestamp_fromULL :: "64 word \<Rightarrow> Timestamp" where
  "Timestamp_fromULL v = Timestamp (ucast (drop_bit 32 v)) (ucast v)"

subsection \<open>Optimes\<close>

definition kUninitializedTerm :: Term where "kUninitializedTerm = - 1"
definition kInitialTerm :: Term where "kInitialTerm = 0"

datatype OpTime = OpTime (getTimestamp: Timestamp) (getTerm: Term)

definition nullOpTime :: OpTime where
  "nullOpTime = OpTime (Timestamp 0 0) kUninitializedTerm"

definition OpTime_getSecs :: "OpTime \<Rightarrow> int" where
  "OpTime_getSecs t = uint (getSecs (getTimestamp t))"

definition OpTime_isNull :: "OpTime \<Rightarrow> bool" where
  "OpTime_isNull t = Timestamp_isNull (getTimestamp t)"

definition OpTime_eq :: "OpTime \<Rightarrow> OpTime \<Rightarrow> bool" where
  "OpTime_eq a b =
     (if getTerm a = kUninitializedTerm \<or> getTerm b = kUninitializedTerm
      then getTimestamp a = getTimestamp b
      else getTerm a = getTerm b \<and> getTimestamp a = getTimestamp b)"

definition OpTime_less :: "OpTime \<Rightarrow> OpTime \<Rightarrow> bool" where
  "OpTime_less a b =
     (if getTerm a = kUninitializedTerm \<or> getTerm b = kUninitializedTerm
      then getTimestamp a < getTimestamp b
      else getTerm a < getTerm b \<or> getTerm a = getTerm b \<and> getTimestamp a < getTimestamp b)"

definition OpTime_le :: "OpTime \<Rightarrow> OpTime \<Rightarrow> bool" where
  "OpTime_le a b \<longleftrightarrow> OpTime_less a b \<or> OpTime_eq a b"

definition OpTime_greater :: "OpTime \<Rightarrow> OpTime \<Rightarrow> bool" where
  "OpTime_greater a b \<longleftrightarrow> \<not> OpTime_le a b"

definition OpTime_ge :: "OpTime \<Rightarrow> OpTime \<Rightarrow> bool" where
  "OpTime_ge a b \<longleftrightarrow> \<not> OpTime_less a b"

subsection \<open>Member states\<close>

datatype MemberState = RS_STARTUP | RS_PRIMARY | RS_SECONDARY | RS_RECOVERING | RS_STARTUP2
  | RS_UNKNOWN | RS_ARBITER | RS_DOWN | RS_ROLLBACK | RS_REMOVED

definition readable :: "MemberState \<Rightarrow> bool" where
  "readable s \<longleftrightarrow> s = RS_PRIMARY \<or> s = RS_SECONDARY"

subsection \<open>Network names\<close>

text \<open>A port of -1 stands for the default port, also when two names are compared. A map keyed by
  network names is keyed by \<open>hostKey\<close>.\<close>

datatype HostAndPort = HostAndPort (hostName: string) (portNumber: int)

definition DefaultDBPort :: int where "DefaultDBPort = 27017"

definition noHost :: HostAndPort where "noHost = HostAndPort '''' (- 1)"

definition hasPort :: "HostAndPort \<Rightarrow> bool" where
  "hasPort h \<longleftrightarrow> portNumber h \<ge> 0"

definition port :: "HostAndPort \<Rightarrow> int" where
  "port h = (if hasPort h then portNumber h else DefaultDBPort)"

type_synonym HostKey = "string \<times> int"

definition hostKey :: "HostAndPort \<Rightarrow> HostKey" where
  "hostKey h = (hostName h, port h)"

definition HostAndPort_eq :: "HostAndPort \<Rightarrow> HostAndPort \<Rightarrow> bool" where
  "HostAndPort_eq a b \<longleftrightarrow> hostName a = hostName b \<and> port a = port b"

definition HostAndPort_empty :: "HostAndPort \<Rightarrow> bool" where
  "HostAndPort_empty h \<longleftrightarrow> hostName h = '''' \<and> portNumber h < 0"

definition isLocalHost :: "HostAndPort \<Rightarrow> bool" where
  "isLocalHost h \<longleftrightarrow> hostName h = ''localhost'' \<or> take 4 (hostName h) = ''127.'' \<or>
     hostName h = ''::1'' \<or> hostName h = ''anonymous unix socket'' \<or> take 1 (hostName h) = ''/''"

definition HostAndPort_toString :: "HostAndPort \<Rightarrow> string" where
  "HostAndPort_toString h =
     (if CHR '':'' \<in> set (hostName h) then ''['' @ hostName h @ '']'' else hostName h) @ '':'' @ intToString (port h)"

subsection \<open>Doubles\<close>

datatype double = NaN | NegInf | Finite rat | PosInf

fun double_less :: "double \<Rightarrow> double \<Rightarrow> bool" where
  "double_less (Finite a) (Finite b) = (a < b)"
| "double_less NegInf (Finite b) = True"
| "double_less (Finite a) PosInf = True"
| "double_less NegInf PosInf = True"
| "double_less _ _ = False"

definition double_eq :: "double \<Rightarrow> double \<Rightarrow> bool" where
  "double_eq a b \<longleftrightarrow> a = b \<and> a \<noteq> NaN"

definition double_le :: "double \<Rightarrow> double \<Rightarrow> bool" where
  "double_le a b \<longleftrightarrow> double_less a b \<or> double_eq a b"

subsection \<open>Votes\<close>

record LastVote =
  lvTerm :: Term
  lvCandidateIndex :: int

definition noVote :: LastVote where
  "noVote = \<lparr>lvTerm = - 1, lvCandidateIndex = - 1\<rparr>"

subsection \<open>Lemmas\<close>

named_theorems optime_defs

lemmas [optime_defs] = OpTime_eq_def OpTime_less_def OpTime_le_def OpTime_greater_def OpTime_ge_def

text \<open>Optimes are comparable if they stem from the same protocol version.\<close>

definition sameProtocol :: "OpTime \<Rightarrow> OpTime \<Rightarrow> bool" where
  "sameProtocol a b \<longleftrightarrow> (getTerm a = kUninitializedTerm \<longleftrightarrow> getTerm b = kUninitializedTerm)"

lemma OpTime_irrefl [simp]: "\<not> OpTime_less a a"
  by (simp add: OpTime_less_def)

lemma OpTime_le_refl [simp]: "OpTime_le a a"
  by (simp add: OpTime_le_def OpTime_eq_def)

lemma OpTime_trans:
  assumes "OpTime_less a b" and "OpTime_less b c" and "sameProtocol a b" and "sameProtocol b c"
  shows "OpTime_less a c"
  using assms by (auto simp: OpTime_less_def sameProtocol_def split: if_splits)

lemma OpTime_le_iff: "OpTime_le a b \<longleftrightarrow> \<not> OpTime_less b a"
proof (cases "getTerm a = kUninitializedTerm \<or> getTerm b = kUninitializedTerm")
  case True
  then show ?thesis
    unfolding OpTime_le_def OpTime_less_def OpTime_eq_def by (simp add: linorder_not_less order_le_less disj_commute)
next
  case False
  then show ?thesis
    unfolding OpTime_le_def OpTime_less_def OpTime_eq_def
    by (cases "getTerm a" "getTerm b" rule: linorder_cases) (simp_all add: linorder_not_less order_le_less)
qed

lemma OpTime_linear: "OpTime_less a b \<or> OpTime_eq a b \<or> OpTime_less b a"
  using OpTime_le_iff [of a b] by (auto simp: OpTime_le_def)

lemma OpTime_greater_iff: "OpTime_greater a b \<longleftrightarrow> OpTime_less b a"
  by (simp add: OpTime_greater_def OpTime_le_iff)

lemma OpTime_eq_same: "sameProtocol a b \<Longrightarrow> OpTime_eq a b \<longleftrightarrow> a = b \<or>
    getTerm a = kUninitializedTerm \<and> getTimestamp a = getTimestamp b"
  by (cases a; cases b) (auto simp: OpTime_eq_def sameProtocol_def)

lemma sameProtocol_sym: "sameProtocol a b \<longleftrightarrow> sameProtocol b a"
  by (auto simp: sameProtocol_def)

lemma sameProtocol_trans: "sameProtocol a b \<Longrightarrow> sameProtocol b c \<Longrightarrow> sameProtocol a c"
  by (simp add: sameProtocol_def)

lemma OpTime_le_trans:
  assumes "OpTime_le a b" and "OpTime_le b c" and "sameProtocol a b" and "sameProtocol b c"
  shows "OpTime_le a c"
  using assms by (auto simp: OpTime_le_def OpTime_less_def OpTime_eq_def sameProtocol_def split: if_splits)

text \<open>Across protocol versions the comparison is not transitive.\<close>

lemma opTime_less_mixed:
  defines "a \<equiv> OpTime (Timestamp 10 0) 1" and "b \<equiv> OpTime (Timestamp 5 0) 2"
    and "c \<equiv> OpTime (Timestamp 7 0) kUninitializedTerm"
  shows "OpTime_less a b \<and> OpTime_less b c \<and> \<not> OpTime_less a c"
  unfolding assms by code_simp

lemma HostAndPort_eq_iff: "HostAndPort_eq a b \<longleftrightarrow> hostKey a = hostKey b"
  by (simp add: HostAndPort_eq_def hostKey_def)

lemma double_less_irrefl [simp]: "\<not> double_less a a"
  by (cases a) simp_all

lemma double_less_trans: "double_less a b \<Longrightarrow> double_less b c \<Longrightarrow> double_less a c"
  by (cases a; cases b; cases c) auto

lemma double_le_iff: "a \<noteq> NaN \<Longrightarrow> b \<noteq> NaN \<Longrightarrow> double_le a b \<longleftrightarrow> \<not> double_less b a"
  by (cases a; cases b) (auto simp: double_le_def double_eq_def)

lemma double_not_less_trans:
  "\<not> double_less a b \<Longrightarrow> \<not> double_less b c \<Longrightarrow> b \<noteq> NaN \<Longrightarrow> \<not> double_less a c"
  by (cases a; cases b; cases c) auto

end
