(* ===== verification/ParseNumber.thy ===== *)
theory ParseNumber
  imports BaseTypes "HOL-Library.Signed_Division"
begin

text \<open>
  Reading integers, \<^verbatim>\<open>src/src/mongo/base/parse_number.cpp\<close>. The template over the number type is a
  definition over the least and the greatest value of the type, which is signed if the former is
  negative. The loop rejects a digit that would take the number out of this range, so that no
  intermediate result overflows; the proofs show that it accepts exactly the strings of digits whose
  value is in range, and that it reads back every integer that a stream prints.
\<close>

subsection \<open>The parser\<close>

definition digitValue :: "char \<Rightarrow> int" where
  "digitValue c =
     (let n = of_char c :: int
      in if 48 \<le> n \<and> n \<le> 57 then n - 48
         else if 97 \<le> n \<and> n \<le> 122 then n - 97 + 10
         else if 65 \<le> n \<and> n \<le> 90 then n - 65 + 10
         else 36)"

definition extractSign :: "string \<Rightarrow> string \<times> bool" where
  "extractSign s =
     (case s of [] \<Rightarrow> (s, False)
      | c # cs \<Rightarrow> if c = CHR ''-'' then (cs, True) else if c = CHR ''+'' then (cs, False) else (s, False))"

definition hasHexPrefix :: "string \<Rightarrow> bool" where
  "hasHexPrefix s \<longleftrightarrow> take 2 s = ''0x'' \<or> take 2 s = ''0X''"

definition extractBase :: "string \<Rightarrow> int \<Rightarrow> string \<times> int" where
  "extractBase s inputBase =
     (if inputBase = 0
      then if length s > 2 \<and> hasHexPrefix s then (drop 2 s, 16)
           else if length s > 1 \<and> hd s = CHR ''0'' then (s, 8)
           else (s, 10)
      else if inputBase = 16 \<and> hasHexPrefix s then (drop 2 s, inputBase)
      else (s, inputBase))"

text \<open>The two loops; \<open>lo\<close> and \<open>hi\<close> are the limits of the type.\<close>

fun parseNegative :: "int \<Rightarrow> int \<Rightarrow> string \<Rightarrow> int \<Rightarrow> ErrorCode + int" where
  "parseNegative lo base [] n = Inr n"
| "parseNegative lo base (c # cs) n =
     (if digitValue c \<ge> base then Inl FailedToParse
      else if lo sdiv base > n \<or> lo - n * base > - digitValue c then Inl FailedToParse
      else parseNegative lo base cs (n * base - digitValue c))"

fun parsePositive :: "int \<Rightarrow> int \<Rightarrow> string \<Rightarrow> int \<Rightarrow> ErrorCode + int" where
  "parsePositive hi base [] n = Inr n"
| "parsePositive hi base (c # cs) n =
     (if digitValue c \<ge> base then Inl FailedToParse
      else if hi sdiv base < n \<or> hi - n * base < digitValue c then Inl FailedToParse
      else parsePositive hi base cs (n * base + digitValue c))"

definition parseNumberFromStringWithBase :: "int \<Rightarrow> int \<Rightarrow> string \<Rightarrow> int \<Rightarrow> ErrorCode + int" where
  "parseNumberFromStringWithBase lo hi stringValue inputBase =
     (if inputBase = 1 \<or> inputBase < 0 \<or> inputBase > 36 then Inl BadValue
      else let (s, isNegative) = extractSign stringValue; (s, base) = extractBase s inputBase
           in if s = [] then Inl FailedToParse
              else if isNegative
                   then if lo < 0 then parseNegative lo base s 0 else Inl FailedToParse
              else parsePositive hi base s 0)"

subsection \<open>The value of a string of digits\<close>

definition valueFrom :: "int \<Rightarrow> int \<Rightarrow> string \<Rightarrow> int" where
  "valueFrom base = foldl (\<lambda>n c. n * base + digitValue c)"

lemma valueFrom_simps [simp]:
  "valueFrom base n [] = n" "valueFrom base n (c # cs) = valueFrom base (n * base + digitValue c) cs"
  by (simp_all add: valueFrom_def)

lemma digitValue_nonneg [simp]: "0 \<le> digitValue c"
  by (simp add: digitValue_def Let_def)

lemma valueFrom_ge: "0 \<le> n \<Longrightarrow> 2 \<le> base \<Longrightarrow> n \<le> valueFrom base n s"
proof (induction s arbitrary: n)
  case (Cons c s)
  have "n * 1 \<le> n * base" using Cons.prems by (intro mult_left_mono) simp_all
  then have "n \<le> n * base + digitValue c" by (simp add: add_increasing2)
  also have "\<dots> \<le> valueFrom base (n * base + digitValue c) s" using Cons by simp
  finally show ?case by simp
qed simp

lemma int_div_less_iff:
  fixes b h n :: int
  assumes "0 < b"
  shows "h div b < n \<longleftrightarrow> h < n * b"
proof -
  have "n \<le> h div b \<longleftrightarrow> n * b \<le> h"
  proof
    assume "n \<le> h div b"
    then have "n * b \<le> h div b * b" using assms by (simp add: mult_right_mono)
    also have "\<dots> \<le> h" using assms div_mult_mod_eq [of h b] pos_mod_sign [of b h] by linarith
    finally show "n * b \<le> h" .
  next
    assume "n * b \<le> h"
    then have "n * b div b \<le> h div b" using assms by (intro zdiv_mono1)
    then show "n \<le> h div b" using assms by simp
  qed
  then show ?thesis by linarith
qed

lemma sdiv_less_iff:
  fixes b hi n d :: int
  assumes "2 \<le> b" and "0 \<le> hi" and "0 \<le> n" and "0 \<le> d"
  shows "(hi sdiv b < n \<or> hi - n * b < d) \<longleftrightarrow> hi < n * b + d"
proof -
  have "hi sdiv b = hi div b" using assms by (simp add: signed_divide_int_def sgn_if)
  moreover have "hi div b < n \<longleftrightarrow> hi < n * b" using assms by (intro int_div_less_iff) simp
  ultimately show ?thesis using assms by auto
qed

lemma sdiv_greater_iff:
  fixes b lo n d :: int
  assumes "2 \<le> b" and "lo \<le> 0" and "n \<le> 0" and "0 \<le> d"
  shows "(lo sdiv b > n \<or> lo - n * b > - d) \<longleftrightarrow> n * b - d < lo"
proof -
  have "lo sdiv b = - (- lo div b)" using assms by (simp add: signed_divide_int_def sgn_if)
  then have "lo sdiv b > n \<longleftrightarrow> n * b < lo" using assms int_div_less_iff [of b "- lo" "- n"] by auto
  then show ?thesis using assms by auto
qed

definition validDigits :: "int \<Rightarrow> string \<Rightarrow> bool" where
  "validDigits base s \<longleftrightarrow> (\<forall>c\<in>set s. digitValue c < base)"

lemma parsePositive_value:
  assumes "2 \<le> base" and "0 \<le> n" and "n \<le> hi"
  shows "parsePositive hi base s n =
    (if validDigits base s \<and> valueFrom base n s \<le> hi then Inr (valueFrom base n s) else Inl FailedToParse)"
  using assms(2,3)
proof (induction s arbitrary: n)
  case Nil
  then show ?case by (simp add: validDigits_def)
next
  case (Cons c s)
  let ?n = "n * base + digitValue c"
  have n: "0 \<le> ?n" using assms(1) Cons.prems by simp
  show ?case
  proof (cases "digitValue c < base \<and> ?n \<le> hi")
    case True
    then show ?thesis using Cons.IH [OF n] Cons.prems assms(1) sdiv_less_iff [of base hi n "digitValue c"]
      by (auto simp: validDigits_def)
  next
    case False
    then have "parsePositive hi base (c # s) n = Inl FailedToParse"
      using Cons.prems assms(1) sdiv_less_iff [of base hi n "digitValue c"] by auto
    moreover have "\<not> (digitValue c < base \<and> valueFrom base n (c # s) \<le> hi)"
      using False valueFrom_ge [OF n assms(1), of s] by auto
    ultimately show ?thesis by (auto simp: validDigits_def)
  qed
qed

lemma parseNegative_value:
  assumes "2 \<le> base" and "0 \<le> n" and "lo \<le> - n"
  shows "parseNegative lo base s (- n) =
    (if validDigits base s \<and> lo \<le> - valueFrom base n s then Inr (- valueFrom base n s) else Inl FailedToParse)"
  using assms(2,3)
proof (induction s arbitrary: n)
  case Nil
  then show ?case by (simp add: validDigits_def)
next
  case (Cons c s)
  let ?n = "n * base + digitValue c"
  have n: "0 \<le> ?n" using assms(1) Cons.prems by simp
  have neg: "- n * base - digitValue c = - ?n" by simp
  show ?case
  proof (cases "digitValue c < base \<and> lo \<le> - ?n")
    case True
    then have "parseNegative lo base (c # s) (- n) = parseNegative lo base s (- ?n)"
      using Cons.prems assms(1) sdiv_greater_iff [of base lo "- n" "digitValue c"] neg by auto
    then show ?thesis using Cons.IH [OF n] True by (auto simp: validDigits_def)
  next
    case False
    then have "parseNegative lo base (c # s) (- n) = Inl FailedToParse"
      using Cons.prems assms(1) sdiv_greater_iff [of base lo "- n" "digitValue c"] neg by auto
    moreover have "\<not> (digitValue c < base \<and> lo \<le> - valueFrom base n (c # s))"
      using False valueFrom_ge [OF n assms(1), of s] by auto
    ultimately show ?thesis by (auto simp: validDigits_def)
  qed
qed


subsection \<open>Reading what was printed\<close>

lemma digitValue_char [simp]: "n < 10 \<Longrightarrow> digitValue (char_of (48 + n)) = int n"
proof -
  assume "n < 10"
  then have "(of_char (char_of (48 + n) :: char) :: nat) = 48 + n" by simp
  then have "(of_char (char_of (48 + n) :: char) :: int) = int (48 + n)" using of_nat_of_char by metis
  then show ?thesis using \<open>n < 10\<close> by (simp add: digitValue_def)
qed

lemma natToString_value: "valueFrom 10 0 (natToString n) = int n" "validDigits 10 (natToString n)" "natToString n \<noteq> []"
proof -
  show "valueFrom 10 0 (natToString n) = int n"
  proof (induction n rule: natToString.induct)
    case (1 n)
    show ?case
    proof (cases "n < 10")
      case True
      then show ?thesis by (subst natToString.simps) simp
    next
      case False
      then have "valueFrom 10 0 (natToString n) = valueFrom 10 0 (natToString (n div 10)) * 10 + int (n mod 10)"
        by (subst natToString.simps) (simp add: valueFrom_def)
      also have "\<dots> = int (n div 10) * 10 + int (n mod 10)" using 1 False by simp
      also have "\<dots> = int (n div 10 * 10 + n mod 10)" by (simp only: of_nat_add of_nat_mult of_nat_numeral)
      finally show ?thesis by (simp only: div_mult_mod_eq)
    qed
  qed
  show "validDigits 10 (natToString n)"
  proof (induction n rule: natToString.induct)
    case (1 n)
    then show ?case by (subst natToString.simps) (simp add: validDigits_def)
  qed
  show "natToString n \<noteq> []" by (subst natToString.simps) simp
qed

lemma natToString_no_sign: "extractSign (natToString n) = (natToString n, False)"
proof -
  have "digitValue CHR ''-'' = 36" "digitValue CHR ''+'' = 36" by code_simp+
  then have "CHR ''-'' \<notin> set (natToString n)" "CHR ''+'' \<notin> set (natToString n)"
    using natToString_value(2) [of n] by (auto simp: validDigits_def)
  then show ?thesis by (auto simp: extractSign_def split: list.splits)
qed

lemma parse_nat:
  "int n \<le> hi \<Longrightarrow> parseNumberFromStringWithBase lo hi (natToString n) 10 = Inr (int n)"
  by (simp add: parseNumberFromStringWithBase_def natToString_no_sign extractBase_def parsePositive_value natToString_value)

subsection \<open>Properties\<close>



text \<open>C38: Every integer in the range of the type is read back from its decimal form.\<close>

theorem parse_print_roundtrip:
  assumes "lo \<le> i" and "i \<le> hi"
  shows "parseNumberFromStringWithBase lo hi (intToString i) 10 = Inr i"
proof (cases "i < 0")
  case True
  let ?s = "natToString (nat (- i))"
  have "extractSign (intToString i) = (?s, True)" using True by (simp add: intToString_def extractSign_def)
  moreover have "parseNegative lo 10 ?s 0 = Inr i"
    using parseNegative_value [of 10 0 lo ?s] natToString_value [of "nat (- i)"] assms(1) True by simp
  ultimately show ?thesis using True assms(1) natToString_value(3)
    by (simp add: parseNumberFromStringWithBase_def extractBase_def)
next
  case False
  then show ?thesis using parse_nat [of "nat i" hi lo] assms(2) by (simp add: intToString_def)
qed

theorem parse_print_roundtrip_witness:
  "parseNumberFromStringWithBase (- 2147483648) 2147483647 (intToString (- 2147483648)) 10 = Inr (- 2147483648)"
  by (rule parse_print_roundtrip) simp_all

end
