(* ===== verification/NetName.thy ===== *)
theory NetName
  imports ReplTypes ParseNumber
begin

text \<open>
  Reading network names, \<open>HostAndPort::initialize\<close> of \<^verbatim>\<open>src/src/mongo/util/net/hostandport.cpp\<close>. A position
  that a search does not find, \<open>npos\<close>, is \<^const>\<open>None\<close>. The comment in \<open>append\<close> promises that a printed
  name can be read back; the theorem shows it for every name whose host is not empty and has no
  brackets and whose port is a positive integer.
\<close>

subsection \<open>Searching\<close>

fun findChar :: "char \<Rightarrow> string \<Rightarrow> nat option" where
  "findChar c [] = None"
| "findChar c (d # s) = (if d = c then Some 0 else map_option Suc (findChar c s))"

definition rfindChar :: "char \<Rightarrow> string \<Rightarrow> nat option" where
  "rfindChar c s = map_option (\<lambda>i. length s - 1 - i) (findChar c (rev s))"

subsection \<open>The parser\<close>

text \<open>The host part and the position of the colon before the port.\<close>

definition splitHost :: "string \<Rightarrow> ErrorCode + string \<times> nat option" where
  "splitHost s =
     (let colonPos = rfindChar CHR '':'' s;
          hostPart = (case colonPos of None \<Rightarrow> s | Some i \<Rightarrow> take i s)
      in case findChar CHR ''['' s of
           Some openBracketPos \<Rightarrow>
             if openBracketPos \<noteq> 0 then Inl FailedToParse
             else (case findChar CHR '']'' s of
                 None \<Rightarrow> Inl FailedToParse
               | Some closeBracketPos \<Rightarrow>
                   let hostPart = take (closeBracketPos - openBracketPos - 1) (drop (openBracketPos + 1) s)
                   in case colonPos of
                        None \<Rightarrow> Inl FailedToParse
                      | Some i \<Rightarrow> if i < closeBracketPos then Inr (hostPart, None)
                                  else if i \<noteq> closeBracketPos + 1 then Inl FailedToParse
                                  else Inr (hostPart, Some i))
         | None \<Rightarrow>
             if findChar CHR '']'' s \<noteq> None then Inl FailedToParse
             else if findChar CHR '':'' s \<noteq> colonPos then Inl FailedToParse
             else Inr (hostPart, colonPos))"

definition HostAndPort_parse :: "string \<Rightarrow> ErrorCode + HostAndPort" where
  "HostAndPort_parse s =
     (case splitHost s of
        Inl e \<Rightarrow> Inl e
      | Inr (hostPart, colonPos) \<Rightarrow>
          if hostPart = [] then Inl FailedToParse
          else (case colonPos of
              None \<Rightarrow> Inr (HostAndPort hostPart (- 1))
            | Some i \<Rightarrow>
                (case parseNumberFromStringWithBase (- 2147483648) 2147483647 (drop (i + 1) s) 10 of
                   Inl e \<Rightarrow> Inl e
                 | Inr p \<Rightarrow> if p \<le> 0 then Inl FailedToParse else Inr (HostAndPort hostPart p))))"

subsection \<open>Reading a printed name\<close>

lemma findChar_None: "findChar c s = None \<longleftrightarrow> c \<notin> set s"
  by (induction s) auto

lemma findChar_append: "c \<notin> set s \<Longrightarrow> findChar c (s @ c # t) = Some (length s)"
  by (induction s) auto

lemma rfindChar_append: "c \<notin> set t \<Longrightarrow> rfindChar c (s @ c # t) = Some (length s)"
  using findChar_append [of c "rev t" "rev s"] by (simp add: rfindChar_def)

lemma printed_digits:
  assumes "0 \<le> i"
  shows "CHR '':'' \<notin> set (intToString i)" "CHR ''['' \<notin> set (intToString i)" "CHR '']'' \<notin> set (intToString i)"
proof -
  have "digitValue CHR '':'' = 36" "digitValue CHR ''['' = 36" "digitValue CHR '']'' = 36" by code_simp+
  then show "CHR '':'' \<notin> set (intToString i)" "CHR ''['' \<notin> set (intToString i)" "CHR '']'' \<notin> set (intToString i)"
    using natToString_value(2) [of "nat i"] assms by (auto simp: validDigits_def intToString_def)
qed

lemma splitHost_printed:
  assumes "CHR ''['' \<notin> set (hostName h)" and "CHR '']'' \<notin> set (hostName h)" and "0 < port h"
    and "HostAndPort_toString h = s"
  shows "\<exists>i. splitHost s = Inr (hostName h, Some i) \<and> drop (i + 1) s = intToString (port h)"
proof (cases "CHR '':'' \<in> set (hostName h)")
  case True
  let ?p = "''['' @ hostName h @ '']''" and ?d = "intToString (port h)"
  have s: "s = ?p @ CHR '':'' # ?d" using True assms(4) by (simp add: HostAndPort_toString_def)
  have "rfindChar CHR '':'' s = Some (length (hostName h) + 2)"
    unfolding s using rfindChar_append [of "CHR '':''" ?d ?p] printed_digits [of "port h"] assms(3) by simp
  moreover have "findChar CHR '']'' s = Some (length (hostName h) + 1)"
    unfolding s using findChar_append [of "CHR '']''" "CHR ''['' # hostName h"] assms(2) by simp
  moreover have "findChar CHR ''['' s = Some 0" by (simp add: s)
  ultimately show ?thesis by (intro exI [of _ "length (hostName h) + 2"]) (simp add: splitHost_def s Let_def)
next
  case False
  let ?d = "intToString (port h)"
  have s: "s = hostName h @ CHR '':'' # ?d" using False assms(4) by (simp add: HostAndPort_toString_def)
  have "rfindChar CHR '':'' s = Some (length (hostName h))" "findChar CHR '':'' s = Some (length (hostName h))"
    unfolding s using rfindChar_append printed_digits [of "port h"] findChar_append False assms(3) by simp_all
  moreover have "findChar CHR ''['' s = None" "findChar CHR '']'' s = None"
    using assms printed_digits [of "port h"] by (simp_all add: s findChar_None)
  ultimately show ?thesis by (intro exI [of _ "length (hostName h)"]) (simp add: splitHost_def s Let_def)
qed

subsection \<open>Properties\<close>

text \<open>C39: A printed network name is read back as a name that the code considers equal, for IPv6 addresses as
  well, whose colons the brackets protect. A name with the default port comes back with that port
  written out.\<close>

theorem hostAndPort_roundtrip:
  assumes "hostName h \<noteq> ''''" and "CHR ''['' \<notin> set (hostName h)" and "CHR '']'' \<notin> set (hostName h)"
    and "0 < port h" and "port h \<le> 2147483647"
  shows "\<exists>h'. HostAndPort_parse (HostAndPort_toString h) = Inr h' \<and> HostAndPort_eq h' h \<and> hasPort h'"
proof -
  obtain i where "splitHost (HostAndPort_toString h) = Inr (hostName h, Some i)"
    "drop (i + 1) (HostAndPort_toString h) = intToString (port h)"
    using splitHost_printed [OF assms(2-4)] by blast
  moreover have "parseNumberFromStringWithBase (- 2147483648) 2147483647 (intToString (port h)) 10 = Inr (port h)"
    using parse_nat [of "nat (port h)"] assms(4,5) by (simp add: intToString_def)
  ultimately have "HostAndPort_parse (HostAndPort_toString h) = Inr (HostAndPort (hostName h) (port h))"
    using assms(1,4) by (simp add: HostAndPort_parse_def)
  then show ?thesis using assms(4) by (intro exI [of _ "HostAndPort (hostName h) (port h)"])
      (simp add: HostAndPort_eq_def port_def hasPort_def)
qed

theorem hostAndPort_roundtrip_witness:
  "\<exists>h'. HostAndPort_parse ''[::1]:80'' = Inr h' \<and> HostAndPort_eq h' (HostAndPort ''::1'' 80) \<and> hasPort h'"
proof -
  have "HostAndPort_toString (HostAndPort ''::1'' 80) = ''[::1]:80''" by code_simp
  then show ?thesis using hostAndPort_roundtrip [of "HostAndPort ''::1'' 80"]
    by (simp add: port_def hasPort_def DefaultDBPort_def)
qed

end
