(* ===== verification/Hex.thy ===== *)
theory Hex
  imports ParseNumber
begin

text \<open>
  Printing integers in hexadecimal, \<^verbatim>\<open>src/src/mongo/util/hex.cpp\<close>. The loop fills a buffer with one
  digit for every four bits, from the right, and the result starts at the leftmost digit that is not
  zero. The shift of a negative number keeps its sign, which does not reach the digits that are
  printed, so that the word of the number determines them.
\<close>

definition hexchar :: "'a::len word \<Rightarrow> char" where
  "hexchar w = ''0123456789ABCDEF'' ! unat w"

text \<open>The last \<open>n\<close> places of the buffer.\<close>

fun hexDigits :: "nat \<Rightarrow> 'a::len word \<Rightarrow> string" where
  "hexDigits 0 w = []"
| "hexDigits (Suc n) w = hexDigits n (drop_bit 4 w) @ [hexchar (w AND 0xF)]"

definition integerToHex :: "'a::len word \<Rightarrow> string" where
  "integerToHex w =
     (if w = 0 then ''0'' else dropWhile (\<lambda>c. c = CHR ''0'') (hexDigits (LENGTH('a) div 4) w))"

lemma digitValue_hex: "k < 16 \<Longrightarrow> digitValue (''0123456789ABCDEF'' ! k) = int k"
proof -
  have "\<forall>k\<in>set [0..<16]. digitValue (''0123456789ABCDEF'' ! k) = int k" by code_simp
  then show "k < 16 \<Longrightarrow> ?thesis" by simp
qed

lemma low_digit: "unat (w AND 0xF :: 'a::len word) = unat w mod 16"
proof -
  have "w AND 0xF = take_bit 4 w" by (simp add: take_bit_eq_mask mask_eq_exp_minus_1)
  then have "unat (w AND 0xF) = take_bit 4 (unat w)" by (simp only: unsigned_take_bit_eq)
  then show ?thesis by (simp add: take_bit_eq_mod)
qed

lemma digitValue_low: "digitValue (hexchar (w AND 0xF :: 'a::len word)) = uint w mod 16"
proof -
  have "digitValue (hexchar (w AND 0xF)) = int (unat w mod 16)"
    unfolding hexchar_def low_digit by (rule digitValue_hex) simp
  then show ?thesis by (simp add: zmod_int)
qed

lemma hexDigits_value:
  "valueFrom 16 0 (hexDigits n w) = uint w mod 16 ^ n" "validDigits 16 (hexDigits n w)"
proof -
  show "valueFrom 16 0 (hexDigits n w) = uint w mod 16 ^ n"
  proof (induction n arbitrary: w)
    case (Suc n)
    have "valueFrom 16 0 (hexDigits (Suc n) w) = valueFrom 16 0 (hexDigits n (drop_bit 4 w)) * 16 + uint w mod 16"
      by (simp add: valueFrom_def digitValue_low)
    also have "\<dots> = (uint w div 16) mod 16 ^ n * 16 + uint w mod 16"
    proof -
      have "uint (drop_bit 4 w) = drop_bit 4 (uint w)"         by (simp only: unsigned_drop_bit_eq) (simp add: take_bit_int_eq_self uint_bounded)
      then show ?thesis by (simp add: Suc.IH drop_bit_eq_div)
    qed
    also have "\<dots> = uint w mod (16 * 16 ^ n)" by (simp add: zmod_zmult2_eq)
    finally show ?case by simp
  qed simp
  show "validDigits 16 (hexDigits n w)"
    by (induction n arbitrary: w) (auto simp: validDigits_def digitValue_low)
qed

lemma valueFrom_zeros: "valueFrom b 0 (dropWhile (\<lambda>c. c = CHR ''0'') s) = valueFrom b 0 s"
proof -
  have "digitValue CHR ''0'' = 0" by code_simp
  then show ?thesis by (induction s) auto
qed

lemma no_prefix: "validDigits 16 s \<Longrightarrow> \<not> hasHexPrefix s \<and> extractSign s = (s, False)"
proof -
  assume valid: "validDigits 16 s"
  have "digitValue CHR ''x'' = 33" "digitValue CHR ''X'' = 33" "digitValue CHR ''-'' = 36" "digitValue CHR ''+'' = 36" by code_simp+
  then have no: "CHR ''x'' \<notin> set s" "CHR ''X'' \<notin> set s" "CHR ''-'' \<notin> set s" "CHR ''+'' \<notin> set s"
    using valid by (auto simp: validDigits_def)
  have "take 2 s \<noteq> [c, d]" if "d \<notin> set s" for c d
    using that by (metis in_set_takeD list.set_intros(1) list.set_intros(2))
  then show ?thesis using no by (auto simp: hasHexPrefix_def extractSign_def split: list.splits)
qed

subsection \<open>Properties\<close>

text \<open>C40: The hexadecimal form of every 32-bit number is read back by the parser for base 16.\<close>

theorem hex_roundtrip:
  "parseNumberFromStringWithBase 0 4294967295 (integerToHex (w :: 32 word)) 16 = Inr (uint w)"
proof (cases "w = 0")
  case True
  have "parseNumberFromStringWithBase 0 4294967295 ''0'' 16 = Inr 0" by code_simp
  then show ?thesis using True by (simp add: integerToHex_def)
next
  case False
  let ?s = "integerToHex w"
  have s: "?s = dropWhile (\<lambda>c. c = CHR ''0'') (hexDigits 8 w)" using False by (simp add: integerToHex_def)
  have less: "uint w < 16 ^ 8" using uint_bounded [of w] by simp
  have "validDigits 16 ?s" using hexDigits_value(2) [of 8 w] by (auto simp: s validDigits_def dest: set_dropWhileD)
  moreover have "valueFrom 16 0 ?s = uint w" using less by (simp add: s valueFrom_zeros hexDigits_value(1))
  moreover from this have "?s \<noteq> []" using False by (auto simp: uint_0_iff)
  ultimately show ?thesis using no_prefix [of ?s] less
    by (simp add: parseNumberFromStringWithBase_def extractBase_def parsePositive_value)
qed

end
