(* ===== verification/ReplicaSetTags.thy ===== *)
theory ReplicaSetTags
  imports ReplTypes
begin

text \<open>
  Replica set tags, \<^verbatim>\<open>src/src/mongo/db/repl/replica_set_tag.cpp\<close>: the table of tag keys and values of a
  configuration, patterns of count constraints over them, and the matcher that a write concern mode
  is checked with. A tag is a pair of indices into the table.

  The proofs show that making a tag and reading it back yields its key and value, that the tags made
  before keep their meaning, and that the matcher is satisfied exactly if every constraint of the
  pattern has seen enough different values of its key.
\<close>

subsection \<open>Definitions\<close>

datatype ReplicaSetTag = ReplicaSetTag (tagKeyIndex: int) (tagValueIndex: int)

definition tag_isValid :: "ReplicaSetTag \<Rightarrow> bool" where
  "tag_isValid tag \<longleftrightarrow> tagKeyIndex tag \<ge> 0"

datatype TagCountConstraint = TagCountConstraint (conKeyIndex: int) (conMinCount: int)

type_synonym ReplicaSetTagPattern = "TagCountConstraint list"

fun addTagCountConstraint :: "int \<Rightarrow> int \<Rightarrow> ReplicaSetTagPattern \<Rightarrow> ReplicaSetTagPattern" where
  "addTagCountConstraint k n [] = [TagCountConstraint k n]"
| "addTagCountConstraint k n (c # cs) =
     (if conKeyIndex c = k then (if conMinCount c < n then TagCountConstraint k n # cs else c # cs)
      else c # addTagCountConstraint k n cs)"

record BoundTagValue =
  bvConstraint :: TagCountConstraint
  boundValues :: "int list"

type_synonym ReplicaSetTagMatch = "BoundTagValue list"

definition newTagMatch :: "ReplicaSetTagPattern \<Rightarrow> ReplicaSetTagMatch" where
  "newTagMatch pattern = map (\<lambda>c. \<lparr>bvConstraint = c, boundValues = []\<rparr>) pattern"

definition boundValue_isSatisfied :: "BoundTagValue \<Rightarrow> bool" where
  "boundValue_isSatisfied b \<longleftrightarrow> conMinCount (bvConstraint b) \<le> int (length (boundValues b))"

definition match_isSatisfied :: "ReplicaSetTagMatch \<Rightarrow> bool" where
  "match_isSatisfied m = list_all boundValue_isSatisfied m"

fun bindTag :: "ReplicaSetTag \<Rightarrow> ReplicaSetTagMatch \<Rightarrow> ReplicaSetTagMatch" where
  "bindTag tag [] = []"
| "bindTag tag (b # bs) =
     (if tagKeyIndex tag = conKeyIndex (bvConstraint b)
      then (if tagValueIndex tag \<in> set (boundValues b) then b
            else b\<lparr>boundValues := boundValues b @ [tagValueIndex tag]\<rparr>) # bs
      else b # bindTag tag bs)"

definition match_update :: "ReplicaSetTag \<Rightarrow> ReplicaSetTagMatch \<Rightarrow> bool \<times> ReplicaSetTagMatch" where
  "match_update tag m = (let m = bindTag tag m in (match_isSatisfied m, m))"

text \<open>The configuration: the keys with the values seen under each.\<close>

type_synonym ReplicaSetTagConfig = "(string \<times> string list) list"

fun indexOf :: "('a \<Rightarrow> bool) \<Rightarrow> 'a list \<Rightarrow> nat" where
  "indexOf P [] = 0"
| "indexOf P (x # xs) = (if P x then 0 else Suc (indexOf P xs))"

definition findKeyIndex :: "string \<Rightarrow> ReplicaSetTagConfig \<Rightarrow> nat" where
  "findKeyIndex key tagData = indexOf (\<lambda>e. fst e = key) tagData"

definition makeTag :: "string \<Rightarrow> string \<Rightarrow> ReplicaSetTagConfig \<Rightarrow> ReplicaSetTag \<times> ReplicaSetTagConfig" where
  "makeTag key value tagData =
     (let keyIndex = findKeyIndex key tagData;
          tagData = (if keyIndex = length tagData then tagData @ [(key, [])] else tagData);
          values = snd (tagData ! keyIndex);
          valueIndex = indexOf (\<lambda>v. v = value) values
      in if valueIndex < length values then (ReplicaSetTag (int keyIndex) (int valueIndex), tagData)
         else (ReplicaSetTag (int keyIndex) (int (length (values @ [value])) - 1),
               tagData[keyIndex := (fst (tagData ! keyIndex), values @ [value])]))"

definition findTag :: "string \<Rightarrow> string \<Rightarrow> ReplicaSetTagConfig \<Rightarrow> ReplicaSetTag" where
  "findTag key value tagData =
     (let keyIndex = findKeyIndex key tagData
      in if keyIndex = length tagData then ReplicaSetTag (- 1) (- 1)
         else let values = snd (tagData ! keyIndex); valueIndex = indexOf (\<lambda>v. v = value) values
              in if valueIndex < length values then ReplicaSetTag (int keyIndex) (int valueIndex)
                 else ReplicaSetTag (- 1) (- 1))"

definition addTagCountConstraintToPattern ::
  "string \<Rightarrow> int \<Rightarrow> ReplicaSetTagConfig \<Rightarrow> ReplicaSetTagPattern \<Rightarrow> Status \<times> ReplicaSetTagPattern" where
  "addTagCountConstraintToPattern tagKey minCount tagData pattern =
     (let keyIndex = findKeyIndex tagKey tagData
      in if keyIndex = length tagData then (StatusError NoSuchKey, pattern)
         else (StatusOK, addTagCountConstraint (int keyIndex) minCount pattern))"

definition getTagKey :: "ReplicaSetTag \<Rightarrow> ReplicaSetTagConfig \<Rightarrow> string option" where
  "getTagKey tag tagData = do {
     invariant (tag_isValid tag \<and> nat (tagKeyIndex tag) < length tagData);
     Some (fst (tagData ! nat (tagKeyIndex tag)))
   }"

definition getTagValue :: "ReplicaSetTag \<Rightarrow> ReplicaSetTagConfig \<Rightarrow> string option" where
  "getTagValue tag tagData = do {
     invariant (tag_isValid tag \<and> nat (tagKeyIndex tag) < length tagData);
     let values = snd (tagData ! nat (tagKeyIndex tag));
     invariant (tagValueIndex tag \<ge> 0 \<and> nat (tagValueIndex tag) < length values);
     Some (values ! nat (tagValueIndex tag))
   }"

subsection \<open>Tags\<close>

lemma indexOf_le: "indexOf P xs \<le> length xs"
  by (induction xs) auto

lemma indexOf_found: "indexOf P xs < length xs \<Longrightarrow> P (xs ! indexOf P xs)"
  by (induction xs) auto

lemma indexOf_none: "indexOf P xs = length xs \<longleftrightarrow> (\<forall>x\<in>set xs. \<not> P x)"
  by (induction xs) auto

lemma indexOf_append: "indexOf P xs < length xs \<Longrightarrow> indexOf P (xs @ ys) = indexOf P xs"
  by (induction xs) auto

lemma indexOf_new: "indexOf P xs = length xs \<Longrightarrow> P y \<Longrightarrow> indexOf P (xs @ [y]) = length xs"
  by (induction xs) auto

lemma indexOf_cong: "(\<And>i. i < length xs \<Longrightarrow> P (xs ! i) = P (ys ! i)) \<Longrightarrow> length ys = length xs \<Longrightarrow> indexOf P ys = indexOf P xs"
proof (induction xs arbitrary: ys)
  case (Cons x xs)
  then obtain y ys' where ys: "ys = y # ys'" by (cases ys) auto
  have "indexOf P ys' = indexOf P xs" using Cons.prems by (intro Cons.IH) (force simp: ys)+
  moreover have "P x = P y" using Cons.prems(1) [of 0] by (simp add: ys)
  ultimately show ?case by (simp add: ys)
qed simp

text \<open>The three ways \<open>makeTag\<close> can go: a new key, a new value under a known key, a known tag.\<close>

lemma makeTag_cases:
  obtains (newKey) "findKeyIndex key td = length td"
      "makeTag key value td = (ReplicaSetTag (int (length td)) 0, td @ [(key, [value])])"
  | (newValue) k vs where "findKeyIndex key td = k" "k < length td" "td ! k = (key, vs)" "value \<notin> set vs"
      "makeTag key value td = (ReplicaSetTag (int k) (int (length vs)), td[k := (key, vs @ [value])])"
  | (known) k vs i where "findKeyIndex key td = k" "k < length td" "td ! k = (key, vs)"
      "indexOf (\<lambda>v. v = value) vs = i" "i < length vs" "vs ! i = value"
      "makeTag key value td = (ReplicaSetTag (int k) (int i), td)"
proof (cases "findKeyIndex key td = length td")
  case True
  then show ?thesis by (intro newKey) (simp_all add: makeTag_def Let_def nth_append)
next
  case False
  define k where "k = findKeyIndex key td"
  have k: "k < length td" using False indexOf_le [of "\<lambda>e. fst e = key" td] by (simp add: k_def findKeyIndex_def)
  then have key: "fst (td ! k) = key" using indexOf_found [of "\<lambda>e. fst e = key" td] by (simp add: k_def findKeyIndex_def)
  define vs where "vs = snd (td ! k)"
  have tdk: "td ! k = (key, vs)" using key by (simp add: vs_def prod_eq_iff)
  show ?thesis
  proof (cases "indexOf (\<lambda>v. v = value) vs < length vs")
    case True
    have "makeTag key value td = (ReplicaSetTag (int k) (int (indexOf (\<lambda>v. v = value) vs)), td)"
      using False True k tdk by (simp add: makeTag_def Let_def k_def)
    then show ?thesis using k tdk True indexOf_found [OF True] by (intro known) (simp_all add: k_def)
  next
    case new: False
    then have "indexOf (\<lambda>v. v = value) vs = length vs" using indexOf_le [of "\<lambda>v. v = value" vs] by simp
    then have "value \<notin> set vs" by (auto simp: indexOf_none)
    moreover have "makeTag key value td = (ReplicaSetTag (int k) (int (length vs)), td[k := (key, vs @ [value])])"
      using False new k tdk by (simp add: makeTag_def Let_def k_def)
    ultimately show ?thesis using k tdk by (intro newValue) (simp_all add: k_def)
  qed
qed

text \<open>What a tag means: its key and value.\<close>

definition tagMeaning :: "ReplicaSetTagConfig \<Rightarrow> ReplicaSetTag \<Rightarrow> (string \<times> string) option" where
  "tagMeaning td tag = do { k \<leftarrow> getTagKey tag td; v \<leftarrow> getTagValue tag td; Some (k, v) }"

lemma tagMeaning_iff:
  "tagMeaning td (ReplicaSetTag (int k) (int i)) = Some (key, value) \<longleftrightarrow>
     k < length td \<and> fst (td ! k) = key \<and> i < length (snd (td ! k)) \<and> snd (td ! k) ! i = value"
  by (auto simp: tagMeaning_def getTagKey_def getTagValue_def tag_isValid_def run_simps Let_def)

lemma tagMeaning_Some:
  assumes "tagMeaning td tag = Some kv"
  obtains k i where "tag = ReplicaSetTag (int k) (int i)" "k < length td" "fst (td ! k) = fst kv"
    "i < length (snd (td ! k))" "snd (td ! k) ! i = snd kv"
proof -
  have pos: "tagKeyIndex tag \<ge> 0" "tagValueIndex tag \<ge> 0"
    using assms by (auto simp: tagMeaning_def getTagKey_def getTagValue_def tag_isValid_def run_simps Let_def)
  then have "tag = ReplicaSetTag (int (nat (tagKeyIndex tag))) (int (nat (tagValueIndex tag)))" by (cases tag) simp
  then show ?thesis using assms that tagMeaning_iff [of td "nat (tagKeyIndex tag)" "nat (tagValueIndex tag)" "fst kv" "snd kv"]
    by (metis prod.collapse)
qed

lemma makeTag_meaning:
  "case makeTag key value td of (tag, td') \<Rightarrow>
     getTagKey tag td' = Some key \<and> getTagValue tag td' = Some value \<and> findTag key value td' = tag \<and>
     (\<forall>t kv. tagMeaning td t = Some kv \<longrightarrow> tagMeaning td' t = Some kv)"
proof (cases rule: makeTag_cases [of key td "value"])
  case newKey
  have "findKeyIndex key (td @ [(key, [value])]) = length td"
    using newKey(1) unfolding findKeyIndex_def by (intro indexOf_new) simp_all
  moreover have "tagMeaning (td @ [(key, [value])]) t = Some kv" if "tagMeaning td t = Some kv" for t kv
    using that by (elim tagMeaning_Some) (cases kv, auto simp: tagMeaning_iff nth_append)
  ultimately show ?thesis using newKey(2)
    by (simp add: getTagKey_def getTagValue_def tag_isValid_def findTag_def Let_def nth_append)
next
  case (newValue k vs)
  let ?td = "td[k := (key, vs @ [value])]"
  have "findKeyIndex key ?td = findKeyIndex key td"
    using newValue(2,3) unfolding findKeyIndex_def by (intro indexOf_cong) (auto simp: nth_list_update)
  moreover have "indexOf (\<lambda>v. v = value) (vs @ [value]) = length vs"
    using newValue(4) by (intro indexOf_new) (auto simp: indexOf_none)
  moreover have "tagMeaning ?td t = Some kv" if "tagMeaning td t = Some kv" for t kv
    using that newValue(2,3)
    by (elim tagMeaning_Some) (cases kv, auto simp: tagMeaning_iff nth_append nth_list_update)
  ultimately show ?thesis using newValue
    by (simp add: getTagKey_def getTagValue_def tag_isValid_def findTag_def Let_def nth_append)
next
  case (known k vs i)
  then show ?thesis
    by (simp add: getTagKey_def getTagValue_def tag_isValid_def findTag_def Let_def)
qed

subsection \<open>The matcher\<close>

text \<open>The values that some tags bind to a key.\<close>

definition valuesOf :: "int \<Rightarrow> ReplicaSetTag list \<Rightarrow> int set" where
  "valuesOf k tags = {tagValueIndex t | t. t \<in> set tags \<and> tagKeyIndex t = k}"

text \<open>A matcher that has seen some tags.\<close>

definition bound :: "ReplicaSetTag list \<Rightarrow> BoundTagValue \<Rightarrow> bool" where
  "bound tags b \<longleftrightarrow> distinct (boundValues b) \<and> set (boundValues b) = valuesOf (conKeyIndex (bvConstraint b)) tags"

definition hasSeen :: "ReplicaSetTagPattern \<Rightarrow> ReplicaSetTag list \<Rightarrow> ReplicaSetTagMatch \<Rightarrow> bool" where
  "hasSeen pattern tags m \<longleftrightarrow> map bvConstraint m = pattern \<and>
     (\<forall>b\<in>set m. bound tags b)"

lemma hasSeen_new: "hasSeen pattern [] (newTagMatch pattern)"
  by (auto simp: hasSeen_def newTagMatch_def valuesOf_def bound_def o_def)

lemma bindTag_constraints [simp]: "map bvConstraint (bindTag tag m) = map bvConstraint m"
  by (induction m) auto

lemma valuesOf_snoc: "valuesOf k (tags @ [t]) = (if tagKeyIndex t = k then insert (tagValueIndex t) (valuesOf k tags) else valuesOf k tags)"
  by (auto simp: valuesOf_def)

lemma bound_other: "bound tags b \<Longrightarrow> tagKeyIndex tag \<noteq> conKeyIndex (bvConstraint b) \<Longrightarrow> bound (tags @ [tag]) b"
  by (simp add: bound_def valuesOf_snoc)

lemma bound_same:
  assumes "bound tags b" and "tagKeyIndex tag = conKeyIndex (bvConstraint b)"
  shows "tagValueIndex tag \<in> set (boundValues b) \<Longrightarrow> bound (tags @ [tag]) b"
    and "tagValueIndex tag \<notin> set (boundValues b) \<Longrightarrow>
      bound (tags @ [tag]) (b\<lparr>boundValues := boundValues b @ [tagValueIndex tag]\<rparr>)"
  using assms by (simp_all add: bound_def valuesOf_snoc insert_absorb)

lemma bound_bindTag:
  assumes "\<forall>b\<in>set m. bound tags b" and "distinct (map conKeyIndex (map bvConstraint m))"
  shows "\<forall>b\<in>set (bindTag tag m). bound (tags @ [tag]) b"
  using assms
proof (induction m)
  case (Cons c m)
  show ?case
  proof (cases "tagKeyIndex tag = conKeyIndex (bvConstraint c)")
    case True
    have "bound (tags @ [tag]) b" if "b \<in> set m" for b
    proof (rule bound_other)
      show "bound tags b" using Cons.prems(1) that by simp
      show "tagKeyIndex tag \<noteq> conKeyIndex (bvConstraint b)" using Cons.prems(2) True that by (auto simp: image_iff)
    qed
    then show ?thesis using True bound_same [of tags c tag] Cons.prems(1) by simp
  next
    case False
    then have "bound (tags @ [tag]) c" using Cons.prems(1) bound_other by simp
    then show ?thesis using Cons False by simp
  qed
qed simp

lemma hasSeen_bindTag:
  assumes "hasSeen pattern tags m" and "distinct (map conKeyIndex pattern)"
  shows "hasSeen pattern (tags @ [tag]) (bindTag tag m)"
proof -
  have m: "map bvConstraint m = pattern" "\<forall>b\<in>set m. bound tags b" using assms(1) by (simp_all add: hasSeen_def)
  then show ?thesis using bound_bindTag [of m tags tag] assms(2) by (simp add: hasSeen_def)
qed

lemma addTagCountConstraint_keys:
  "conKeyIndex ` set (addTagCountConstraint k n p) = insert k (conKeyIndex ` set p)"
  "distinct (map conKeyIndex p) \<Longrightarrow> distinct (map conKeyIndex (addTagCountConstraint k n p))"
proof -
  show keys: "conKeyIndex ` set (addTagCountConstraint k n p) = insert k (conKeyIndex ` set p)" for p
    by (induction p) auto
  show "distinct (map conKeyIndex p) \<Longrightarrow> distinct (map conKeyIndex (addTagCountConstraint k n p))"
  proof (induction p)
    case (Cons c p)
    then show ?case using keys [of p] by (auto simp: image_iff)
  qed simp
qed

text \<open>Feeding tags to the matcher one by one.\<close>

definition matchAll :: "ReplicaSetTag list \<Rightarrow> ReplicaSetTagMatch \<Rightarrow> ReplicaSetTagMatch" where
  "matchAll tags m = foldl (\<lambda>m t. snd (match_update t m)) m tags"

lemma hasSeen_matchAll:
  assumes "distinct (map conKeyIndex pattern)"
  shows "hasSeen pattern tags (matchAll tags (newTagMatch pattern))"
proof (induction tags rule: rev_induct)
  case Nil
  then show ?case by (simp add: matchAll_def hasSeen_new)
next
  case (snoc t tags)
  then show ?case using hasSeen_bindTag [OF _ assms] by (simp add: matchAll_def match_update_def Let_def)
qed

lemma matchAll_simps [simp]:
  "matchAll [] m = m" "matchAll (t # ts) m = matchAll ts (bindTag t m)" "matchAll (ts @ us) m = matchAll us (matchAll ts m)"
  by (simp_all add: matchAll_def match_update_def Let_def)

text \<open>A matcher that is satisfied remains so.\<close>

lemma bindTag_mono: "match_isSatisfied m \<Longrightarrow> match_isSatisfied (bindTag t m)"
  by (induction m) (auto simp: match_isSatisfied_def boundValue_isSatisfied_def)

lemma matchAll_mono: "match_isSatisfied m \<Longrightarrow> match_isSatisfied (matchAll ts m)"
  by (induction ts arbitrary: m) (auto intro: bindTag_mono)

lemma match_isSatisfied_iff:
  assumes "hasSeen pattern tags m"
  shows "match_isSatisfied m \<longleftrightarrow> (\<forall>c\<in>set pattern. conMinCount c \<le> int (card (valuesOf (conKeyIndex c) tags)))"
proof -
  have "length (boundValues b) = card (valuesOf (conKeyIndex (bvConstraint b)) tags)" if "b \<in> set m" for b
    using assms that distinct_card [of "boundValues b"] by (auto simp: hasSeen_def bound_def)
  moreover have "set pattern = bvConstraint ` set m" using assms by (auto simp: hasSeen_def)
  ultimately show ?thesis
    by (auto simp: match_isSatisfied_def list_all_iff boundValue_isSatisfied_def)
qed

subsection \<open>Properties\<close>

text \<open>C35: Making a tag and reading it back: after \<open>makeTag\<close> the new tag has the given key and value,
  \<open>findTag\<close> finds it, and every tag that had a meaning before keeps it.\<close>

theorem makeTag_roundtrip:
  "case makeTag key value td of (tag, td') \<Rightarrow>
     getTagKey tag td' = Some key \<and> getTagValue tag td' = Some value \<and> findTag key value td' = tag \<and>
     (\<forall>t kv. tagMeaning td t = Some kv \<longrightarrow> tagMeaning td' t = Some kv)"
  by (rule makeTag_meaning)

theorem makeTag_roundtrip_witness:
  "makeTag ''dc'' ''ny'' [(''rack'', [''r1''])] = (ReplicaSetTag 1 0, [(''rack'', [''r1'']), (''dc'', [''ny''])]) \<and>
   tagMeaning [(''rack'', [''r1''])] (ReplicaSetTag 0 0) = Some (''rack'', ''r1'') \<and>
   tagMeaning [(''rack'', [''r1'']), (''dc'', [''ny''])] (ReplicaSetTag 0 0) = Some (''rack'', ''r1'')"
proof -
  have "makeTag ''dc'' ''ny'' [(''rack'', [''r1''])] = (ReplicaSetTag 1 0, [(''rack'', [''r1'']), (''dc'', [''ny''])])"
    and "tagMeaning [(''rack'', [''r1''])] (ReplicaSetTag 0 0) = Some (''rack'', ''r1'')" by code_simp+
  then show ?thesis using makeTag_roundtrip [of "''dc''" "''ny''" "[(''rack'', [''r1''])]"] by simp
qed

text \<open>C36: The matcher of a write concern mode: fed with tags one by one, it is satisfied exactly if
  for every constraint of the pattern the tags bind at least the required number of different values
  to the key.\<close>

theorem match_spec:
  assumes "distinct (map conKeyIndex pattern)"
  shows "match_isSatisfied (matchAll tags (newTagMatch pattern)) \<longleftrightarrow>
    (\<forall>c\<in>set pattern. conMinCount c \<le> int (card (valuesOf (conKeyIndex c) tags)))"
  by (rule match_isSatisfied_iff [OF hasSeen_matchAll [OF assms]])

theorem match_spec_witness:
  "distinct (map conKeyIndex [TagCountConstraint 0 2]) \<and>
   match_isSatisfied (matchAll [ReplicaSetTag 0 0, ReplicaSetTag 1 5, ReplicaSetTag 0 1] (newTagMatch [TagCountConstraint 0 2])) \<and>
   2 \<le> card (valuesOf 0 [ReplicaSetTag 0 0, ReplicaSetTag 1 5, ReplicaSetTag 0 1])"
proof -
  have "match_isSatisfied (matchAll [ReplicaSetTag 0 0, ReplicaSetTag 1 5, ReplicaSetTag 0 1] (newTagMatch [TagCountConstraint 0 2]))"
    by code_simp
  then show ?thesis
    using match_spec [of "[TagCountConstraint 0 2]" "[ReplicaSetTag 0 0, ReplicaSetTag 1 5, ReplicaSetTag 0 1]"] by simp
qed

end
