(* ===== verification/ReplConfig.thy ===== *)
theory ReplConfig
  imports ReplicaSetTags
begin

text \<open>
  The configuration of a replica set, \<^verbatim>\<open>src/src/mongo/db/repl/member_config.cpp\<close> and
  \<^verbatim>\<open>replica_set_config.cpp\<close>: the members with their validation, the derived majorities and write
  concern modes, and the lookups by index, id and host. Reading the BSON document of a configuration
  is left out; the steps of \<open>initialize\<close> that follow it, the internal tags, the majorities and the
  internal modes, are \<open>addInternalTags\<close>, \<open>calculateMajorities\<close> and \<open>addInternalWriteConcernModes\<close>.

  The proofs show what a validated configuration guarantees, that majorities of voters intersect
  (the locale \<open>quorum\<close>, interpreted by the majorities of a configuration), and when a write concern
  can be satisfied.
\<close>

subsection \<open>Members\<close>

record MemberConfig =
  mcId :: int
  mcHost :: HostAndPort
  mcPriority :: double
  mcVotes :: int
  mcArbiterOnly :: bool
  mcSlaveDelay :: int
  mcHidden :: bool
  mcBuildIndexes :: bool
  mcTags :: "ReplicaSetTag list"

definition isVoter :: "MemberConfig \<Rightarrow> bool" where
  "isVoter m \<longleftrightarrow> mcVotes m \<noteq> 0"

definition getNumVotes :: "MemberConfig \<Rightarrow> int" where
  "getNumVotes m = (if isVoter m then 1 else 0)"

definition isElectable :: "MemberConfig \<Rightarrow> bool" where
  "isElectable m \<longleftrightarrow> \<not> mcArbiterOnly m \<and> double_less (Finite 0) (mcPriority m)"

definition kMaxSlaveDelay :: int where "kMaxSlaveDelay = 3600 * 24 * 366"

definition validateMember :: "MemberConfig \<Rightarrow> Status" where
  "validateMember m =
     (if mcId m < 0 \<or> mcId m > 255 then StatusError BadValue
      else if double_less (mcPriority m) (Finite 0) \<or> double_less (Finite 1000) (mcPriority m) then StatusError BadValue
      else if mcVotes m \<noteq> 0 \<and> mcVotes m \<noteq> 1 then StatusError BadValue
      else if mcArbiterOnly m \<and> mcTags m \<noteq> [] then StatusError BadValue
      else if mcArbiterOnly m \<and> \<not> isVoter m then StatusError BadValue
      else if mcSlaveDelay m < 0 \<or> mcSlaveDelay m > kMaxSlaveDelay then StatusError BadValue
      else if \<not> double_eq (mcPriority m) (Finite 0) \<and> mcVotes m = 0 then StatusError BadValue
      else if \<not> double_eq (mcPriority m) (Finite 0) \<and> mcSlaveDelay m > 0 then StatusError BadValue
      else if \<not> double_eq (mcPriority m) (Finite 0) \<and> mcHidden m then StatusError BadValue
      else if \<not> double_eq (mcPriority m) (Finite 0) \<and> \<not> mcBuildIndexes m then StatusError BadValue
      else StatusOK)"

definition addInternalTag ::
  "bool \<Rightarrow> string \<Rightarrow> MemberConfig \<times> ReplicaSetTagConfig \<Rightarrow> MemberConfig \<times> ReplicaSetTagConfig" where
  "addInternalTag b key mt =
     (let (m, td) = mt
      in if b then let (tag, td) = makeTag key (intToString (mcId m)) td in (m\<lparr>mcTags := mcTags m @ [tag]\<rparr>, td)
         else mt)"

definition kInternalVoterTagName :: string where "kInternalVoterTagName = ''$voter''"
definition kInternalElectableTagName :: string where "kInternalElectableTagName = ''$electable''"
definition kInternalAllTagName :: string where "kInternalAllTagName = ''$all''"

definition addInternalTags :: "MemberConfig \<Rightarrow> ReplicaSetTagConfig \<Rightarrow> MemberConfig \<times> ReplicaSetTagConfig" where
  "addInternalTags m td =
     addInternalTag (\<not> mcArbiterOnly m) kInternalAllTagName
       (addInternalTag (isElectable m) kInternalElectableTagName
         (addInternalTag (isVoter m \<and> \<not> mcArbiterOnly m) kInternalVoterTagName (m, td)))"

definition isInternalTagKey :: "string \<Rightarrow> bool" where
  "isInternalTagKey key \<longleftrightarrow> take 1 key = ''$''"

fun anyUserTag :: "ReplicaSetTagConfig \<Rightarrow> ReplicaSetTag list \<Rightarrow> bool option" where
  "anyUserTag td [] = Some False"
| "anyUserTag td (tag # tags) = do {
     key \<leftarrow> getTagKey tag td;
     if isInternalTagKey key then anyUserTag td tags else Some True
   }"

definition hasTags :: "MemberConfig \<Rightarrow> ReplicaSetTagConfig \<Rightarrow> bool option" where
  "hasTags m td = anyUserTag td (mcTags m)"

subsection \<open>Configurations\<close>

record WriteConcernOptions =
  wNumNodes :: int
  wMode :: string

record ReplicaSetConfig =
  isInitialized :: bool
  cfgVersion :: int
  replSetName :: string
  members :: "MemberConfig list"
  defaultWriteConcern :: WriteConcernOptions
  electionTimeoutPeriod :: Milliseconds
  heartbeatInterval :: Milliseconds
  heartbeatTimeoutPeriod :: Milliseconds
  chainingAllowed :: bool
  majorityVoteCount :: int
  writeMajority :: int
  totalVotingMembers :: int
  tagConfig :: ReplicaSetTagConfig
  customWriteConcernModes :: "string \<rightharpoonup> ReplicaSetTagPattern"
  protocolVersion :: int
  configServer :: bool

text \<open>The member initializers of the class.\<close>

definition emptyConfig :: ReplicaSetConfig where
  "emptyConfig = \<lparr>isInitialized = False, cfgVersion = 1, replSetName = '''', members = [],
     defaultWriteConcern = \<lparr>wNumNodes = 0, wMode = ''''\<rparr>, electionTimeoutPeriod = 5000, heartbeatInterval = 2000,
     heartbeatTimeoutPeriod = 10000, chainingAllowed = True, majorityVoteCount = 0, writeMajority = 0,
     totalVotingMembers = 0, tagConfig = [], customWriteConcernModes = Map.empty, protocolVersion = 0,
     configServer = False\<rparr>"

definition kMaxMembers :: nat where "kMaxMembers = 50"
definition kMaxVotingMembers :: nat where "kMaxVotingMembers = 7"
definition kDefaultHeartbeatTimeoutPeriod :: Milliseconds where "kDefaultHeartbeatTimeoutPeriod = 10000"

definition getNumMembers :: "ReplicaSetConfig \<Rightarrow> int" where
  "getNumMembers c = int (length (members c))"

definition getMemberAt :: "ReplicaSetConfig \<Rightarrow> int \<Rightarrow> MemberConfig option" where
  "getMemberAt c i = do {
     invariant (0 \<le> i \<and> i < int (length (members c)));
     Some (members c ! nat i)
   }"

definition findMemberByID :: "ReplicaSetConfig \<Rightarrow> int \<Rightarrow> MemberConfig option" where
  "findMemberByID c i = find (\<lambda>m. mcId m = i) (members c)"

text \<open>The loops that return the position of a member, or -1.\<close>

definition indexOrNone :: "('a \<Rightarrow> bool) \<Rightarrow> 'a list \<Rightarrow> int" where
  "indexOrNone P xs = (if indexOf P xs < length xs then int (indexOf P xs) else - 1)"

definition findMemberIndexByHostAndPort :: "ReplicaSetConfig \<Rightarrow> HostAndPort \<Rightarrow> int" where
  "findMemberIndexByHostAndPort c h = indexOrNone (\<lambda>m. HostAndPort_eq (mcHost m) h) (members c)"

definition findMemberIndexByConfigId :: "ReplicaSetConfig \<Rightarrow> int \<Rightarrow> int" where
  "findMemberIndexByConfigId c i = indexOrNone (\<lambda>m. mcId m = i) (members c)"

definition findMemberByHostAndPort :: "ReplicaSetConfig \<Rightarrow> HostAndPort \<Rightarrow> MemberConfig option" where
  "findMemberByHostAndPort c h =
     (let idx = findMemberIndexByHostAndPort c h in if idx \<noteq> - 1 then getMemberAt c idx else None)"

definition findCustomWriteMode :: "ReplicaSetConfig \<Rightarrow> string \<Rightarrow> ErrorCode + ReplicaSetTagPattern" where
  "findCustomWriteMode c name =
     (case customWriteConcernModes c name of None \<Rightarrow> Inl UnknownReplWriteConcern | Some p \<Rightarrow> Inr p)"

definition calculateMajorities :: "ReplicaSetConfig \<Rightarrow> ReplicaSetConfig" where
  "calculateMajorities c =
     (let voters = int (length (filter isVoter (members c)));
          arbiters = int (length (filter mcArbiterOnly (members c)));
          majority = voters div 2 + 1
      in c\<lparr>majorityVoteCount := majority, writeMajority := min majority (voters - arbiters), totalVotingMembers := voters\<rparr>)"

text \<open>A missing key is the only failure of \<open>addTagCountConstraintToPattern\<close>, and it is ignored.\<close>

definition addInternalMode :: "string \<Rightarrow> string \<Rightarrow> int \<Rightarrow> ReplicaSetConfig \<Rightarrow> ReplicaSetConfig option" where
  "addInternalMode modeName tagName minCount c =
     (let (status, pattern) = addTagCountConstraintToPattern tagName minCount (tagConfig c) []
      in if status = StatusOK
         then Some (c\<lparr>customWriteConcernModes := (customWriteConcernModes c)(modeName \<mapsto> pattern)\<rparr>)
         else if status \<noteq> StatusError NoSuchKey then None
         else Some c)"

definition addInternalWriteConcernModes :: "ReplicaSetConfig \<Rightarrow> ReplicaSetConfig option" where
  "addInternalWriteConcernModes c = do {
     c \<leftarrow> addInternalMode ''$majority'' kInternalVoterTagName (writeMajority c) c;
     addInternalMode ''$stepDownCheck'' kInternalElectableTagName 2 c
   }"

text \<open>\<open>initialize\<close> on members that are read already: their tags, the majorities and the modes.\<close>

fun initializeMembers :: "MemberConfig list \<Rightarrow> ReplicaSetTagConfig \<Rightarrow> MemberConfig list \<times> ReplicaSetTagConfig" where
  "initializeMembers [] td = ([], td)"
| "initializeMembers (m # ms) td =
     (let (m, td) = addInternalTags m td; (ms, td) = initializeMembers ms td in (m # ms, td))"

definition finishInitialize :: "ReplicaSetConfig \<Rightarrow> ReplicaSetConfig option" where
  "finishInitialize c = do {
     let (ms, td) = initializeMembers (members c) (tagConfig c);
     c \<leftarrow> addInternalWriteConcernModes (calculateMajorities (c\<lparr>members := ms, tagConfig := td\<rparr>));
     Some (c\<lparr>isInitialized := True\<rparr>)
   }"

text \<open>The body of the loop over the members in \<open>validate\<close>; \<open>configsvr\<close> is the global option
  \<open>serverGlobalParams.configsvr\<close>.\<close>

definition memberOk :: "MemberConfig list \<Rightarrow> nat \<Rightarrow> bool" where
  "memberOk ms i \<longleftrightarrow> validateMember (ms ! i) = StatusOK \<and>
     list_all (\<lambda>j. i = j \<or> mcId (ms ! i) \<noteq> mcId (ms ! j) \<and> \<not> HostAndPort_eq (mcHost (ms ! i)) (mcHost (ms ! j)))
       [0..<length ms]"

definition countMembers :: "(MemberConfig \<Rightarrow> bool) \<Rightarrow> ReplicaSetConfig \<Rightarrow> nat" where
  "countMembers P c = length (filter P (members c))"

definition validate :: "bool \<Rightarrow> ReplicaSetConfig \<Rightarrow> Status" where
  "validate configsvr c =
     (let bad = StatusError BadValue; n = length (members c);
          localhostCount = countMembers (\<lambda>m. isLocalHost (mcHost m)) c;
          voterCount = countMembers isVoter c;
          arbiterCount = countMembers mcArbiterOnly c;
          electableCount = countMembers isElectable c;
          wc = defaultWriteConcern c
      in if cfgVersion c \<le> 0 \<or> cfgVersion c > 2147483647 then bad
         else if replSetName c = '''' then bad
         else if heartbeatInterval c < 0 then bad
         else if n > kMaxMembers \<or> members c = [] then bad
         else if \<not> list_all (memberOk (members c)) [0..<n] then bad
         else if localhostCount \<noteq> 0 \<and> localhostCount \<noteq> n then bad
         else if voterCount > kMaxVotingMembers \<or> voterCount = 0 then bad
         else if electableCount = 0 then bad
         else if wMode wc = '''' \<and> wNumNodes wc = 0 then bad
         else if wMode wc \<noteq> '''' \<and> wMode wc \<noteq> ''majority'' \<and> customWriteConcernModes c (wMode wc) = None then bad
         else if protocolVersion c < 0 \<or> protocolVersion c > 2147483647 then bad
         else if configServer c \<and> protocolVersion c = 0 then bad
         else if configServer c \<and> arbiterCount > 0 then bad
         else if configServer c \<and> \<not> list_all (\<lambda>m. mcBuildIndexes m \<and> mcSlaveDelay m = 0) (members c) then bad
         else if configServer c \<and> \<not> configsvr then bad
         else if \<not> configServer c \<and> configsvr then bad
         else StatusOK)"

text \<open>Feeding the tags of the members to the matcher until it is satisfied.\<close>

fun matchTags :: "ReplicaSetTag list \<Rightarrow> ReplicaSetTagMatch \<Rightarrow> bool \<times> ReplicaSetTagMatch" where
  "matchTags [] m = (False, m)"
| "matchTags (tag # tags) m = (let (ok, m) = match_update tag m in if ok then (True, m) else matchTags tags m)"

fun matchMembers :: "MemberConfig list \<Rightarrow> ReplicaSetTagMatch \<Rightarrow> bool" where
  "matchMembers [] m = False"
| "matchMembers (mc # ms) m = (let (ok, m) = matchTags (mcTags mc) m in ok \<or> matchMembers ms m)"

fun enoughNodes :: "int \<Rightarrow> MemberConfig list \<Rightarrow> bool" where
  "enoughNodes nodesRemaining [] = False"
| "enoughNodes nodesRemaining (m # ms) =
     (if \<not> mcArbiterOnly m then nodesRemaining - 1 \<le> 0 \<or> enoughNodes (nodesRemaining - 1) ms
      else enoughNodes nodesRemaining ms)"

definition checkIfWriteConcernCanBeSatisfied :: "ReplicaSetConfig \<Rightarrow> WriteConcernOptions \<Rightarrow> Status" where
  "checkIfWriteConcernCanBeSatisfied c wc =
     (if wMode wc \<noteq> '''' \<and> wMode wc \<noteq> ''majority''
      then case findCustomWriteMode c (wMode wc) of
             Inl e \<Rightarrow> StatusError e
           | Inr pattern \<Rightarrow> if matchMembers (members c) (newTagMatch pattern) then StatusOK
                            else StatusError CannotSatisfyWriteConcern
      else if enoughNodes (wNumNodes wc) (members c) then StatusOK
      else StatusError CannotSatisfyWriteConcern)"

definition calculatePriorityRank :: "ReplicaSetConfig \<Rightarrow> double \<Rightarrow> int" where
  "calculatePriorityRank c priority = int (length (filter (\<lambda>m. double_less priority (mcPriority m)) (members c)))"

definition getPriorityTakeoverDelay :: "ReplicaSetConfig \<Rightarrow> int \<Rightarrow> Milliseconds option" where
  "getPriorityTakeoverDelay c memberIdx = do {
     m \<leftarrow> getMemberAt c memberIdx;
     Some ((calculatePriorityRank c (mcPriority m) + 1) * electionTimeoutPeriod c)
   }"

subsection \<open>Lookups\<close>

lemma getMemberAt_Some [simp]: "0 \<le> i \<Longrightarrow> i < getNumMembers c \<Longrightarrow> getMemberAt c i = Some (members c ! nat i)"
  by (simp add: getMemberAt_def getNumMembers_def)

lemma getMemberAt_iff: "getMemberAt c i = Some m \<longleftrightarrow> 0 \<le> i \<and> i < getNumMembers c \<and> m = members c ! nat i"
  by (auto simp: getMemberAt_def getNumMembers_def run_simps)

lemma indexOrNone_cases:
  obtains (none) "indexOrNone P xs = - 1" "\<forall>x\<in>set xs. \<not> P x"
  | (found) i where "indexOrNone P xs = int i" "i < length xs" "P (xs ! i)"
proof (cases "indexOf P xs < length xs")
  case True
  then show ?thesis using indexOf_found [OF True] by (intro found [of "indexOf P xs"]) (simp_all add: indexOrNone_def)
next
  case False
  then have "indexOf P xs = length xs" using indexOf_le [of P xs] by simp
  then show ?thesis using False by (intro none) (simp_all add: indexOrNone_def indexOf_none)
qed

lemma indexOrNone_bounds: "- 1 \<le> indexOrNone P xs" "indexOrNone P xs < int (length xs)"
  by (simp_all add: indexOrNone_def)

lemma indexOrNone_iff:
  assumes "i < length xs" and "P (xs ! i)" and "\<And>j. j < length xs \<Longrightarrow> P (xs ! j) \<Longrightarrow> j = i"
  shows "indexOrNone P xs = int i"
proof (cases rule: indexOrNone_cases [of P xs])
  case none
  then show ?thesis using assms(1,2) by simp
next
  case (found j)
  then show ?thesis using assms(3) by simp
qed

subsection \<open>Validated configurations\<close>

text \<open>What the loop over the members establishes.\<close>

lemma membersOk_iff:
  "list_all (memberOk ms) [0..<length ms] \<longleftrightarrow>
     (\<forall>m\<in>set ms. validateMember m = StatusOK) \<and> distinct (map mcId ms) \<and> distinct (map (hostKey \<circ> mcHost) ms)"
  (is "?l \<longleftrightarrow> ?r")
proof
  assume ?l
  then have ok: "memberOk ms i" if "i < length ms" for i using that by (simp add: list_all_iff)
  have "mcId (ms ! i) \<noteq> mcId (ms ! j) \<and> hostKey (mcHost (ms ! i)) \<noteq> hostKey (mcHost (ms ! j))"
    if "i < length ms" "j < length ms" "i \<noteq> j" for i j
    using ok [OF that(1)] that(2,3) by (auto simp: memberOk_def list_all_iff HostAndPort_eq_iff)
  moreover have "validateMember m = StatusOK" if "m \<in> set ms" for m
    using that ok by (auto simp: in_set_conv_nth memberOk_def)
  ultimately show ?r by (simp add: distinct_conv_nth)
next
  assume r: ?r
  have "memberOk ms i" if "i < length ms" for i
    using r that by (auto simp: memberOk_def list_all_iff distinct_conv_nth HostAndPort_eq_iff)
  then show ?l by (simp add: list_all_iff)
qed

text \<open>A well-formed configuration: unique ids and hosts, limits on the numbers, and the constraints on
  electable members and arbiters.\<close>

definition config_wf :: "ReplicaSetConfig \<Rightarrow> bool" where
  "config_wf c \<longleftrightarrow> distinct (map mcId (members c)) \<and> distinct (map (hostKey \<circ> mcHost) (members c)) \<and>
     members c \<noteq> [] \<and> length (members c) \<le> 50 \<and>
     0 < countMembers isVoter c \<and> countMembers isVoter c \<le> 7 \<and> 0 < countMembers isElectable c \<and>
     (\<forall>m\<in>set (members c). 0 \<le> mcId m \<and> mcId m \<le> 255 \<and> (mcVotes m = 0 \<or> mcVotes m = 1) \<and>
        (mcArbiterOnly m \<longrightarrow> isVoter m \<and> mcTags m = []) \<and>
        (isElectable m \<longrightarrow> isVoter m \<and> \<not> mcHidden m \<and> mcBuildIndexes m \<and> mcSlaveDelay m = 0))"

lemma validate_config_wf:
  assumes "validate configsvr c = StatusOK"
  shows "config_wf c"
proof -
  have checks: "members c \<noteq> []" "length (members c) \<le> kMaxMembers" "list_all (memberOk (members c)) [0..<length (members c)]"
    "countMembers isVoter c \<le> kMaxVotingMembers" "countMembers isVoter c \<noteq> 0" "countMembers isElectable c \<noteq> 0"
    using assms by (auto simp: validate_def Let_def split: if_splits)
  have "0 \<le> mcId m \<and> mcId m \<le> 255 \<and> (mcVotes m = 0 \<or> mcVotes m = 1) \<and>
      (mcArbiterOnly m \<longrightarrow> isVoter m \<and> mcTags m = []) \<and>
      (isElectable m \<longrightarrow> isVoter m \<and> \<not> mcHidden m \<and> mcBuildIndexes m \<and> mcSlaveDelay m = 0)"
    if "validateMember m = StatusOK" for m
  proof -
    have "isElectable m \<Longrightarrow> \<not> double_eq (mcPriority m) (Finite 0)"
      by (auto simp: isElectable_def double_eq_def)
    then show ?thesis using that by (auto simp: validateMember_def isVoter_def split: if_splits)
  qed
  then show ?thesis using checks by (simp add: config_wf_def membersOk_iff kMaxMembers_def kMaxVotingMembers_def)
qed

subsection \<open>Majorities\<close>

text \<open>Quorums of voters: any two of them have a voter in common, so that two candidates that a quorum
  each voted for are the same if no voter votes twice.\<close>

locale quorum =
  fixes isQuorum :: "nat set \<Rightarrow> bool"
  assumes intersect: "isQuorum Q \<Longrightarrow> isQuorum Q' \<Longrightarrow> Q \<inter> Q' \<noteq> {}"
begin

lemma nonempty: "isQuorum Q \<Longrightarrow> Q \<noteq> {}"
  using intersect [of Q Q] by blast

lemma agreement:
  assumes "isQuorum Q" and "isQuorum Q'" and "\<And>v. v \<in> Q \<Longrightarrow> voted v c" and "\<And>v. v \<in> Q' \<Longrightarrow> voted v c'"
    and "\<And>v c c'. voted v c \<Longrightarrow> voted v c' \<Longrightarrow> c = c'"
  shows "c = c'"
  using intersect [OF assms(1,2)] assms(3-5) by blast

end

definition voters :: "ReplicaSetConfig \<Rightarrow> nat set" where
  "voters c = {i. i < length (members c) \<and> isVoter (members c ! i)}"

definition voteMajority :: "ReplicaSetConfig \<Rightarrow> nat set \<Rightarrow> bool" where
  "voteMajority c Q \<longleftrightarrow> Q \<subseteq> voters c \<and> int (card Q) \<ge> majorityVoteCount (calculateMajorities c)"

lemma finite_voters [simp]: "finite (voters c)"
  by (simp add: voters_def)

lemma card_voters: "card (voters c) = countMembers isVoter c"
  by (simp add: voters_def countMembers_def length_filter_conv_card)

lemma calculateMajorities_count:
  "majorityVoteCount (calculateMajorities c) = int (countMembers isVoter c) div 2 + 1"
  "totalVotingMembers (calculateMajorities c) = int (countMembers isVoter c)"
  "members (calculateMajorities c) = members c" "tagConfig (calculateMajorities c) = tagConfig c"
  by (simp_all add: calculateMajorities_def Let_def countMembers_def)

interpretation maj: quorum "voteMajority c" for c
proof
  fix Q Q' assume Q: "voteMajority c Q" "voteMajority c Q'"
  then have sub: "Q \<subseteq> voters c" "Q' \<subseteq> voters c" by (simp_all add: voteMajority_def)
  then have fin: "finite Q" "finite Q'" by (auto intro: finite_subset)
  show "Q \<inter> Q' \<noteq> {}"
  proof
    assume "Q \<inter> Q' = {}"
    then have "card Q + card Q' = card (Q \<union> Q')" using fin by (simp add: card_Un_disjoint)
    also have "\<dots> \<le> countMembers isVoter c" using sub card_mono [of "voters c" "Q \<union> Q'"] by (simp add: card_voters)
    finally have "int (card Q) + int (card Q') \<le> int (countMembers isVoter c)" by linarith
    moreover have "int (countMembers isVoter c) div 2 + 1 \<le> int (card Q)" "int (countMembers isVoter c) div 2 + 1 \<le> int (card Q')"
      using Q by (simp_all add: voteMajority_def calculateMajorities_count)
    ultimately show False by linarith
  qed
qed

subsection \<open>Write concerns\<close>

lemma enoughNodes_iff:
  "enoughNodes n ms \<longleftrightarrow> filter (\<lambda>m. \<not> mcArbiterOnly m) ms \<noteq> [] \<and> n \<le> int (length (filter (\<lambda>m. \<not> mcArbiterOnly m) ms))"
  by (induction n ms rule: enoughNodes.induct) auto

lemma matchTags_matchAll:
  "matchTags tags m = (ok, m') \<Longrightarrow> ok \<longleftrightarrow> tags \<noteq> [] \<and> match_isSatisfied (matchAll tags m)"
  "matchTags tags m = (False, m') \<Longrightarrow> m' = matchAll tags m"
proof -
  show "matchTags tags m = (ok, m') \<Longrightarrow> ok \<longleftrightarrow> tags \<noteq> [] \<and> match_isSatisfied (matchAll tags m)"
  proof (induction tags arbitrary: m)
    case (Cons t ts)
    show ?case
    proof (cases "match_isSatisfied (bindTag t m)")
      case True
      then show ?thesis using Cons.prems matchAll_mono [OF True] by (simp add: match_update_def Let_def)
    next
      case False
      then show ?thesis using Cons.prems Cons.IH [of "bindTag t m"]
        by (cases ts) (simp_all add: match_update_def Let_def)
    qed
  qed simp
  show "matchTags tags m = (False, m') \<Longrightarrow> m' = matchAll tags m"
    by (induction tags arbitrary: m) (auto simp: match_update_def Let_def split: if_splits)
qed

definition allTags :: "ReplicaSetConfig \<Rightarrow> ReplicaSetTag list" where
  "allTags c = concat (map mcTags (members c))"

lemma matchMembers_iff:
  "matchMembers ms m \<longleftrightarrow> concat (map mcTags ms) \<noteq> [] \<and> match_isSatisfied (matchAll (concat (map mcTags ms)) m)"
proof (induction ms arbitrary: m)
  case (Cons mc ms)
  obtain ok m' where run: "matchTags (mcTags mc) m = (ok, m')" by (cases "matchTags (mcTags mc) m")
  show ?case
  proof (cases ok)
    case True
    then have "mcTags mc \<noteq> []" "match_isSatisfied (matchAll (mcTags mc) m)" using matchTags_matchAll(1) [OF run] by simp_all
    then show ?thesis using True run matchAll_mono by simp
  next
    case False
    then have m': "m' = matchAll (mcTags mc) m" using run by (intro matchTags_matchAll(2)) simp
    have no: "mcTags mc = [] \<or> \<not> match_isSatisfied (matchAll (mcTags mc) m)"
      using False matchTags_matchAll(1) [OF run] by blast
    have "matchMembers (mc # ms) m \<longleftrightarrow> matchMembers ms m'" using False run by simp
    also have "\<dots> \<longleftrightarrow> concat (map mcTags ms) \<noteq> [] \<and> match_isSatisfied (matchAll (concat (map mcTags ms)) m')"
      by (rule Cons.IH)
    finally have "matchMembers (mc # ms) m \<longleftrightarrow> concat (map mcTags ms) \<noteq> [] \<and>
        match_isSatisfied (matchAll (concat (map mcTags ms)) (matchAll (mcTags mc) m))" by (simp only: m')
    moreover have "concat (map mcTags (mc # ms)) = mcTags mc @ concat (map mcTags ms)" by simp
    ultimately show ?thesis using no unfolding matchAll_simps(3) by (metis append_is_Nil_conv matchAll_simps(1,3) append_Nil2)
  qed
qed simp

lemma custom_mode_iff:
  assumes "customWriteConcernModes c (wMode wc) = Some pattern" and "wMode wc \<notin> {'''', ''majority''}"
    and "distinct (map conKeyIndex pattern)"
  shows "checkIfWriteConcernCanBeSatisfied c wc = StatusOK \<longleftrightarrow>
    allTags c \<noteq> [] \<and> (\<forall>k\<in>set pattern. conMinCount k \<le> int (card (valuesOf (conKeyIndex k) (allTags c))))"
  using assms match_isSatisfied_iff [OF hasSeen_matchAll [OF assms(3)], of "allTags c"]
  by (simp add: checkIfWriteConcernCanBeSatisfied_def findCustomWriteMode_def matchMembers_iff allTags_def)

end
