(* ===== verification/WriteConcern.thy ===== *)
theory WriteConcern
  imports ReplConfig
begin

text \<open>
  The internal tags and write concern modes of a configuration: every voter that bears data gets a tag
  with its own value under the voter key, so that the internal mode for majority writes, which asks for
  as many different values as the write majority, can be satisfied by every validated configuration.
\<close>

subsection \<open>The internal tags\<close>

text \<open>A step that adds tags keeps the keys of the table different and what tags mean.\<close>

definition extends :: "ReplicaSetTagConfig \<Rightarrow> ReplicaSetTagConfig \<Rightarrow> bool" where
  "extends td td' \<longleftrightarrow> (distinct (map fst td) \<longrightarrow> distinct (map fst td')) \<and>
     (\<forall>t kv. tagMeaning td t = Some kv \<longrightarrow> tagMeaning td' t = Some kv)"

lemma extends_refl [simp]: "extends td td"
  by (simp add: extends_def)

lemma extends_trans: "extends td td' \<Longrightarrow> extends td' td'' \<Longrightarrow> extends td td''"
  by (simp add: extends_def)

lemma makeTag_extends:
  assumes "makeTag key val td = (tag, td')"
  shows "extends td td'" and "tagMeaning td' tag = Some (key, val)"
proof -
  have "distinct (map fst td')" if "distinct (map fst td)"
  proof (cases rule: makeTag_cases [of key td val])
    case newKey
    then have "key \<notin> set (map fst td)" by (auto simp: findKeyIndex_def indexOf_none)
    moreover have "td' = td @ [(key, [val])]" using assms newKey by simp
    ultimately show ?thesis using that by simp
  next
    case (newValue k vs)
    then have "map fst td' = map fst td" using assms by (auto simp: map_update intro!: list_update_same_conv [THEN iffD2])
    then show ?thesis using that by simp
  next
    case (known k vs i)
    then show ?thesis using assms that by simp
  qed
  then show "extends td td'" and "tagMeaning td' tag = Some (key, val)"
    using makeTag_meaning [of key val td] assms by (simp_all add: extends_def tagMeaning_def)
qed

lemma addInternalTag_run:
  assumes "addInternalTag b key (m, td) = (m', td')"
  shows "extends td td'" "m'\<lparr>mcTags := mcTags m\<rparr> = m" "set (mcTags m) \<subseteq> set (mcTags m')"
    "b \<Longrightarrow> \<exists>tag\<in>set (mcTags m'). tagMeaning td' tag = Some (key, intToString (mcId m))"
    "\<not> b \<Longrightarrow> m' = m"
proof -
  obtain tag td1 where mk: "makeTag key (intToString (mcId m)) td = (tag, td1)" by (cases "makeTag key (intToString (mcId m)) td")
  note ext = makeTag_extends [OF mk]
  show "extends td td'" "m'\<lparr>mcTags := mcTags m\<rparr> = m" "set (mcTags m) \<subseteq> set (mcTags m')"
    "b \<Longrightarrow> \<exists>tag\<in>set (mcTags m'). tagMeaning td' tag = Some (key, intToString (mcId m))" "\<not> b \<Longrightarrow> m' = m"
    using assms mk ext by (auto simp: addInternalTag_def Let_def split: if_splits)
qed

text \<open>The members of an initialized configuration are those that were read, up to their tags, and every
  voter that bears data has a tag that means its id under the voter key.\<close>

lemma addInternalTags_run:
  assumes "addInternalTags m td = (m', td')"
  shows "extends td td'" "m'\<lparr>mcTags := mcTags m\<rparr> = m"
    "isVoter m \<Longrightarrow> \<not> mcArbiterOnly m \<Longrightarrow>
       \<exists>tag\<in>set (mcTags m'). tagMeaning td' tag = Some (kInternalVoterTagName, intToString (mcId m))"
    "mcArbiterOnly m \<Longrightarrow> mcTags m' = mcTags m"
proof -
  obtain m1 td1 where r1: "addInternalTag (isVoter m \<and> \<not> mcArbiterOnly m) kInternalVoterTagName (m, td) = (m1, td1)"
    by (cases "addInternalTag (isVoter m \<and> \<not> mcArbiterOnly m) kInternalVoterTagName (m, td)")
  obtain m2 td2 where r2: "addInternalTag (isElectable m) kInternalElectableTagName (m1, td1) = (m2, td2)"
    by (cases "addInternalTag (isElectable m) kInternalElectableTagName (m1, td1)")
  have r3: "addInternalTag (\<not> mcArbiterOnly m) kInternalAllTagName (m2, td2) = (m', td')"
    using assms r1 r2 by (simp add: addInternalTags_def)
  note f1 = addInternalTag_run [OF r1] and f2 = addInternalTag_run [OF r2] and f3 = addInternalTag_run [OF r3]
  have ext: "extends td1 td'" using f2(1) f3(1) extends_trans by blast
  show "extends td td'" using f1(1) ext extends_trans by blast
  have "m'\<lparr>mcTags := mcTags m\<rparr> = m'\<lparr>mcTags := mcTags m2, mcTags := mcTags m1, mcTags := mcTags m\<rparr>" by simp
  then show "m'\<lparr>mcTags := mcTags m\<rparr> = m" using f1(2) f2(2) f3(2) by metis
  show "\<exists>tag\<in>set (mcTags m'). tagMeaning td' tag = Some (kInternalVoterTagName, intToString (mcId m))"
    if v: "isVoter m" "\<not> mcArbiterOnly m"
  proof -
    obtain tag where "tag \<in> set (mcTags m1)" "tagMeaning td1 tag = Some (kInternalVoterTagName, intToString (mcId m))"
      using f1(4) v by blast
    then have "tag \<in> set (mcTags m')" "tagMeaning td' tag = Some (kInternalVoterTagName, intToString (mcId m))"
      using f2(3) f3(3) ext unfolding extends_def by blast+
    then show ?thesis ..
  qed
  show "mcTags m' = mcTags m" if "mcArbiterOnly m"
    using f1(5) f2(5) f3(5) that by (simp add: isElectable_def)
qed

lemma initializeMembers_run:
  assumes "initializeMembers ms td = (ms', td')"
  shows "extends td td'" "map (\<lambda>m. m\<lparr>mcTags := []\<rparr>) ms' = map (\<lambda>m. m\<lparr>mcTags := []\<rparr>) ms"
    "\<forall>m\<in>set ms'. isVoter m \<and> \<not> mcArbiterOnly m \<longrightarrow>
       (\<exists>tag\<in>set (mcTags m). tagMeaning td' tag = Some (kInternalVoterTagName, intToString (mcId m)))"
proof -
  have "extends td td' \<and> map (\<lambda>m. m\<lparr>mcTags := []\<rparr>) ms' = map (\<lambda>m. m\<lparr>mcTags := []\<rparr>) ms \<and>
    (\<forall>m\<in>set ms'. isVoter m \<and> \<not> mcArbiterOnly m \<longrightarrow>
       (\<exists>tag\<in>set (mcTags m). tagMeaning td' tag = Some (kInternalVoterTagName, intToString (mcId m))))"
    using assms
  proof (induction ms arbitrary: td ms')
    case (Cons m ms)
    obtain m1 td1 where r1: "addInternalTags m td = (m1, td1)" by (cases "addInternalTags m td")
    obtain ms2 where r2: "initializeMembers ms td1 = (ms2, td')" and ms': "ms' = m1 # ms2"
      using Cons.prems r1 by (auto simp: split: prod.splits)
    note f1 = addInternalTags_run [OF r1] and IH = Cons.IH [OF r2]
    have same: "m1\<lparr>mcTags := []\<rparr> = m\<lparr>mcTags := []\<rparr>" using arg_cong [OF f1(2), of "\<lambda>x. x\<lparr>mcTags := []\<rparr>"] by simp
    have eq: "isVoter m1 = isVoter m" "mcArbiterOnly m1 = mcArbiterOnly m" "mcId m1 = mcId m"
      using arg_cong [OF f1(2), of isVoter] arg_cong [OF f1(2), of mcArbiterOnly] arg_cong [OF f1(2), of mcId]
      by (simp_all add: isVoter_def)
    have "extends td td'" using f1(1) IH extends_trans by blast
    moreover have "\<exists>tag\<in>set (mcTags m1). tagMeaning td' tag = Some (kInternalVoterTagName, intToString (mcId m1))"
      if "isVoter m1" "\<not> mcArbiterOnly m1"
      using f1(3) that IH unfolding eq extends_def by blast
    ultimately show ?case using IH same ms' by auto
  qed simp
  then show "extends td td'" "map (\<lambda>m. m\<lparr>mcTags := []\<rparr>) ms' = map (\<lambda>m. m\<lparr>mcTags := []\<rparr>) ms"
    "\<forall>m\<in>set ms'. isVoter m \<and> \<not> mcArbiterOnly m \<longrightarrow>
       (\<exists>tag\<in>set (mcTags m). tagMeaning td' tag = Some (kInternalVoterTagName, intToString (mcId m)))" by blast+
qed

subsection \<open>Majority writes\<close>

lemma finishInitialize_run:
  assumes "finishInitialize c0 = Some c" and "initializeMembers (members c0) (tagConfig c0) = (ms, td)"
    and "findKeyIndex kInternalVoterTagName td < length td"
  shows "members c = ms" "tagConfig c = td"
    "writeMajority c \<le> int (length (filter isVoter ms)) - int (length (filter mcArbiterOnly ms))"
    "customWriteConcernModes c ''$majority'' =
       Some [TagCountConstraint (int (findKeyIndex kInternalVoterTagName td)) (writeMajority c)]"
  using assms
  by (auto simp: finishInitialize_def addInternalWriteConcernModes_def addInternalMode_def
      addTagCountConstraintToPattern_def calculateMajorities_def run_simps Let_def split: if_splits)

lemma addInternalMode_distinct:
  assumes "addInternalMode mode tag n c = Some c'"
    and "\<forall>name pattern. customWriteConcernModes c name = Some pattern \<longrightarrow> distinct (map conKeyIndex pattern)"
  shows "\<forall>name pattern. customWriteConcernModes c' name = Some pattern \<longrightarrow> distinct (map conKeyIndex pattern)"
  using assms by (auto simp: addInternalMode_def addTagCountConstraintToPattern_def Let_def split: if_splits prod.splits)

lemma finishInitialize_modes:
  assumes "finishInitialize c0 = Some c" and "customWriteConcernModes c0 = Map.empty"
  shows "\<forall>name pattern. customWriteConcernModes c name = Some pattern \<longrightarrow> distinct (map conKeyIndex pattern)"
proof -
  obtain ms td where "initializeMembers (members c0) (tagConfig c0) = (ms, td)"
    by (cases "initializeMembers (members c0) (tagConfig c0)")
  then obtain c1 c2 where c: "addInternalMode ''$majority'' kInternalVoterTagName
        (writeMajority (calculateMajorities (c0\<lparr>members := ms, tagConfig := td\<rparr>)))
        (calculateMajorities (c0\<lparr>members := ms, tagConfig := td\<rparr>)) = Some c1"
      "addInternalMode ''$stepDownCheck'' kInternalElectableTagName 2 c1 = Some c2" "c = c2\<lparr>isInitialized := True\<rparr>"
    using assms(1) by (auto simp: finishInitialize_def addInternalWriteConcernModes_def run_simps)
  have "\<forall>name pattern. customWriteConcernModes c1 name = Some pattern \<longrightarrow> distinct (map conKeyIndex pattern)"
    by (rule addInternalMode_distinct [OF c(1)]) (simp add: calculateMajorities_def Let_def assms(2))
  then have "\<forall>name pattern. customWriteConcernModes c2 name = Some pattern \<longrightarrow> distinct (map conKeyIndex pattern)"
    by (rule addInternalMode_distinct [OF c(2)])
  then show ?thesis using c(3) by simp
qed

lemma voter_value:
  assumes td: "distinct (map fst td)" and tag: "tagMeaning td tag = Some (key, val)" and "tag \<in> set tags"
  shows "findKeyIndex key td < length td"
    and "val \<in> (\<lambda>v. snd (td ! findKeyIndex key td) ! nat v) ` valuesOf (int (findKeyIndex key td)) tags"
proof -
  from tag obtain k i where tag': "tag = ReplicaSetTag (int k) (int i)" and k: "k < length td" "fst (td ! k) = key"
    and i: "i < length (snd (td ! k))" "snd (td ! k) ! i = val" by (auto elim: tagMeaning_Some)
  have "\<exists>e\<in>set td. fst e = key" using k nth_mem by blast
  then show lt: "findKeyIndex key td < length td"
    using indexOf_none [of "\<lambda>e. fst e = key" td] indexOf_le [of "\<lambda>e. fst e = key" td] by (auto simp: findKeyIndex_def)
  then have "fst (td ! findKeyIndex key td) = key"
    using indexOf_found [of "\<lambda>e. fst e = key" td] by (simp add: findKeyIndex_def)
  then have eq: "findKeyIndex key td = k"
    using nth_eq_iff_index_eq [OF td, of "findKeyIndex key td" k] lt k by simp
  have "int i \<in> valuesOf (int k) tags" using assms(3) tag' unfolding valuesOf_def by force
  then have "snd (td ! k) ! nat (int i) \<in> (\<lambda>v. snd (td ! k) ! nat v) ` valuesOf (int k) tags" by (rule imageI)
  then show "val \<in> (\<lambda>v. snd (td ! findKeyIndex key td) ! nat v) ` valuesOf (int (findKeyIndex key td)) tags"
    using i eq by simp
qed

lemma finite_valuesOf [simp]: "finite (valuesOf k tags)"
proof -
  have "valuesOf k tags \<subseteq> tagValueIndex ` set tags" by (auto simp: valuesOf_def)
  then show ?thesis by (rule finite_subset) simp
qed

lemma voters_without_arbiters:
  assumes "\<forall>m\<in>set ms. mcArbiterOnly m \<longrightarrow> isVoter m"
  shows "length (filter (\<lambda>m. isVoter m \<and> \<not> mcArbiterOnly m) ms) + length (filter mcArbiterOnly ms) = length (filter isVoter ms)"
  using assms by (induction ms) auto

text \<open>The members of a configuration bind a different value to the voter key for every voter that
  bears data.\<close>

lemma voter_values_card:
  assumes td: "distinct (map fst td)" and ids: "distinct (map mcId ms)" "\<forall>m\<in>set ms. 0 \<le> mcId m"
    and tags: "\<forall>m\<in>set ms. isVoter m \<and> \<not> mcArbiterOnly m \<longrightarrow>
       (\<exists>tag\<in>set (mcTags m). tagMeaning td tag = Some (kInternalVoterTagName, intToString (mcId m)))"
  shows "length (filter (\<lambda>m. isVoter m \<and> \<not> mcArbiterOnly m) ms) \<le>
    card (valuesOf (int (findKeyIndex kInternalVoterTagName td)) (concat (map mcTags ms)))"
    (is "_ \<le> card ?vs")
proof -
  let ?ps = "filter (\<lambda>m. isVoter m \<and> \<not> mcArbiterOnly m) ms"
  let ?f = "\<lambda>v. snd (td ! findKeyIndex kInternalVoterTagName td) ! nat v"
  have "inj_on intToString (set (map mcId ?ps))" using ids(2) by (auto intro!: inj_onI intToString_inj)
  moreover have "distinct (map mcId ?ps)" using ids(1) by (simp add: distinct_map_filter)
  ultimately have "distinct (map intToString (map mcId ?ps))" by (simp only: distinct_map)
  then have "length ?ps = card (set (map intToString (map mcId ?ps)))" by (metis distinct_card length_map)
  also have "\<dots> \<le> card (?f ` ?vs)"
  proof (rule card_mono)
    show "set (map intToString (map mcId ?ps)) \<subseteq> ?f ` ?vs"
    proof
      fix val assume "val \<in> set (map intToString (map mcId ?ps))"
      then obtain m where m: "m \<in> set ms" "isVoter m" "\<not> mcArbiterOnly m" "val = intToString (mcId m)" by auto
      then obtain tag where "tag \<in> set (mcTags m)" "tagMeaning td tag = Some (kInternalVoterTagName, val)" using tags by blast
      moreover from this(1) have "tag \<in> set (concat (map mcTags ms))" using m(1) by auto
      ultimately show "val \<in> ?f ` ?vs" by (intro voter_value(2) [OF td])
    qed
  qed simp
  also have "\<dots> \<le> card ?vs" by (rule card_image_le) simp
  finally show ?thesis .
qed

subsection \<open>Properties\<close>

text \<open>C31: The internal mode for majority writes, \<open>$majority\<close>, can be satisfied by every configuration
  that \<open>initialize\<close> built and \<open>validate\<close> accepts: its members bind enough different values to the
  voter tag.\<close>

theorem majority_write_satisfiable:
  assumes "finishInitialize c0 = Some c" and "distinct (map fst (tagConfig c0))" and "validate configsvr c = StatusOK"
  shows "checkIfWriteConcernCanBeSatisfied c \<lparr>wNumNodes = n, wMode = ''$majority''\<rparr> = StatusOK"
proof -
  obtain ms td where run: "initializeMembers (members c0) (tagConfig c0) = (ms, td)"
    by (cases "initializeMembers (members c0) (tagConfig c0)")
  note tags = initializeMembers_run [OF run]
  have td: "distinct (map fst td)" using tags(1) assms(2) by (simp add: extends_def)
  have ms: "members c = ms" using assms(1) run
    by (auto simp: finishInitialize_def addInternalWriteConcernModes_def addInternalMode_def
        calculateMajorities_def run_simps Let_def split: if_splits prod.splits)
  have wf: "config_wf c" by (rule validate_config_wf [OF assms(3)])
  have "filter isElectable ms \<noteq> []" using wf ms by (auto simp: config_wf_def countMembers_def)
  then obtain m where m: "m \<in> set ms" "isElectable m" by (auto simp: filter_empty_conv)
  then have "isVoter m" "\<not> mcArbiterOnly m" using wf ms by (auto simp: config_wf_def isElectable_def)
  then obtain tag where tag: "tag \<in> set (mcTags m)" "tagMeaning td tag = Some (kInternalVoterTagName, intToString (mcId m))"
    using tags(3) m(1) by blast
  then have ne: "\<exists>m\<in>set ms. mcTags m \<noteq> []" using m(1) by (intro bexI [of _ m]) auto
  have key: "findKeyIndex kInternalVoterTagName td < length td" using voter_value(1) [OF td tag(2,1)] by simp
  note fin = finishInitialize_run [OF assms(1) run key]
  have "length (filter (\<lambda>m. isVoter m \<and> \<not> mcArbiterOnly m) ms) + length (filter mcArbiterOnly ms) = length (filter isVoter ms)"
    using wf ms by (intro voters_without_arbiters) (simp add: config_wf_def)
  then have "writeMajority c \<le> int (length (filter (\<lambda>m. isVoter m \<and> \<not> mcArbiterOnly m) ms))"
    using fin(3) by linarith
  also have "\<dots> \<le> int (card (valuesOf (int (findKeyIndex kInternalVoterTagName td)) (concat (map mcTags ms))))"
    using voter_values_card [OF td _ _ tags(3)] wf ms by (simp add: config_wf_def)
  finally show ?thesis
    using ne fin(4) ms by (subst custom_mode_iff [where pattern = "[TagCountConstraint (int (findKeyIndex kInternalVoterTagName td)) (writeMajority c)]"])
      (auto simp: allTags_def)
qed

definition sampleMember :: "int \<Rightarrow> string \<Rightarrow> rat \<Rightarrow> bool \<Rightarrow> MemberConfig" where
  "sampleMember i host prio arbiter = \<lparr>mcId = i, mcHost = HostAndPort host 1, mcPriority = Finite prio, mcVotes = 1,
     mcArbiterOnly = arbiter, mcSlaveDelay = 0, mcHidden = False, mcBuildIndexes = True, mcTags = []\<rparr>"

definition sampleConfig :: ReplicaSetConfig where
  "sampleConfig = emptyConfig\<lparr>replSetName := ''rs0'', defaultWriteConcern := \<lparr>wNumNodes = 1, wMode = ''''\<rparr>,
     members := [sampleMember 0 ''a'' 2 False, sampleMember 1 ''b'' 1 False, sampleMember 2 ''c'' 0 True]\<rparr>"

definition sampleSet :: ReplicaSetConfig where
  "sampleSet = the (finishInitialize sampleConfig)"

lemma sampleConfig_ok: "finishInitialize sampleConfig \<noteq> None \<and> tagConfig sampleConfig = [] \<and>
    validate False (the (finishInitialize sampleConfig)) = StatusOK"
  by code_simp

theorem majority_write_satisfiable_witness:
  "\<exists>c. finishInitialize sampleConfig = Some c \<and> distinct (map fst (tagConfig sampleConfig)) \<and>
     validate False c = StatusOK \<and>
     checkIfWriteConcernCanBeSatisfied c \<lparr>wNumNodes = 1, wMode = ''$majority''\<rparr> = StatusOK"
  using majority_write_satisfiable [of sampleConfig "the (finishInitialize sampleConfig)" False 1] sampleConfig_ok
  by auto

text \<open>C32: A write concern with a number, or with the mode \<open>majority\<close>, can be satisfied exactly if
  enough members bear data. A custom mode can be satisfied exactly if the members together bind as
  many different values to each of its tag keys as the mode asks for; an unknown mode is an error.\<close>

theorem write_concern_spec:
  assumes "validate configsvr c = StatusOK"
    and "\<forall>name pattern. customWriteConcernModes c name = Some pattern \<longrightarrow> distinct (map conKeyIndex pattern)"
  shows "checkIfWriteConcernCanBeSatisfied c wc =
    (if wMode wc \<in> {'''', ''majority''}
     then if wNumNodes wc \<le> int (countMembers (\<lambda>m. \<not> mcArbiterOnly m) c) then StatusOK
          else StatusError CannotSatisfyWriteConcern
     else case customWriteConcernModes c (wMode wc) of
            None \<Rightarrow> StatusError UnknownReplWriteConcern
          | Some pattern \<Rightarrow>
              if allTags c \<noteq> [] \<and> (\<forall>k\<in>set pattern. conMinCount k \<le> int (card (valuesOf (conKeyIndex k) (allTags c))))
              then StatusOK else StatusError CannotSatisfyWriteConcern)"
proof (cases "wMode wc \<in> {'''', ''majority''}")
  case True
  have "filter (\<lambda>m. \<not> mcArbiterOnly m) (members c) \<noteq> []"
    using validate_config_wf [OF assms(1)]
    by (auto simp: config_wf_def countMembers_def isElectable_def filter_empty_conv)
  then show ?thesis using True
    by (auto simp: checkIfWriteConcernCanBeSatisfied_def enoughNodes_iff countMembers_def)
next
  case False
  show ?thesis
  proof (cases "customWriteConcernModes c (wMode wc)")
    case None
    then show ?thesis using False by (simp add: checkIfWriteConcernCanBeSatisfied_def findCustomWriteMode_def)
  next
    case (Some pattern)
    have "checkIfWriteConcernCanBeSatisfied c wc \<in> {StatusOK, StatusError CannotSatisfyWriteConcern}"
      using Some False by (simp add: checkIfWriteConcernCanBeSatisfied_def findCustomWriteMode_def)
    then show ?thesis using Some False custom_mode_iff [OF Some False] assms(2) by auto
  qed
qed

theorem write_concern_spec_witness:
  "let c = the (finishInitialize sampleConfig) in
     validate False c = StatusOK \<and>
     (\<forall>name pattern. customWriteConcernModes c name = Some pattern \<longrightarrow> distinct (map conKeyIndex pattern)) \<and>
     checkIfWriteConcernCanBeSatisfied c \<lparr>wNumNodes = 3, wMode = ''''\<rparr> = StatusError CannotSatisfyWriteConcern \<and>
     checkIfWriteConcernCanBeSatisfied c \<lparr>wNumNodes = 2, wMode = ''''\<rparr> = StatusOK"
proof -
  let ?c = "the (finishInitialize sampleConfig)"
  obtain ms td where run: "initializeMembers (members sampleConfig) (tagConfig sampleConfig) = (ms, td)"
    by (cases "initializeMembers (members sampleConfig) (tagConfig sampleConfig)")
  have fin: "finishInitialize sampleConfig = Some ?c" using sampleConfig_ok by simp
  have modes: "\<forall>name pattern. customWriteConcernModes ?c name = Some pattern \<longrightarrow> distinct (map conKeyIndex pattern)"
    using fin by (rule finishInitialize_modes) (simp add: sampleConfig_def emptyConfig_def)
  moreover have "countMembers (\<lambda>m. \<not> mcArbiterOnly m) ?c = 2" by code_simp
  ultimately show ?thesis
    using sampleConfig_ok write_concern_spec [of False ?c "\<lparr>wNumNodes = 3, wMode = ''''\<rparr>"]
      write_concern_spec [of False ?c "\<lparr>wNumNodes = 2, wMode = ''''\<rparr>"] by (simp add: Let_def)
qed

text \<open>C34: The delay before a priority takeover is at least one election timeout, and a member with a
  higher priority takes over earlier than one with a lower priority.\<close>

theorem takeover_delay_order:
  assumes "0 \<le> i" and "i < getNumMembers c" and "0 \<le> j" and "j < getNumMembers c" and "0 < electionTimeoutPeriod c"
    and "double_less (mcPriority (members c ! nat i)) (mcPriority (members c ! nat j))"
  shows "\<exists>di dj. getPriorityTakeoverDelay c i = Some di \<and> getPriorityTakeoverDelay c j = Some dj \<and>
    electionTimeoutPeriod c \<le> dj \<and> dj < di \<and> di \<le> getNumMembers c * electionTimeoutPeriod c"
proof -
  let ?p = "\<lambda>i. mcPriority (members c ! nat i)" and ?r = "\<lambda>i. calculatePriorityRank c (mcPriority (members c ! nat i))"
  have rank: "?r k = int (card {l. l < length (members c) \<and> double_less (?p k) (mcPriority (members c ! l))})" for k
    by (simp add: calculatePriorityRank_def length_filter_conv_card)
  have "{l. l < length (members c) \<and> double_less (?p j) (mcPriority (members c ! l))} \<subset>
      {l. l < length (members c) \<and> double_less (?p i) (mcPriority (members c ! l))}"
      (is "?S j \<subset> ?S i")
  proof (rule psubsetI)
    show "?S j \<subseteq> ?S i" using double_less_trans [OF assms(6)] by auto
    have "nat j \<in> ?S i" "nat j \<notin> ?S j" using assms by (auto simp: getNumMembers_def)
    then show "?S j \<noteq> ?S i" by blast
  qed
  then have "card (?S j) < card (?S i)" by (intro psubset_card_mono) simp_all
  then have less: "?r j < ?r i" unfolding rank by (rule of_nat_less_iff [THEN iffD2])
  have "{l. l < length (members c) \<and> double_less (?p i) (mcPriority (members c ! l))} \<subset> {..<length (members c)}"
    (is "?S i \<subset> ?n")
  proof (rule psubsetI)
    have "nat i \<in> ?n" "nat i \<notin> ?S i" using assms(1,2) by (auto simp: getNumMembers_def)
    then show "?S i \<noteq> ?n" by blast
  qed auto
  then have "card (?S i) < card ?n" by (intro psubset_card_mono) simp_all
  then have "?r i < getNumMembers c" unfolding rank getNumMembers_def by simp
  moreover have "0 \<le> ?r j" unfolding rank by simp
  ultimately have "electionTimeoutPeriod c * 1 \<le> electionTimeoutPeriod c * (?r j + 1)"
    "electionTimeoutPeriod c * (?r j + 1) < electionTimeoutPeriod c * (?r i + 1)"
    "electionTimeoutPeriod c * (?r i + 1) \<le> electionTimeoutPeriod c * getNumMembers c"
    using less assms(5) by (simp_all add: mult_le_cancel_left_pos mult_less_cancel_left_pos)
  then show ?thesis using assms(1-4) by (simp add: getPriorityTakeoverDelay_def mult.commute)
qed

theorem takeover_delay_order_witness:
  "\<exists>di dj. getPriorityTakeoverDelay sampleConfig 1 = Some di \<and> getPriorityTakeoverDelay sampleConfig 0 = Some dj \<and>
    electionTimeoutPeriod sampleConfig \<le> dj \<and> dj < di \<and> di \<le> getNumMembers sampleConfig * electionTimeoutPeriod sampleConfig"
  by (rule takeover_delay_order) (simp_all add: sampleConfig_def sampleMember_def emptyConfig_def getNumMembers_def)

text \<open>C33: A configuration that \<open>validate\<close> accepts is well-formed: ids and hosts are unique, the numbers of
  members and voters are within their limits, somebody is electable, and every electable member votes,
  is visible, is not delayed and builds indexes.\<close>

theorem validate_wf:
  assumes "validate configsvr c = StatusOK"
  shows "config_wf c"
  by (rule validate_config_wf [OF assms])

theorem validate_wf_witness: "validate False (the (finishInitialize sampleConfig)) = StatusOK \<and>
    config_wf (the (finishInitialize sampleConfig))"
  using validate_wf [of False "the (finishInitialize sampleConfig)"] sampleConfig_ok by simp

end
