(* ===== verification/HeartbeatData.thy ===== *)
theory HeartbeatData
  imports ReplConfig
begin

text \<open>
  What a member knows of the others through heartbeats, \<^verbatim>\<open>src/src/mongo/db/repl\<close>:
  \<^verbatim>\<open>repl_set_heartbeat_response.h\<close>, \<^verbatim>\<open>member_heartbeat_data.cpp\<close>, \<^verbatim>\<open>heartbeat_response_action.cpp\<close>
  and the class \<open>PingStats\<close> of \<^verbatim>\<open>topology_coordinator_impl.h\<close>.

  A field of a response that comes with a flag which tells whether it was set is an option. The
  constructor and the setters of \<open>MemberHeartbeatData\<close> always set the state, the election time and
  the optime of the last response, whose getters fail otherwise; these fields are values here, next
  to the other fields of the last response that are read.
\<close>

subsection \<open>Responses and requests\<close>

record ReplSetHeartbeatResponse =
  rspElectionTime :: "Timestamp option"
  rspTime :: "int option"
  rspOpTime :: "OpTime option"
  rspElectable :: "bool option"
  rspMismatch :: bool
  rspIsReplSet :: bool
  rspStateDisagreement :: bool
  rspState :: "MemberState option"
  rspConfigVersion :: int
  rspSetName :: string
  rspHbMsg :: string
  rspSyncingTo :: HostAndPort
  rspConfig :: "ReplicaSetConfig option"
  rspPrimaryId :: "int option"
  rspTerm :: Term

definition newHeartbeatResponse :: ReplSetHeartbeatResponse where
  "newHeartbeatResponse = \<lparr>rspElectionTime = None, rspTime = None, rspOpTime = None, rspElectable = None,
     rspMismatch = False, rspIsReplSet = False, rspStateDisagreement = False, rspState = None,
     rspConfigVersion = - 1, rspSetName = '''', rspHbMsg = '''', rspSyncingTo = noHost, rspConfig = None,
     rspPrimaryId = None, rspTerm = - 1\<rparr>"

subsection \<open>Heartbeat data of one member\<close>

record MemberHeartbeatData =
  health :: int
  upSince :: Date_t
  lastHeartbeat :: Date_t
  lastHeartbeatRecv :: Date_t
  hasAuthIssue :: bool
  hbState :: MemberState
  hbElectionTime :: Timestamp
  hbOpTime :: OpTime
  hbElectable :: "bool option"
  lastHeartbeatMsg :: string
  hbSyncSource :: HostAndPort
  hbConfigVersion :: int
  hbTerm :: Term

definition newHeartbeatData :: MemberHeartbeatData where
  "newHeartbeatData = \<lparr>health = - 1, upSince = 0, lastHeartbeat = 0, lastHeartbeatRecv = 0, hasAuthIssue = False,
     hbState = RS_UNKNOWN, hbElectionTime = Timestamp 0 0, hbOpTime = nullOpTime, hbElectable = None,
     lastHeartbeatMsg = '''', hbSyncSource = noHost, hbConfigVersion = - 1, hbTerm = - 1\<rparr>"

definition isUnelectable :: "MemberHeartbeatData \<Rightarrow> bool" where
  "isUnelectable d \<longleftrightarrow> hbElectable d = Some False"

definition up :: "MemberHeartbeatData \<Rightarrow> bool" where
  "up d \<longleftrightarrow> health d > 0"

definition maybeUp :: "MemberHeartbeatData \<Rightarrow> bool" where
  "maybeUp d \<longleftrightarrow> health d \<noteq> 0"

definition setUpValues :: "Date_t \<Rightarrow> ReplSetHeartbeatResponse \<Rightarrow> MemberHeartbeatData \<Rightarrow> MemberHeartbeatData" where
  "setUpValues now hbResponse d = d\<lparr>
     health := 1,
     upSince := (if upSince d = 0 then now else upSince d),
     hasAuthIssue := False,
     lastHeartbeat := now,
     hbState := (case rspState hbResponse of None \<Rightarrow> RS_UNKNOWN | Some s \<Rightarrow> s),
     hbElectionTime := (case rspElectionTime hbResponse of None \<Rightarrow> hbElectionTime d | Some t \<Rightarrow> t),
     hbOpTime := (case rspOpTime hbResponse of None \<Rightarrow> hbOpTime d | Some t \<Rightarrow> t),
     hbElectable := rspElectable hbResponse,
     lastHeartbeatMsg := rspHbMsg hbResponse,
     hbSyncSource := rspSyncingTo hbResponse,
     hbConfigVersion := rspConfigVersion hbResponse,
     hbTerm := rspTerm hbResponse\<rparr>"

definition setDownValues :: "Date_t \<Rightarrow> string \<Rightarrow> MemberHeartbeatData \<Rightarrow> MemberHeartbeatData" where
  "setDownValues now heartbeatMessage d =
     newHeartbeatData\<lparr>health := 0, upSince := 0, lastHeartbeat := now, hasAuthIssue := False,
       lastHeartbeatRecv := lastHeartbeatRecv d, hbState := RS_DOWN, hbElectionTime := Timestamp 0 0,
       hbOpTime := nullOpTime, lastHeartbeatMsg := heartbeatMessage, hbSyncSource := noHost\<rparr>"

definition setAuthIssue :: "Date_t \<Rightarrow> MemberHeartbeatData \<Rightarrow> MemberHeartbeatData" where
  "setAuthIssue now d =
     newHeartbeatData\<lparr>health := 0, upSince := 0, lastHeartbeat := now, hasAuthIssue := True,
       lastHeartbeatRecv := lastHeartbeatRecv d, hbState := RS_UNKNOWN, hbElectionTime := Timestamp 0 0,
       hbOpTime := nullOpTime, lastHeartbeatMsg := '''', hbSyncSource := noHost\<rparr>"

lemma up_set [simp]:
  "up (setUpValues now r d)" "\<not> up (setDownValues now msg d)" "\<not> up (setAuthIssue now d)" "\<not> up newHeartbeatData"
  "up (d\<lparr>lastHeartbeatRecv := t\<rparr>) = up d"
  by (simp_all add: up_def setUpValues_def setDownValues_def setAuthIssue_def newHeartbeatData_def)

subsection \<open>Ping statistics\<close>

definition INT_MAX :: int where "INT_MAX = 2147483647"
definition UninitializedPing :: Milliseconds where "UninitializedPing = - 1"
definition kMaxHeartbeatRetries :: int where "kMaxHeartbeatRetries = 2"

record PingStats =
  pingCount :: "32 word"
  pingValue :: Milliseconds
  lastHeartbeatStartDate :: Date_t
  numFailuresSinceLastStart :: int

definition newPingStats :: PingStats where
  "newPingStats = \<lparr>pingCount = 0, pingValue = UninitializedPing, lastHeartbeatStartDate = 0, numFailuresSinceLastStart = INT_MAX\<rparr>"

definition ping_start :: "Date_t \<Rightarrow> PingStats \<Rightarrow> PingStats" where
  "ping_start now p = p\<lparr>lastHeartbeatStartDate := now, numFailuresSinceLastStart := 0\<rparr>"

definition ping_hit :: "Milliseconds \<Rightarrow> PingStats \<Rightarrow> PingStats" where
  "ping_hit millis p = p\<lparr>numFailuresSinceLastStart := INT_MAX, pingCount := pingCount p + 1,
     pingValue := (if pingValue p = UninitializedPing then millis else (pingValue p * 4 + millis) sdiv 5)\<rparr>"

text \<open>Incrementing the largest integer overflows, which is undefined.\<close>

definition ping_miss :: "PingStats \<Rightarrow> PingStats option" where
  "ping_miss p = do {
     invariant (numFailuresSinceLastStart p < INT_MAX);
     Some (p\<lparr>numFailuresSinceLastStart := numFailuresSinceLastStart p + 1\<rparr>)
   }"

definition getMillis :: "PingStats \<Rightarrow> Milliseconds" where
  "getMillis p = (if pingValue p = UninitializedPing then 0 else pingValue p)"

subsection \<open>Actions\<close>

datatype Action = NoAction | Reconfig | ScheduleElection | StartElection | StepDownSelf | StepDownRemotePrimary
  | PriorityTakeover

record HeartbeatResponseAction =
  getAction :: Action
  getPrimaryConfigIndex :: int
  getNextHeartbeatStartDate :: Date_t

definition makeNoAction :: HeartbeatResponseAction where
  "makeNoAction = \<lparr>getAction = NoAction, getPrimaryConfigIndex = - 1, getNextHeartbeatStartDate = 0\<rparr>"

definition makeReconfigAction :: HeartbeatResponseAction where
  "makeReconfigAction = makeNoAction\<lparr>getAction := Reconfig\<rparr>"

definition makeScheduleElectionAction :: HeartbeatResponseAction where
  "makeScheduleElectionAction = makeNoAction\<lparr>getAction := ScheduleElection\<rparr>"

definition makePriorityTakeoverAction :: HeartbeatResponseAction where
  "makePriorityTakeoverAction = makeNoAction\<lparr>getAction := PriorityTakeover\<rparr>"

definition makeElectAction :: HeartbeatResponseAction where
  "makeElectAction = makeNoAction\<lparr>getAction := StartElection\<rparr>"

definition makeStepDownSelfAction :: "int \<Rightarrow> HeartbeatResponseAction" where
  "makeStepDownSelfAction primaryIndex = makeNoAction\<lparr>getAction := StepDownSelf, getPrimaryConfigIndex := primaryIndex\<rparr>"

definition makeStepDownRemoteAction :: "int \<Rightarrow> HeartbeatResponseAction" where
  "makeStepDownRemoteAction primaryIndex =
     makeNoAction\<lparr>getAction := StepDownRemotePrimary, getPrimaryConfigIndex := primaryIndex\<rparr>"

definition setNextHeartbeatStartDate :: "Date_t \<Rightarrow> HeartbeatResponseAction \<Rightarrow> HeartbeatResponseAction" where
  "setNextHeartbeatStartDate when a = a\<lparr>getNextHeartbeatStartDate := when\<rparr>"

named_theorems action_defs

lemmas [action_defs] = makeNoAction_def makeReconfigAction_def makeScheduleElectionAction_def makePriorityTakeoverAction_def
  makeElectAction_def makeStepDownSelfAction_def makeStepDownRemoteAction_def setNextHeartbeatStartDate_def

subsection \<open>The average of the ping times\<close>

text \<open>The statistics of a target: they either wait for the next start, or a heartbeat is in progress and
  failed at most once more than it may be retried.\<close>

definition ping_inv :: "PingStats \<Rightarrow> bool" where
  "ping_inv p \<longleftrightarrow> numFailuresSinceLastStart p = INT_MAX \<or>
     0 \<le> numFailuresSinceLastStart p \<and> numFailuresSinceLastStart p \<le> kMaxHeartbeatRetries + 1 \<and> lastHeartbeatStartDate p > 0"

text \<open>A request to the target is under way.\<close>

definition ping_awaits :: "PingStats \<Rightarrow> bool" where
  "ping_awaits p \<longleftrightarrow> 0 \<le> numFailuresSinceLastStart p \<and> numFailuresSinceLastStart p \<le> kMaxHeartbeatRetries \<and> lastHeartbeatStartDate p > 0"

lemma ping_inv_steps:
  "ping_inv newPingStats" "now > 0 \<Longrightarrow> ping_awaits (ping_start now p)" "ping_awaits p \<Longrightarrow> ping_inv p"
  "ping_inv (ping_hit millis p)" "lastHeartbeatStartDate (ping_hit millis p) = lastHeartbeatStartDate p"
  "ping_awaits p \<Longrightarrow> \<exists>p'. ping_miss p = Some p' \<and> ping_inv p' \<and> lastHeartbeatStartDate p' = lastHeartbeatStartDate p"
  by (simp_all add: ping_inv_def ping_awaits_def newPingStats_def ping_start_def ping_hit_def ping_miss_def
      kMaxHeartbeatRetries_def INT_MAX_def)

end
