(* ===== verification/TopologyState.thy ===== *)
theory TopologyState
  imports HeartbeatData Hex "HOL-Library.AList"
begin

text \<open>
  The state of a topology coordinator, \<^verbatim>\<open>src/src/mongo/db/repl/topology_coordinator_impl.h\<close>, and the
  methods of \<^verbatim>\<open>topology_coordinator_impl.cpp\<close> that only read it: the member state, the latest known
  optime, the reasons why a member is not electable, and the electable member of highest priority.

  A member is an index into the configuration, -1 for none. \<open>_hbdata[i]\<close> out of range is undefined and
  is \<^const>\<open>None\<close>, as is a failed \<open>invariant\<close> or \<open>fassert\<close>. In the map \<open>_pings\<close> an absent key stands for
  a default entry, which reading with \<open>[]\<close> inserts and which adds nothing to the number of pings. What
  the log says is left out. \<open>isoDate\<close> stands for \<open>dateToISOStringLocal\<close>, which depends on the time zone
  of the machine.
\<close>

subsection \<open>The state\<close>

datatype Role = Follower | Candidate | Leader
datatype ConfigServerMode = ModeNONE | ModeSCCC | ModeCSRS
datatype ReadCommittedSupport = kUnknown | kNo | kYes

type_synonym OID = int

record TopologyCoordinator =
  tcRole :: Role
  tcElectionId :: OID
  tcElectionTime :: Timestamp
  tcTerm :: Term
  tcCurrentPrimaryIndex :: int
  tcSyncSource :: HostAndPort
  tcSyncSourceBlacklist :: "HostKey \<rightharpoonup> Date_t"
  tcForceSyncSourceIndex :: int
  tcMaxSyncSourceLagSecs :: int
  tcConfigServerMode :: ConfigServerMode
  tcHbmsg :: string
  tcHbmsgTime :: Date_t
  tcSelfIndex :: int
  tcConfig :: ReplicaSetConfig
  tcHbdata :: "MemberHeartbeatData list"
  tcStepDownPending :: bool
  tcStepDownUntil :: Date_t
  tcElectionSleepUntil :: Date_t
  tcMaintenanceModeCalls :: int
  tcFollowerMode :: MemberState
  tcPings :: "(HostKey \<times> PingStats) list"
  tcVoteWhen :: Date_t
  tcVoteWhoId :: int
  tcVoteWhoHost :: HostAndPort
  tcLastVote :: LastVote
  tcReadCommitted :: ReadCommittedSupport

definition leaseTime :: Milliseconds where "leaseTime = 30000"

text \<open>The entries of \<open>_hbdata\<close> with their indices, and the access by index.\<close>

definition indexed :: "TopologyCoordinator \<Rightarrow> (nat \<times> MemberHeartbeatData) list" where
  "indexed s = enumerate 0 (tcHbdata s)"

definition hbdataAt :: "TopologyCoordinator \<Rightarrow> int \<Rightarrow> MemberHeartbeatData option" where
  "hbdataAt s i = do {
     invariant (0 \<le> i \<and> i < int (length (tcHbdata s)));
     Some (tcHbdata s ! nat i)
   }"

definition selfConfig :: "TopologyCoordinator \<Rightarrow> MemberConfig option" where
  "selfConfig s = getMemberAt (tcConfig s) (tcSelfIndex s)"

definition iAmPrimary :: "TopologyCoordinator \<Rightarrow> bool option" where
  "iAmPrimary s =
     (if tcRole s = Leader then do {
        invariant (tcCurrentPrimaryIndex s = tcSelfIndex s);
        Some True
      } else Some False)"

subsection \<open>The member state\<close>

definition hasOnlyAuthErrorUpHeartbeats :: "TopologyCoordinator \<Rightarrow> bool" where
  "hasOnlyAuthErrorUpHeartbeats s =
     (let others = filter (\<lambda>(i, d). int i \<noteq> tcSelfIndex s) (indexed s)
      in list_all (\<lambda>(i, d). \<not> up d) others \<and> list_ex (\<lambda>(i, d). hasAuthIssue d) others)"

definition removedByMode :: "TopologyCoordinator \<Rightarrow> bool option" where
  "removedByMode s =
     (if configServer (tcConfig s)
      then if tcConfigServerMode s = ModeNONE then Some True
           else if tcConfigServerMode s = ModeCSRS then do {
             invariant (tcReadCommitted s \<noteq> kUnknown);
             Some (tcReadCommitted s = kNo)
           } else Some False
      else Some (tcConfigServerMode s \<noteq> ModeNONE))"

definition getMemberState :: "TopologyCoordinator \<Rightarrow> MemberState option" where
  "getMemberState s =
     (if tcSelfIndex s = - 1 then Some (if isInitialized (tcConfig s) then RS_REMOVED else RS_STARTUP)
      else do {
        removed \<leftarrow> removedByMode s;
        if removed then Some RS_REMOVED
        else if tcRole s = Leader then do {
          invariant (tcCurrentPrimaryIndex s = tcSelfIndex s);
          Some RS_PRIMARY
        } else do {
          myConfig \<leftarrow> selfConfig s;
          if mcArbiterOnly myConfig then Some RS_ARBITER
          else if (tcMaintenanceModeCalls s > 0 \<or> hasOnlyAuthErrorUpHeartbeats s) \<and> tcFollowerMode s = RS_SECONDARY
          then Some RS_RECOVERING
          else Some (tcFollowerMode s)
        }
      })"

subsection \<open>Optimes and votes of the members that are up\<close>

definition latestKnownOpTime :: "OpTime \<Rightarrow> TopologyCoordinator \<Rightarrow> OpTime" where
  "latestKnownOpTime ourLastOpApplied s =
     fold (\<lambda>(i, d) latest.
         if int i = tcSelfIndex s \<or> \<not> up d \<or> hbState d = RS_REMOVED then latest
         else if OpTime_greater (hbOpTime d) latest then hbOpTime d else latest)
       (indexed s) ourLastOpApplied"

definition isOpTimeCloseEnoughToLatestToElect :: "OpTime \<Rightarrow> OpTime \<Rightarrow> TopologyCoordinator \<Rightarrow> bool" where
  "isOpTimeCloseEnoughToLatestToElect otherOpTime ourLastOpApplied s \<longleftrightarrow>
     OpTime_getSecs otherOpTime + 10 \<ge> OpTime_getSecs (latestKnownOpTime ourLastOpApplied s)"

fun votesUp :: "TopologyCoordinator \<Rightarrow> (nat \<times> MemberHeartbeatData) list \<Rightarrow> int \<Rightarrow> int option" where
  "votesUp s [] vUp = Some vUp"
| "votesUp s ((i, d) # ids) vUp =
     (if int i = tcSelfIndex s \<or> up d then do {
        m \<leftarrow> getMemberAt (tcConfig s) (int i);
        votesUp s ids (vUp + getNumVotes m)
      } else votesUp s ids vUp)"

definition aMajoritySeemsToBeUp :: "TopologyCoordinator \<Rightarrow> bool option" where
  "aMajoritySeemsToBeUp s = do {
     vUp \<leftarrow> votesUp s (indexed s) 0;
     Some (vUp * 2 > totalVotingMembers (tcConfig s))
   }"

subsection \<open>Electability\<close>

type_synonym UnelectableReasonMask = "32 word"

definition CannotSeeMajority :: UnelectableReasonMask where "CannotSeeMajority = 0x1"
definition NotCloseEnoughToLatestOptime :: UnelectableReasonMask where "NotCloseEnoughToLatestOptime = 0x2"
definition ArbiterIAm :: UnelectableReasonMask where "ArbiterIAm = 0x4"
definition NotSecondaryReason :: UnelectableReasonMask where "NotSecondaryReason = 0x8"
definition NoPriority :: UnelectableReasonMask where "NoPriority = 0x10"
definition StepDownPeriodActive :: UnelectableReasonMask where "StepDownPeriodActive = 0x20"
definition NoData :: UnelectableReasonMask where "NoData = 0x40"
definition NotInitialized :: UnelectableReasonMask where "NotInitialized = 0x80"
definition VotedTooRecently :: UnelectableReasonMask where "VotedTooRecently = 0x100"
definition RefusesToStand :: UnelectableReasonMask where "RefusesToStand = 0x200"

definition addReason :: "bool \<Rightarrow> UnelectableReasonMask \<Rightarrow> UnelectableReasonMask \<Rightarrow> UnelectableReasonMask" where
  "addReason b reason result = (if b then result OR reason else result)"

definition getUnelectableReason :: "int \<Rightarrow> OpTime \<Rightarrow> TopologyCoordinator \<Rightarrow> UnelectableReasonMask option" where
  "getUnelectableReason index lastOpApplied s = do {
     invariant (index \<noteq> tcSelfIndex s);
     memberConfig \<leftarrow> getMemberAt (tcConfig s) index;
     hbData \<leftarrow> hbdataAt s index;
     let result = addReason (mcArbiterOnly memberConfig) ArbiterIAm 0;
     let result = addReason (double_le (mcPriority memberConfig) (Finite 0)) NoPriority result;
     let result = addReason (hbState hbData \<noteq> RS_SECONDARY) NotSecondaryReason result;
     let result = addReason (\<not> isOpTimeCloseEnoughToLatestToElect (hbOpTime hbData) lastOpApplied s)
                    NotCloseEnoughToLatestOptime result;
     let result = addReason (up hbData \<and> isUnelectable hbData) RefusesToStand result;
     invariant (result \<noteq> 0 \<or> isElectable memberConfig);
     Some result
   }"

definition getMyUnelectableReason :: "Date_t \<Rightarrow> OpTime \<Rightarrow> TopologyCoordinator \<Rightarrow> UnelectableReasonMask option" where
  "getMyUnelectableReason now lastApplied s = do {
     let result = addReason (OpTime_isNull lastApplied) NoData 0;
     majority \<leftarrow> aMajoritySeemsToBeUp s;
     let result = addReason (\<not> majority) CannotSeeMajority result;
     if tcSelfIndex s = - 1 then Some (result OR NotInitialized)
     else do {
       myConfig \<leftarrow> selfConfig s;
       let result = addReason (mcArbiterOnly myConfig) ArbiterIAm result;
       let result = addReason (double_le (mcPriority myConfig) (Finite 0)) NoPriority result;
       let result = addReason (tcStepDownUntil s > now) StepDownPeriodActive result;
       let result = addReason (tcVoteWhoId s \<noteq> - 1 \<and> tcVoteWhoId s \<noteq> mcId myConfig \<and> tcVoteWhen s + leaseTime \<ge> now)
                      VotedTooRecently result;
       myState \<leftarrow> getMemberState s;
       primary \<leftarrow> (if myState = RS_SECONDARY then Some False else iAmPrimary s);
       let result = addReason (myState \<noteq> RS_SECONDARY \<and> \<not> primary) NotSecondaryReason result;
       Some (addReason (\<not> isOpTimeCloseEnoughToLatestToElect lastApplied lastApplied s)
               NotCloseEnoughToLatestOptime result)
     }
   }"

text \<open>The texts of the reasons, in the order in which they are printed.\<close>

definition reasonTexts :: "(Date_t \<Rightarrow> string) \<Rightarrow> TopologyCoordinator \<Rightarrow> (UnelectableReasonMask \<times> string) list" where
  "reasonTexts isoDate s =
    [(NoData, ''node has no applied oplog entries''),
     (VotedTooRecently, ''I recently voted for '' @ HostAndPort_toString (tcVoteWhoHost s)),
     (CannotSeeMajority, ''I cannot see a majority''),
     (ArbiterIAm, ''member is an arbiter''),
     (NoPriority, ''member has zero priority''),
     (StepDownPeriodActive, ''I am still waiting for stepdown period to end at '' @ isoDate (tcStepDownUntil s)),
     (NotSecondaryReason, ''member is not currently a secondary''),
     (NotCloseEnoughToLatestOptime, ''member is more than 10 seconds behind the most up-to-date member''),
     (NotInitialized, ''node is not a member of a valid replica set configuration''),
     (RefusesToStand, ''most recent heartbeat indicates node will not stand for election'')]"

fun joinTexts :: "UnelectableReasonMask \<Rightarrow> (UnelectableReasonMask \<times> string) list \<Rightarrow> bool \<times> string \<Rightarrow> bool \<times> string" where
  "joinTexts ur [] acc = acc"
| "joinTexts ur ((flag, msg) # texts) (hasWrittenToStream, ss) =
     (if ur AND flag \<noteq> 0
      then joinTexts ur texts (True, ss @ (if hasWrittenToStream then ''; '' else '''') @ msg)
      else joinTexts ur texts (hasWrittenToStream, ss))"

definition getUnelectableReasonString ::
  "(Date_t \<Rightarrow> string) \<Rightarrow> UnelectableReasonMask \<Rightarrow> TopologyCoordinator \<Rightarrow> string option" where
  "getUnelectableReasonString isoDate ur s = do {
     invariant (ur \<noteq> 0);
     let (hasWrittenToStream, ss) = joinTexts ur (reasonTexts isoDate s) (False, '''');
     invariant hasWrittenToStream;
     Some (ss @ '' (mask 0x'' @ integerToHex ur @ '')'')
   }"

subsection \<open>Priorities\<close>

definition isMemberHigherPriority :: "int \<Rightarrow> int \<Rightarrow> TopologyCoordinator \<Rightarrow> bool option" where
  "isMemberHigherPriority memberOneIndex memberTwoIndex s =
     (if memberOneIndex = - 1 then Some False
      else if memberTwoIndex = - 1 then Some True
      else do {
        one \<leftarrow> getMemberAt (tcConfig s) memberOneIndex;
        two \<leftarrow> getMemberAt (tcConfig s) memberTwoIndex;
        Some (double_less (mcPriority two) (mcPriority one))
      })"

definition unelectableReasonOf :: "Date_t \<Rightarrow> OpTime \<Rightarrow> int \<Rightarrow> TopologyCoordinator \<Rightarrow> UnelectableReasonMask option" where
  "unelectableReasonOf now lastOpApplied index s =
     (if index = tcSelfIndex s then getMyUnelectableReason now lastOpApplied s
      else getUnelectableReason index lastOpApplied s)"

fun highestPriorityFrom :: "Date_t \<Rightarrow> OpTime \<Rightarrow> TopologyCoordinator \<Rightarrow> nat list \<Rightarrow> int \<Rightarrow> int option" where
  "highestPriorityFrom now lastOpApplied s [] maxIndex = Some maxIndex"
| "highestPriorityFrom now lastOpApplied s (i # is) maxIndex = do {
     reason \<leftarrow> unelectableReasonOf now lastOpApplied (int i) s;
     higher \<leftarrow> (if reason = 0 then isMemberHigherPriority (int i) maxIndex s else Some False);
     highestPriorityFrom now lastOpApplied s is (if higher then int i else maxIndex)
   }"

definition getHighestPriorityElectableIndex :: "Date_t \<Rightarrow> OpTime \<Rightarrow> TopologyCoordinator \<Rightarrow> int option" where
  "getHighestPriorityElectableIndex now lastOpApplied s =
     highestPriorityFrom now lastOpApplied s [0..<length (members (tcConfig s))] (- 1)"

subsection \<open>Other queries\<close>

definition currentPrimaryMember :: "TopologyCoordinator \<Rightarrow> MemberConfig option option" where
  "currentPrimaryMember s =
     (if tcCurrentPrimaryIndex s = - 1 then Some None
      else map_option Some (getMemberAt (tcConfig s) (tcCurrentPrimaryIndex s)))"

definition getMemberIndex :: "int \<Rightarrow> TopologyCoordinator \<Rightarrow> int" where
  "getMemberIndex i s = indexOrNone (\<lambda>m. mcId m = i) (members (tcConfig s))"

definition memberIsBlacklisted :: "MemberConfig \<Rightarrow> Date_t \<Rightarrow> TopologyCoordinator \<Rightarrow> bool" where
  "memberIsBlacklisted memberConfig now s =
     (case tcSyncSourceBlacklist s (hostKey (mcHost memberConfig)) of None \<Rightarrow> False | Some until \<Rightarrow> until > now)"

definition pingAt :: "HostAndPort \<Rightarrow> TopologyCoordinator \<Rightarrow> PingStats" where
  "pingAt host s = (case map_of (tcPings s) (hostKey host) of None \<Rightarrow> newPingStats | Some p \<Rightarrow> p)"

definition setPing :: "HostAndPort \<Rightarrow> PingStats \<Rightarrow> TopologyCoordinator \<Rightarrow> TopologyCoordinator" where
  "setPing host p s = s\<lparr>tcPings := AList.update (hostKey host) p (tcPings s)\<rparr>"

definition getPing :: "HostAndPort \<Rightarrow> TopologyCoordinator \<Rightarrow> Milliseconds" where
  "getPing host s = getMillis (pingAt host s)"

definition getTotalPings :: "TopologyCoordinator \<Rightarrow> 32 word" where
  "getTotalPings s = sum_list (map (pingCount \<circ> snd) (tcPings s))"

definition getHbmsg :: "Date_t \<Rightarrow> TopologyCoordinator \<Rightarrow> string" where
  "getHbmsg now s = (if now - tcHbmsgTime s > 120000 then '''' else tcHbmsg s)"

definition checkShouldStandForElection :: "Date_t \<Rightarrow> OpTime \<Rightarrow> TopologyCoordinator \<Rightarrow> bool option" where
  "checkShouldStandForElection now lastOpApplied s =
     (if tcCurrentPrimaryIndex s \<noteq> - 1 then Some False
      else do {
        invariant (tcRole s \<noteq> Leader);
        if tcRole s = Candidate then Some False
        else do {
          unelectableReason \<leftarrow> getMyUnelectableReason now lastOpApplied s;
          if unelectableReason AND NotCloseEnoughToLatestOptime \<noteq> 0 then Some False
          else if unelectableReason \<noteq> 0 then Some False
          else if tcElectionSleepUntil s > now then Some False
          else Some True
        }
      })"

fun maybeUpHosts :: "TopologyCoordinator \<Rightarrow> (nat \<times> MemberHeartbeatData) list \<Rightarrow> HostAndPort list option" where
  "maybeUpHosts s [] = Some []"
| "maybeUpHosts s ((i, d) # ids) =
     (if int i = tcSelfIndex s \<or> \<not> maybeUp d then maybeUpHosts s ids
      else do {
        m \<leftarrow> getMemberAt (tcConfig s) (int i);
        hosts \<leftarrow> maybeUpHosts s ids;
        Some (mcHost m # hosts)
      })"

definition getMaybeUpHostAndPorts :: "TopologyCoordinator \<Rightarrow> HostAndPort list option" where
  "getMaybeUpHostAndPorts s = maybeUpHosts s (indexed s)"

end
