(* ===== verification/TopologyCoord.thy ===== *)
theory TopologyCoord
  imports TopologyState
begin

text \<open>
  The methods of \<^verbatim>\<open>src/src/mongo/db/repl/topology_coordinator_impl.cpp\<close> that change the state: heartbeats,
  elections, role changes, reconfiguration and the choice of a sync source. Each is a function on the
  state that returns its result and the new state, or \<^const>\<open>None\<close> where the process aborts.
\<close>

subsection \<open>Construction and small setters\<close>

definition newTopologyCoordinator :: "int \<Rightarrow> ConfigServerMode \<Rightarrow> TopologyCoordinator" where
  "newTopologyCoordinator maxSyncSourceLagSecs configServerMode =
     \<lparr>tcRole = Follower, tcElectionId = 0, tcElectionTime = Timestamp 0 0, tcTerm = kUninitializedTerm,
      tcCurrentPrimaryIndex = - 1, tcSyncSource = noHost, tcSyncSourceBlacklist = Map.empty, tcForceSyncSourceIndex = - 1,
      tcMaxSyncSourceLagSecs = maxSyncSourceLagSecs, tcConfigServerMode = configServerMode,
      tcHbmsg = '''', tcHbmsgTime = 0, tcSelfIndex = - 1, tcConfig = emptyConfig, tcHbdata = [],
      tcStepDownPending = False, tcStepDownUntil = 0, tcElectionSleepUntil = 0, tcMaintenanceModeCalls = 0,
      tcFollowerMode = RS_STARTUP2, tcPings = [], tcVoteWhen = 0, tcVoteWhoId = - 1, tcVoteWhoHost = noHost,
      tcLastVote = noVote, tcReadCommitted = kUnknown\<rparr>"

definition setMyHeartbeatMessage :: "Date_t \<Rightarrow> string \<Rightarrow> TopologyCoordinator \<Rightarrow> TopologyCoordinator" where
  "setMyHeartbeatMessage now message s = s\<lparr>tcHbmsgTime := now, tcHbmsg := message\<rparr>"

definition setForceSyncSourceIndex :: "int \<Rightarrow> TopologyCoordinator \<Rightarrow> TopologyCoordinator option" where
  "setForceSyncSourceIndex index s = do {
     invariant (tcForceSyncSourceIndex s < getNumMembers (tcConfig s));
     Some (s\<lparr>tcForceSyncSourceIndex := index\<rparr>)
   }"

definition blacklistSyncSource :: "HostAndPort \<Rightarrow> Date_t \<Rightarrow> TopologyCoordinator \<Rightarrow> TopologyCoordinator" where
  "blacklistSyncSource host until s =
     s\<lparr>tcSyncSourceBlacklist := (tcSyncSourceBlacklist s)(hostKey host \<mapsto> until)\<rparr>"

definition unblacklistSyncSource :: "HostAndPort \<Rightarrow> Date_t \<Rightarrow> TopologyCoordinator \<Rightarrow> TopologyCoordinator" where
  "unblacklistSyncSource host now s =
     (case tcSyncSourceBlacklist s (hostKey host) of
        None \<Rightarrow> s
      | Some until \<Rightarrow> if now \<ge> until then s\<lparr>tcSyncSourceBlacklist := (tcSyncSourceBlacklist s)(hostKey host := None)\<rparr> else s)"

definition clearSyncSourceBlacklist :: "TopologyCoordinator \<Rightarrow> TopologyCoordinator" where
  "clearSyncSourceBlacklist s = s\<lparr>tcSyncSourceBlacklist := Map.empty\<rparr>"

definition setElectionSleepUntil :: "Date_t \<Rightarrow> TopologyCoordinator \<Rightarrow> TopologyCoordinator" where
  "setElectionSleepUntil newTime s =
     (if tcElectionSleepUntil s < newTime then s\<lparr>tcElectionSleepUntil := newTime\<rparr> else s)"

definition adjustMaintenanceCountBy :: "int \<Rightarrow> TopologyCoordinator \<Rightarrow> TopologyCoordinator option" where
  "adjustMaintenanceCountBy inc s = do {
     invariant (tcRole s = Follower);
     let s = s\<lparr>tcMaintenanceModeCalls := tcMaintenanceModeCalls s + inc\<rparr>;
     invariant (tcMaintenanceModeCalls s \<ge> 0);
     Some s
   }"

definition updateTerm :: "Term \<Rightarrow> Date_t \<Rightarrow> TopologyCoordinator \<Rightarrow> bool \<times> TopologyCoordinator" where
  "updateTerm newTerm now s =
     (if newTerm \<le> tcTerm s then (False, s)
      else (True, s\<lparr>tcElectionSleepUntil := now + electionTimeoutPeriod (tcConfig s), tcTerm := newTerm\<rparr>))"

definition prepareForStepDown :: "TopologyCoordinator \<Rightarrow> TopologyCoordinator" where
  "prepareForStepDown s = s\<lparr>tcStepDownPending := True\<rparr>"

definition loadLastVote :: "LastVote \<Rightarrow> TopologyCoordinator \<Rightarrow> TopologyCoordinator" where
  "loadLastVote lastVote s = s\<lparr>tcLastVote := lastVote\<rparr>"

definition voteForMyselfV1 :: "TopologyCoordinator \<Rightarrow> TopologyCoordinator" where
  "voteForMyselfV1 s = s\<lparr>tcLastVote := \<lparr>lvTerm = tcTerm s, lvCandidateIndex = tcSelfIndex s\<rparr>\<rparr>"

definition setPrimaryIndex :: "int \<Rightarrow> TopologyCoordinator \<Rightarrow> TopologyCoordinator" where
  "setPrimaryIndex primaryIndex s = s\<lparr>tcCurrentPrimaryIndex := primaryIndex\<rparr>"

definition setStorageEngineSupportsReadCommitted :: "bool \<Rightarrow> TopologyCoordinator \<Rightarrow> TopologyCoordinator" where
  "setStorageEngineSupportsReadCommitted supported s = s\<lparr>tcReadCommitted := (if supported then kYes else kNo)\<rparr>"

subsection \<open>Roles\<close>

definition becomeCandidateIfElectable :: "Date_t \<Rightarrow> OpTime \<Rightarrow> TopologyCoordinator \<Rightarrow> (bool \<times> TopologyCoordinator) option" where
  "becomeCandidateIfElectable now lastOpApplied s =
     (if tcRole s = Leader then Some (False, s)
      else if tcRole s = Candidate then Some (False, s)
      else do {
        unelectableReason \<leftarrow> getMyUnelectableReason now lastOpApplied s;
        if unelectableReason \<noteq> 0 then Some (False, s) else Some (True, s\<lparr>tcRole := Candidate\<rparr>)
      })"

text \<open>The test for the only member of a set, which becomes a candidate without heartbeats.\<close>

definition singleElectableNode :: "TopologyCoordinator \<Rightarrow> bool option" where
  "singleElectableNode s =
     (if getNumMembers (tcConfig s) = 1 \<and> tcSelfIndex s = 0
      then map_option isElectable (getMemberAt (tcConfig s) (tcSelfIndex s))
      else Some False)"

definition becomeCandidateIfStepdownPeriodOverAndSingleNodeSet ::
  "Date_t \<Rightarrow> TopologyCoordinator \<Rightarrow> (bool \<times> TopologyCoordinator) option" where
  "becomeCandidateIfStepdownPeriodOverAndSingleNodeSet now s =
     (if tcStepDownUntil s > now then Some (False, s)
      else if tcFollowerMode s = RS_SECONDARY then do {
        single \<leftarrow> singleElectableNode s;
        if single then Some (True, s\<lparr>tcRole := Candidate\<rparr>) else Some (False, s)
      } else Some (False, s))"

definition voteForMyself :: "Date_t \<Rightarrow> TopologyCoordinator \<Rightarrow> (bool \<times> TopologyCoordinator) option" where
  "voteForMyself now s =
     (if tcRole s \<noteq> Candidate then Some (False, s)
      else do {
        me \<leftarrow> selfConfig s;
        if tcVoteWhen s + leaseTime \<ge> now \<and> tcVoteWhoId s \<noteq> mcId me then Some (False, s)
        else Some (True, s\<lparr>tcVoteWhen := now, tcVoteWhoId := mcId me, tcVoteWhoHost := mcHost me\<rparr>)
      })"

definition processWinElection :: "OID \<Rightarrow> Timestamp \<Rightarrow> TopologyCoordinator \<Rightarrow> TopologyCoordinator option" where
  "processWinElection electionId electionOpTime s = do {
     invariant (tcRole s = Candidate);
     Some (s\<lparr>tcElectionTime := electionOpTime, tcElectionId := electionId, tcRole := Leader,
             tcCurrentPrimaryIndex := tcSelfIndex s, tcSyncSource := noHost, tcForceSyncSourceIndex := - 1\<rparr>)
   }"

definition processLoseElection :: "TopologyCoordinator \<Rightarrow> TopologyCoordinator option" where
  "processLoseElection s = do {
     invariant (tcRole s = Candidate);
     let s = s\<lparr>tcElectionTime := Timestamp 0 0, tcElectionId := 0, tcRole := Follower\<rparr>;
     me \<leftarrow> selfConfig s;
     if tcVoteWhoId s = mcId me then Some (s\<lparr>tcVoteWhen := 0\<rparr>) else Some s
   }"

definition stepDownSelfAndReplaceWith :: "int \<Rightarrow> TopologyCoordinator \<Rightarrow> TopologyCoordinator option" where
  "stepDownSelfAndReplaceWith newPrimary s = do {
     invariant (tcRole s = Leader);
     invariant (tcSelfIndex s \<noteq> - 1);
     invariant (tcSelfIndex s \<noteq> newPrimary);
     invariant (tcSelfIndex s = tcCurrentPrimaryIndex s);
     Some (s\<lparr>tcCurrentPrimaryIndex := newPrimary, tcRole := Follower, tcStepDownPending := False\<rparr>)
   }"

text \<open>The loop of \<open>stepDown\<close>: an electable member that has caught up can take over.\<close>

fun canStepDownFrom :: "OpTime \<Rightarrow> TopologyCoordinator \<Rightarrow> nat list \<Rightarrow> bool option" where
  "canStepDownFrom lastOpApplied s [] = Some False"
| "canStepDownFrom lastOpApplied s (i # is) =
     (if int i = tcSelfIndex s then canStepDownFrom lastOpApplied s is
      else do {
        reason \<leftarrow> getUnelectableReason (int i) lastOpApplied s;
        d \<leftarrow> hbdataAt s (int i);
        if reason = 0 \<and> OpTime_ge (hbOpTime d) lastOpApplied then Some True
        else canStepDownFrom lastOpApplied s is
      })"

definition stepDown :: "Date_t \<Rightarrow> bool \<Rightarrow> OpTime \<Rightarrow> TopologyCoordinator \<Rightarrow> (bool \<times> TopologyCoordinator) option" where
  "stepDown until force lastOpApplied s = do {
     canStepDown \<leftarrow> (if force then Some True
                     else canStepDownFrom lastOpApplied s [0..<length (members (tcConfig s))]);
     if \<not> canStepDown then Some (False, s)
     else do {
       s \<leftarrow> stepDownSelfAndReplaceWith (- 1) (s\<lparr>tcStepDownUntil := until\<rparr>);
       Some (True, s)
     }
   }"

text \<open>The members, other than this one, that are up and say that they are primary.\<close>

definition remotePrimaries :: "TopologyCoordinator \<Rightarrow> int list" where
  "remotePrimaries s =
     map (int \<circ> fst) (filter (\<lambda>(i, d). int i \<noteq> tcSelfIndex s \<and> hbState d = RS_PRIMARY \<and> up d) (indexed s))"

definition stepDownIfPending :: "TopologyCoordinator \<Rightarrow> (bool \<times> TopologyCoordinator) option" where
  "stepDownIfPending s =
     (if \<not> tcStepDownPending s then Some (False, s)
      else do {
        let remotePrimaryIndex = (case remotePrimaries s of [i] \<Rightarrow> i | _ \<Rightarrow> - 1);
        s \<leftarrow> stepDownSelfAndReplaceWith remotePrimaryIndex s;
        Some (True, s)
      })"

definition setFollowerMode :: "MemberState \<Rightarrow> TopologyCoordinator \<Rightarrow> TopologyCoordinator option" where
  "setFollowerMode newMode s = do {
     invariant (tcRole s = Follower);
     invariant (newMode \<in> {RS_RECOVERING, RS_ROLLBACK, RS_SECONDARY, RS_STARTUP2});
     let s = s\<lparr>tcFollowerMode := newMode\<rparr>;
     if newMode \<noteq> RS_SECONDARY then Some s
     else do {
       single \<leftarrow> singleElectableNode s;
       Some (if single then s\<lparr>tcRole := Candidate\<rparr> else s)
     }
   }"

subsection \<open>Reconfiguration\<close>

definition oldHeartbeatData :: "TopologyCoordinator \<Rightarrow> MemberConfig \<Rightarrow> MemberHeartbeatData option" where
  "oldHeartbeatData s newMember =
     (let oldIndex = indexOrNone (\<lambda>m. mcId m = mcId newMember \<and> HostAndPort_eq (mcHost m) (mcHost newMember))
                       (members (tcConfig s))
      in if oldIndex = - 1 then Some newHeartbeatData else hbdataAt s oldIndex)"

fun updateHeartbeatData ::
  "TopologyCoordinator \<Rightarrow> int \<Rightarrow> (nat \<times> MemberConfig) list \<Rightarrow> MemberHeartbeatData list option" where
  "updateHeartbeatData s selfIndex [] = Some []"
| "updateHeartbeatData s selfIndex ((i, m) # ms) = do {
     d \<leftarrow> (if int i = selfIndex then Some newHeartbeatData else oldHeartbeatData s m);
     ds \<leftarrow> updateHeartbeatData s selfIndex ms;
     Some (d # ds)
   }"

definition updateHeartbeatDataForReconfig ::
  "ReplicaSetConfig \<Rightarrow> int \<Rightarrow> TopologyCoordinator \<Rightarrow> TopologyCoordinator option" where
  "updateHeartbeatDataForReconfig newConfig selfIndex s = do {
     hbdata \<leftarrow> updateHeartbeatData s selfIndex (enumerate 0 (members newConfig));
     Some (s\<lparr>tcHbdata := hbdata\<rparr>)
   }"

definition resetTerm :: "ReplicaSetConfig \<Rightarrow> TopologyCoordinator \<Rightarrow> TopologyCoordinator option" where
  "resetTerm newConfig s =
     (if \<not> isInitialized (tcConfig s) \<or> protocolVersion (tcConfig s) \<noteq> protocolVersion newConfig
      then if protocolVersion newConfig = 1 then Some (s\<lparr>tcTerm := kInitialTerm\<rparr>)
           else do {
             invariant (protocolVersion newConfig = 0);
             Some (s\<lparr>tcTerm := kUninitializedTerm\<rparr>)
           }
      else Some s)"

definition updateConfig :: "ReplicaSetConfig \<Rightarrow> int \<Rightarrow> TopologyCoordinator \<Rightarrow> TopologyCoordinator option" where
  "updateConfig newConfig selfIndex s = do {
     invariant (tcRole s \<noteq> Candidate);
     invariant (selfIndex < getNumMembers newConfig);
     s \<leftarrow> resetTerm newConfig s;
     s \<leftarrow> updateHeartbeatDataForReconfig newConfig selfIndex s;
     let s = s\<lparr>tcStepDownPending := False, tcConfig := newConfig, tcSelfIndex := selfIndex, tcForceSyncSourceIndex := - 1\<rparr>;
     stays \<leftarrow> (if tcRole s = Leader \<and> tcSelfIndex s \<noteq> - 1 then map_option isElectable (selfConfig s) else Some False);
     if stays then Some (s\<lparr>tcCurrentPrimaryIndex := tcSelfIndex s\<rparr>)
     else do {
       let s = s\<lparr>tcRole := Follower, tcCurrentPrimaryIndex := - 1\<rparr>;
       single \<leftarrow> (if tcFollowerMode s = RS_SECONDARY then singleElectableNode s else Some False);
       Some (if single then s\<lparr>tcRole := Candidate\<rparr> else s)
     }
   }"

subsection \<open>Requests for heartbeats\<close>

record ReplSetHeartbeatArgs =
  haProtocolVersion :: int
  haCheckEmpty :: bool
  haConfigVersion :: int
  haSenderId :: int
  haSetName :: string
  haSenderHost :: HostAndPort
  haTerm :: Term

definition newHeartbeatArgs :: ReplSetHeartbeatArgs where
  "newHeartbeatArgs = \<lparr>haProtocolVersion = - 1, haCheckEmpty = False, haConfigVersion = - 1, haSenderId = - 1,
     haSetName = '''', haSenderHost = noHost, haTerm = - 1\<rparr>"

text \<open>The statistics of the target, restarted if a new heartbeat begins, and the time already elapsed.\<close>

definition startHeartbeat :: "Date_t \<Rightarrow> HostAndPort \<Rightarrow> TopologyCoordinator \<Rightarrow> PingStats \<times> Milliseconds" where
  "startHeartbeat now target s =
     (let hbStats = pingAt target s; alreadyElapsed = now - lastHeartbeatStartDate hbStats
      in if \<not> isInitialized (tcConfig s) \<or> numFailuresSinceLastStart hbStats > kMaxHeartbeatRetries \<or>
            alreadyElapsed \<ge> heartbeatTimeoutPeriod (tcConfig s)
         then (ping_start now hbStats, 0) else (hbStats, alreadyElapsed))"

definition heartbeatTimeout :: "Milliseconds \<Rightarrow> TopologyCoordinator \<Rightarrow> Milliseconds" where
  "heartbeatTimeout alreadyElapsed s =
     (if isInitialized (tcConfig s) then heartbeatTimeoutPeriod (tcConfig s) else kDefaultHeartbeatTimeoutPeriod)
       - alreadyElapsed"

definition prepareHeartbeatRequest ::
  "Date_t \<Rightarrow> string \<Rightarrow> HostAndPort \<Rightarrow> TopologyCoordinator \<Rightarrow> ((ReplSetHeartbeatArgs \<times> Milliseconds) \<times> TopologyCoordinator) option" where
  "prepareHeartbeatRequest now ourSetName target s = do {
     let (hbStats, alreadyElapsed) = startHeartbeat now target s;
     let s = setPing target hbStats s;
     let hbArgs = newHeartbeatArgs\<lparr>haProtocolVersion := 1, haCheckEmpty := False\<rparr>;
     hbArgs \<leftarrow>
       (if isInitialized (tcConfig s) then do {
          let hbArgs = hbArgs\<lparr>haSetName := replSetName (tcConfig s), haConfigVersion := cfgVersion (tcConfig s)\<rparr>;
          if tcSelfIndex s \<ge> 0 then do {
            me \<leftarrow> selfConfig s;
            Some (hbArgs\<lparr>haSenderHost := mcHost me, haSenderId := mcId me\<rparr>)
          } else Some hbArgs
        } else Some (hbArgs\<lparr>haSetName := ourSetName, haConfigVersion := - 2\<rparr>));
     Some ((hbArgs, heartbeatTimeout alreadyElapsed s), s)
   }"

definition prepareHeartbeatRequestV1 ::
  "Date_t \<Rightarrow> string \<Rightarrow> HostAndPort \<Rightarrow> TopologyCoordinator \<Rightarrow> ((ReplSetHeartbeatArgs \<times> Milliseconds) \<times> TopologyCoordinator) option" where
  "prepareHeartbeatRequestV1 now ourSetName target s = do {
     let (hbStats, alreadyElapsed) = startHeartbeat now target s;
     let s = setPing target hbStats s;
     hbArgs \<leftarrow>
       (if isInitialized (tcConfig s) then do {
          let hbArgs = newHeartbeatArgs\<lparr>haSetName := replSetName (tcConfig s), haConfigVersion := cfgVersion (tcConfig s)\<rparr>;
          hbArgs \<leftarrow> (if tcSelfIndex s \<ge> 0 then do {
              me \<leftarrow> selfConfig s;
              Some (hbArgs\<lparr>haSenderId := mcId me, haSenderHost := mcHost me\<rparr>)
            } else Some hbArgs);
          Some (hbArgs\<lparr>haTerm := tcTerm s\<rparr>)
        } else Some (newHeartbeatArgs\<lparr>haSetName := ourSetName, haConfigVersion := - 2, haTerm := kInitialTerm\<rparr>));
     Some ((hbArgs, heartbeatTimeout alreadyElapsed s), s)
   }"

subsection \<open>Responses to heartbeats\<close>

text \<open>The step down of a primary that cannot see a majority, once it is not pending already.\<close>

definition stepDownSelfOnce :: "TopologyCoordinator \<Rightarrow> HeartbeatResponseAction \<times> TopologyCoordinator" where
  "stepDownSelfOnce s =
     (if tcStepDownPending s then (makeNoAction, s)
      else (makeStepDownSelfAction (tcSelfIndex s), s\<lparr>tcStepDownPending := True\<rparr>))"

definition stepDownWithoutMajority ::
  "Date_t \<Rightarrow> OpTime \<Rightarrow> TopologyCoordinator \<Rightarrow> (HeartbeatResponseAction \<times> TopologyCoordinator) option" where
  "stepDownWithoutMajority now lastOpApplied s = do {
     reason \<leftarrow> getMyUnelectableReason now lastOpApplied s;
     Some (if reason AND CannotSeeMajority \<noteq> 0 then stepDownSelfOnce s else (makeNoAction, s))
   }"

text \<open>The first step of both protocol versions: the updated data must support that the member is primary.\<close>

definition confirmPrimary :: "int \<Rightarrow> TopologyCoordinator \<Rightarrow> TopologyCoordinator option" where
  "confirmPrimary updatedConfigIndex s =
     (if updatedConfigIndex = tcCurrentPrimaryIndex s then do {
        d \<leftarrow> hbdataAt s updatedConfigIndex;
        Some (if \<not> up d \<or> hbState d \<noteq> RS_PRIMARY then s\<lparr>tcCurrentPrimaryIndex := - 1\<rparr> else s)
      } else Some s)"

text \<open>The remote primary of the latest term.\<close>

fun latestTermPrimary :: "TopologyCoordinator \<Rightarrow> int list \<Rightarrow> int \<Rightarrow> int option" where
  "latestTermPrimary s [] remotePrimaryIndex = Some remotePrimaryIndex"
| "latestTermPrimary s (i # is) remotePrimaryIndex = do {
     d \<leftarrow> hbdataAt s i;
     better \<leftarrow> (if remotePrimaryIndex = - 1 then Some True
                else do {
                  r \<leftarrow> hbdataAt s remotePrimaryIndex;
                  Some (hbTerm r < hbTerm d)
                });
     latestTermPrimary s is (if better then i else remotePrimaryIndex)
   }"

text \<open>The end of both protocol versions: nobody is primary, and this member may stand for election.\<close>

definition considerElection ::
  "MemberState \<Rightarrow> Date_t \<Rightarrow> OpTime \<Rightarrow> TopologyCoordinator \<Rightarrow> bool option" where
  "considerElection originalState now lastOpApplied s = do {
     invariant (tcCurrentPrimaryIndex s = - 1);
     currentState \<leftarrow> getMemberState s;
     if originalState = RS_RECOVERING \<and> currentState = RS_SECONDARY then Some False
     else checkShouldStandForElection now lastOpApplied s
   }"

definition updatePrimaryFromHBDataV1 ::
  "int \<Rightarrow> MemberState \<Rightarrow> Date_t \<Rightarrow> OpTime \<Rightarrow> TopologyCoordinator \<Rightarrow> (HeartbeatResponseAction \<times> TopologyCoordinator) option" where
  "updatePrimaryFromHBDataV1 updatedConfigIndex originalState now lastOpApplied s = do {
     invariant (updatedConfigIndex \<noteq> tcSelfIndex s);
     if tcSelfIndex s = - 1 then Some (makeNoAction, s)
     else do {
       s \<leftarrow> confirmPrimary updatedConfigIndex s;
       remotePrimaryIndex \<leftarrow> (if tcCurrentPrimaryIndex s \<noteq> tcSelfIndex s
                              then latestTermPrimary s (remotePrimaries s) (- 1) else Some (- 1));
       if remotePrimaryIndex \<noteq> - 1 then do {
         let s = (setMyHeartbeatMessage now '''' s)\<lparr>tcCurrentPrimaryIndex := remotePrimaryIndex\<rparr>;
         d \<leftarrow> hbdataAt s remotePrimaryIndex;
         remote \<leftarrow> getMemberAt (tcConfig s) remotePrimaryIndex;
         me \<leftarrow> selfConfig s;
         Some (if hbTerm d = tcTerm s \<and> double_less (mcPriority remote) (mcPriority me)
               then makePriorityTakeoverAction else makeNoAction, s)
       } else do {
         primary \<leftarrow> iAmPrimary s;
         if primary then stepDownWithoutMajority now lastOpApplied s
         else do {
           stand \<leftarrow> considerElection originalState now lastOpApplied s;
           Some (if stand then makeScheduleElectionAction else makeNoAction, s)
         }
       }
     }
   }"

text \<open>Protocol version 0: a member of higher priority that is close enough makes the primary step down.
  The result says whether the method returns here.\<close>

definition checkPriorities ::
  "Date_t \<Rightarrow> OpTime \<Rightarrow> TopologyCoordinator \<Rightarrow> (HeartbeatResponseAction option \<times> TopologyCoordinator) option" where
  "checkPriorities now lastOpApplied s =
     (if tcCurrentPrimaryIndex s = - 1 then Some (None, s)
      else do {
        highestPriorityIndex \<leftarrow> getHighestPriorityElectableIndex now lastOpApplied s;
        if highestPriorityIndex = - 1 then Some (None, s)
        else do {
          current \<leftarrow> getMemberAt (tcConfig s) (tcCurrentPrimaryIndex s);
          highest \<leftarrow> getMemberAt (tcConfig s) highestPriorityIndex;
          optime \<leftarrow> (if highestPriorityIndex = tcSelfIndex s then Some lastOpApplied
                     else map_option hbOpTime (hbdataAt s highestPriorityIndex));
          if double_less (mcPriority current) (mcPriority highest) \<and>
             isOpTimeCloseEnoughToLatestToElect optime lastOpApplied s
          then do {
            primary \<leftarrow> iAmPrimary s;
            if primary then
              (if tcStepDownPending s then Some (Some makeNoAction, s)
               else Some (Some (makeStepDownSelfAction (tcSelfIndex s)),
                      setElectionSleepUntil (now + leaseTime + heartbeatInterval (tcConfig s))
                        (s\<lparr>tcStepDownPending := True\<rparr>)))
            else if highestPriorityIndex = tcSelfIndex s \<and> tcElectionSleepUntil s \<le> now
            then Some (Some (makeStepDownRemoteAction (tcCurrentPrimaryIndex s)), s\<lparr>tcCurrentPrimaryIndex := - 1\<rparr>)
            else Some (None, s)
          } else Some (None, s)
        }
      })"

definition updatePrimaryFromHBData ::
  "int \<Rightarrow> MemberState \<Rightarrow> Date_t \<Rightarrow> OpTime \<Rightarrow> TopologyCoordinator \<Rightarrow> (HeartbeatResponseAction \<times> TopologyCoordinator) option" where
  "updatePrimaryFromHBData updatedConfigIndex originalState now lastOpApplied s = do {
     invariant (updatedConfigIndex \<noteq> tcSelfIndex s);
     if tcSelfIndex s = - 1 then Some (makeNoAction, s)
     else do {
       s \<leftarrow> confirmPrimary updatedConfigIndex s;
       (done, s) \<leftarrow> checkPriorities now lastOpApplied s;
       case done of Some a \<Rightarrow> Some (a, s)
       | None \<Rightarrow>
         (case remotePrimaries s of
            _ # _ # _ \<Rightarrow> Some (makeNoAction, s)
          | [remotePrimaryIndex] \<Rightarrow>
              if tcCurrentPrimaryIndex s = remotePrimaryIndex then Some (makeNoAction, s)
              else do {
                let s = setMyHeartbeatMessage now '''' s;
                primary \<leftarrow> iAmPrimary s;
                if primary then do {
                  d \<leftarrow> hbdataAt s remotePrimaryIndex;
                  Some (if hbElectionTime d > tcElectionTime s then stepDownSelfOnce s
                        else (makeStepDownRemoteAction remotePrimaryIndex, s))
                } else Some (makeNoAction, s\<lparr>tcCurrentPrimaryIndex := remotePrimaryIndex\<rparr>)
              }
          | [] \<Rightarrow> do {
              primary \<leftarrow> iAmPrimary s;
              if primary then stepDownWithoutMajority now lastOpApplied s
              else do {
                stand \<leftarrow> considerElection originalState now lastOpApplied s;
                if \<not> stand then Some (makeNoAction, s)
                else do {
                  (elected, s) \<leftarrow> becomeCandidateIfElectable now lastOpApplied s;
                  invariant elected;
                  Some (makeElectAction, s)
                }
              }
            })
     }
   }"

text \<open>A response is an error code with a reason, or the response of the target.\<close>

type_synonym StatusWithResponse = "(ErrorCode \<times> string) + ReplSetHeartbeatResponse"

definition isUnauthorized :: "StatusWithResponse \<Rightarrow> bool" where
  "isUnauthorized hbResponse =
     (case hbResponse of Inl (code, reason) \<Rightarrow> code = Unauthorized \<or> code = AuthenticationFailed | Inr r \<Rightarrow> False)"

definition updatePingStats :: "Milliseconds \<Rightarrow> StatusWithResponse \<Rightarrow> PingStats \<Rightarrow> PingStats option" where
  "updatePingStats networkRoundTripTime hbResponse hbStats =
     (case hbResponse of
        Inl e \<Rightarrow> if isUnauthorized hbResponse then Some (ping_hit networkRoundTripTime hbStats) else ping_miss hbStats
      | Inr r \<Rightarrow> Some (ping_hit networkRoundTripTime hbStats))"

definition currentHeartbeatInterval :: "TopologyCoordinator \<Rightarrow> Milliseconds option" where
  "currentHeartbeatInterval s =
     (if protocolVersion (tcConfig s) = 1 then do {
        state \<leftarrow> getMemberState s;
        fast \<leftarrow> (if state = RS_ARBITER then Some True
                 else if HostAndPort_empty (tcSyncSource s) then map_option Not (iAmPrimary s) else Some False);
        Some (if fast then electionTimeoutPeriod (tcConfig s) sdiv 2 else heartbeatInterval (tcConfig s))
      } else Some (heartbeatInterval (tcConfig s)))"

definition nextHeartbeatDate :: "Date_t \<Rightarrow> Milliseconds \<Rightarrow> PingStats \<Rightarrow> TopologyCoordinator \<Rightarrow> Date_t" where
  "nextHeartbeatDate now interval hbStats s =
     (if numFailuresSinceLastStart hbStats \<le> kMaxHeartbeatRetries \<and>
         now - lastHeartbeatStartDate hbStats < heartbeatTimeoutPeriod (tcConfig s)
      then now else now + interval)"

definition hasNewerConfig :: "StatusWithResponse \<Rightarrow> TopologyCoordinator \<Rightarrow> bool" where
  "hasNewerConfig hbResponse s =
     (case hbResponse of
        Inl e \<Rightarrow> False
      | Inr r \<Rightarrow> (case rspConfig r of
          None \<Rightarrow> False
        | Some newConfig \<Rightarrow> cfgVersion newConfig > (if isInitialized (tcConfig s) then cfgVersion (tcConfig s) else - 2)))"

definition updateMemberData ::
  "Date_t \<Rightarrow> StatusWithResponse \<Rightarrow> PingStats \<Rightarrow> int \<Rightarrow> TopologyCoordinator \<Rightarrow> TopologyCoordinator option" where
  "updateMemberData now hbResponse hbStats memberIndex s = do {
     d \<leftarrow> hbdataAt s memberIndex;
     let d = (case hbResponse of
         Inl (code, reason) \<Rightarrow>
           if isUnauthorized hbResponse then setAuthIssue now d
           else if numFailuresSinceLastStart hbStats > kMaxHeartbeatRetries \<or>
                   now - lastHeartbeatStartDate hbStats \<ge> heartbeatTimeoutPeriod (tcConfig s)
           then setDownValues now reason d else d
       | Inr hbr \<Rightarrow> setUpValues now hbr d);
     Some (s\<lparr>tcHbdata := (tcHbdata s)[nat memberIndex := d]\<rparr>)
   }"

definition processHeartbeatResponse ::
  "Date_t \<Rightarrow> Milliseconds \<Rightarrow> HostAndPort \<Rightarrow> StatusWithResponse \<Rightarrow> OpTime \<Rightarrow> TopologyCoordinator \<Rightarrow>
     (HeartbeatResponseAction \<times> TopologyCoordinator) option" where
  "processHeartbeatResponse now networkRoundTripTime target hbResponse myLastOpApplied s = do {
     originalState \<leftarrow> getMemberState s;
     invariant (lastHeartbeatStartDate (pingAt target s) \<noteq> 0);
     hbStats \<leftarrow> updatePingStats networkRoundTripTime hbResponse (pingAt target s);
     let s = setPing target hbStats s;
     interval \<leftarrow> currentHeartbeatInterval s;
     let next = nextHeartbeatDate now interval hbStats s;
     if hasNewerConfig hbResponse s then Some (setNextHeartbeatStartDate next makeReconfigAction, s)
     else if \<not> isInitialized (tcConfig s) then Some (setNextHeartbeatStartDate next makeNoAction, s)
     else do {
       let memberIndex = findMemberIndexByHostAndPort (tcConfig s) target;
       if memberIndex = - 1 then Some (setNextHeartbeatStartDate next makeNoAction, s)
       else do {
         invariant (memberIndex \<noteq> tcSelfIndex s);
         s \<leftarrow> updateMemberData now hbResponse hbStats memberIndex s;
         (action, s) \<leftarrow>
           (if protocolVersion (tcConfig s) = 0
            then updatePrimaryFromHBData memberIndex originalState now myLastOpApplied s
            else updatePrimaryFromHBDataV1 memberIndex originalState now myLastOpApplied s);
         Some (setNextHeartbeatStartDate next action, s)
       }
     }
   }"

definition setMemberAsDown ::
  "Date_t \<Rightarrow> int \<Rightarrow> OpTime \<Rightarrow> TopologyCoordinator \<Rightarrow> (HeartbeatResponseAction \<times> TopologyCoordinator) option" where
  "setMemberAsDown now memberIndex myLastOpApplied s = do {
     invariant (memberIndex \<noteq> tcSelfIndex s);
     invariant (memberIndex \<noteq> - 1);
     invariant (tcCurrentPrimaryIndex s = tcSelfIndex s);
     d \<leftarrow> hbdataAt s memberIndex;
     stepDownWithoutMajority now myLastOpApplied
       (s\<lparr>tcHbdata := (tcHbdata s)[nat memberIndex :=
            setDownValues now ''no response within election timeout period'' d]\<rparr>)
   }"

subsection \<open>Votes\<close>

record ReplSetRequestVotesArgs =
  rvSetName :: string
  rvDryRun :: bool
  rvTerm :: Term
  rvCandidateIndex :: int
  rvConfigVersion :: int
  rvLastCommittedOp :: OpTime

datatype VoteReason = TermTooLow | ConfigVersionDiffers | SetNameDiffers | DataStale | AlreadyVoted | NoReason

record ReplSetRequestVotesResponse =
  rrTerm :: Term
  rrVoteGranted :: bool
  rrReason :: VoteReason

definition processReplSetRequestVotes ::
  "ReplSetRequestVotesArgs \<Rightarrow> OpTime \<Rightarrow> TopologyCoordinator \<Rightarrow> ReplSetRequestVotesResponse \<times> TopologyCoordinator" where
  "processReplSetRequestVotes args lastAppliedOpTime s =
     (let refuse = (\<lambda>reason. (\<lparr>rrTerm = tcTerm s, rrVoteGranted = False, rrReason = reason\<rparr>, s))
      in if rvTerm args < tcTerm s then refuse TermTooLow
         else if rvConfigVersion args \<noteq> cfgVersion (tcConfig s) then refuse ConfigVersionDiffers
         else if rvSetName args \<noteq> replSetName (tcConfig s) then refuse SetNameDiffers
         else if OpTime_less (rvLastCommittedOp args) lastAppliedOpTime then refuse DataStale
         else if \<not> rvDryRun args \<and> lvTerm (tcLastVote s) = rvTerm args then refuse AlreadyVoted
         else (\<lparr>rrTerm = tcTerm s, rrVoteGranted = True, rrReason = NoReason\<rparr>,
               if \<not> rvDryRun args
               then s\<lparr>tcLastVote := \<lparr>lvTerm = rvTerm args, lvCandidateIndex = rvCandidateIndex args\<rparr>\<rparr> else s))"

record ReplSetDeclareElectionWinnerArgs =
  dwSetName :: string
  dwTerm :: Term
  dwWinnerId :: int

definition processReplSetDeclareElectionWinner ::
  "ReplSetDeclareElectionWinnerArgs \<Rightarrow> TopologyCoordinator \<Rightarrow> ((Status \<times> Term) \<times> TopologyCoordinator) option" where
  "processReplSetDeclareElectionWinner args s =
     (if dwSetName args \<noteq> replSetName (tcConfig s) then Some ((StatusError BadValue, tcTerm s), s)
      else if dwTerm args < tcTerm s then Some ((StatusError BadValue, tcTerm s), s)
      else do {
        other \<leftarrow> (if dwTerm args = tcTerm s \<and> tcCurrentPrimaryIndex s > - 1
                  then map_option (\<lambda>m. dwWinnerId args \<noteq> mcId m) (getMemberAt (tcConfig s) (tcCurrentPrimaryIndex s))
                  else Some False);
        if other then Some ((StatusError BadValue, tcTerm s), s)
        else Some ((StatusOK, tcTerm s),
               s\<lparr>tcCurrentPrimaryIndex := findMemberIndexByConfigId (tcConfig s) (dwWinnerId args)\<rparr>)
      })"

subsection \<open>Sync sources\<close>

definition needMorePings :: "TopologyCoordinator \<Rightarrow> int" where
  "needMorePings s = sint ((of_nat (length (tcHbdata s)) - 1) * 2 - getTotalPings s :: 32 word)"

text \<open>The optime of the primary less the maximal lag, or the null optime.\<close>

definition oldestSyncOpTime :: "TopologyCoordinator \<Rightarrow> OpTime option" where
  "oldestSyncOpTime s =
     (if tcCurrentPrimaryIndex s = - 1 then Some nullOpTime
      else do {
        d \<leftarrow> hbdataAt s (tcCurrentPrimaryIndex s);
        let maxLag = take_bit 32 (tcMaxSyncSourceLagSecs s);
        Some (if OpTime_getSecs (hbOpTime d) \<ge> maxLag
              then OpTime (Timestamp (word_of_int (OpTime_getSecs (hbOpTime d) - maxLag)) 0) (getTerm (hbOpTime d))
              else nullOpTime)
      })"

text \<open>The body of the loop over the members: whether the member becomes the closest candidate.\<close>

definition isSyncCandidate ::
  "Date_t \<Rightarrow> Timestamp \<Rightarrow> OpTime \<Rightarrow> bool \<Rightarrow> TopologyCoordinator \<Rightarrow> nat \<Rightarrow> MemberHeartbeatData \<Rightarrow> int \<Rightarrow> bool option" where
  "isSyncCandidate now lastTimestampApplied oldest firstAttempt s i d closestIndex =
     (if int i = tcSelfIndex s \<or> \<not> up d \<or> \<not> readable (hbState d) then Some False
      else do {
        m \<leftarrow> getMemberAt (tcConfig s) (int i);
        me \<leftarrow> selfConfig s;
        if isVoter me \<and> \<not> isVoter m then Some False
        else if mcBuildIndexes me \<and> \<not> mcBuildIndexes m then Some False
        else if getTimestamp (hbOpTime d) \<le> lastTimestampApplied then Some False
        else if firstAttempt \<and> OpTime_less (hbOpTime d) oldest then Some False
        else do {
          slower \<leftarrow> (if closestIndex = - 1 then Some False
                     else map_option (\<lambda>c. getPing (mcHost m) s > getPing (mcHost c) s)
                            (getMemberAt (tcConfig s) closestIndex));
          if slower then Some False
          else if firstAttempt \<and> (mcSlaveDelay me < mcSlaveDelay m \<or> mcHidden m) then Some False
          else Some (\<not> memberIsBlacklisted m now s)
        }
      })"

fun closestSource ::
  "Date_t \<Rightarrow> Timestamp \<Rightarrow> OpTime \<Rightarrow> bool \<Rightarrow> TopologyCoordinator \<Rightarrow> (nat \<times> MemberHeartbeatData) list \<Rightarrow> int \<Rightarrow> int option" where
  "closestSource now lastTimestampApplied oldest firstAttempt s [] closestIndex = Some closestIndex"
| "closestSource now lastTimestampApplied oldest firstAttempt s ((i, d) # ids) closestIndex = do {
     candidate \<leftarrow> isSyncCandidate now lastTimestampApplied oldest firstAttempt s i d closestIndex;
     closestSource now lastTimestampApplied oldest firstAttempt s ids (if candidate then int i else closestIndex)
   }"

definition syncFrom :: "Date_t \<Rightarrow> string \<Rightarrow> string \<Rightarrow> int \<Rightarrow> TopologyCoordinator \<Rightarrow> (HostAndPort \<times> TopologyCoordinator) option" where
  "syncFrom now prefix suffix index s = do {
     m \<leftarrow> getMemberAt (tcConfig s) index;
     let s = s\<lparr>tcSyncSource := mcHost m\<rparr>;
     Some (tcSyncSource s, setMyHeartbeatMessage now (prefix @ HostAndPort_toString (tcSyncSource s) @ suffix) s)
   }"

definition chooseNewSyncSource ::
  "Date_t \<Rightarrow> Timestamp \<Rightarrow> TopologyCoordinator \<Rightarrow> (HostAndPort \<times> TopologyCoordinator) option" where
  "chooseNewSyncSource now lastTimestampApplied s = do {
     primary \<leftarrow> iAmPrimary s;
     if primary then Some (noHost, s)
     else if tcSelfIndex s = - 1 then Some (noHost, s)
     else if tcForceSyncSourceIndex s \<noteq> - 1 then do {
       invariant (tcForceSyncSourceIndex s < getNumMembers (tcConfig s));
       syncFrom now ''syncing from: '' '' by request'' (tcForceSyncSourceIndex s) (s\<lparr>tcForceSyncSourceIndex := - 1\<rparr>)
     }
     else if needMorePings s > 0 then Some (noHost, s\<lparr>tcSyncSource := noHost\<rparr>)
     else if \<not> chainingAllowed (tcConfig s) then do {
       current \<leftarrow> currentPrimaryMember s;
       case current of
         None \<Rightarrow> Some (noHost, s\<lparr>tcSyncSource := noHost\<rparr>)
       | Some m \<Rightarrow>
           if memberIsBlacklisted m now s then Some (noHost, s\<lparr>tcSyncSource := noHost\<rparr>)
           else syncFrom now ''syncing from primary: '' '''' (tcCurrentPrimaryIndex s) s
     }
     else do {
       oldest \<leftarrow> oldestSyncOpTime s;
       first \<leftarrow> closestSource now lastTimestampApplied oldest True s (indexed s) (- 1);
       closestIndex \<leftarrow> (if first \<noteq> - 1 then Some first
                        else closestSource now lastTimestampApplied oldest False s (indexed s) (- 1));
       if closestIndex = - 1
       then Some (noHost, (setMyHeartbeatMessage now ''could not find member to sync from'' s)\<lparr>tcSyncSource := noHost\<rparr>)
       else syncFrom now ''syncing from: '' '''' closestIndex s
     }
   }"

fun betterSource :: "Date_t \<Rightarrow> 32 word \<Rightarrow> TopologyCoordinator \<Rightarrow> (nat \<times> MemberHeartbeatData) list \<Rightarrow> bool option" where
  "betterSource now goalSecs s [] = Some False"
| "betterSource now goalSecs s ((i, d) # ids) = do {
     m \<leftarrow> getMemberAt (tcConfig s) (int i);
     suitable \<leftarrow>
       (if up d then do {
          voterOk \<leftarrow> (if isVoter m then Some True else map_option (\<lambda>me. \<not> isVoter me) (selfConfig s));
          indexesOk \<leftarrow> (if \<not> voterOk then Some False
                        else if mcBuildIndexes m then Some True
                        else map_option (\<lambda>me. \<not> mcBuildIndexes me) (selfConfig s));
          Some (indexesOk \<and> readable (hbState d) \<and> \<not> memberIsBlacklisted m now s \<and>
                uint goalSecs < OpTime_getSecs (hbOpTime d))
        } else Some False);
     if suitable then do {
       invariant (int i \<noteq> tcSelfIndex s);
       Some True
     } else betterSource now goalSecs s ids
   }"

definition shouldChangeSyncSource ::
  "HostAndPort \<Rightarrow> OpTime \<Rightarrow> OpTime \<Rightarrow> bool \<Rightarrow> Date_t \<Rightarrow> TopologyCoordinator \<Rightarrow> bool option" where
  "shouldChangeSyncSource currentSource myLastOpTime syncSourceLastOpTime syncSourceHasSyncSource now s =
     (if tcForceSyncSourceIndex s \<noteq> - 1 then Some True
      else do {
        let currentSourceIndex = findMemberIndexByHostAndPort (tcConfig s) currentSource;
        if currentSourceIndex = - 1 then Some True
        else do {
          invariant (currentSourceIndex \<noteq> tcSelfIndex s);
          d \<leftarrow> hbdataAt s currentSourceIndex;
          let currentSourceOpTime =
            (if OpTime_less syncSourceLastOpTime (hbOpTime d) then hbOpTime d else syncSourceLastOpTime);
          if OpTime_isNull currentSourceOpTime then Some False
          else if protocolVersion (tcConfig s) = 1 \<and> \<not> syncSourceHasSyncSource \<and>
                  OpTime_le currentSourceOpTime myLastOpTime \<and> hbState d \<noteq> RS_PRIMARY then Some True
          else betterSource now (word_of_int (OpTime_getSecs currentSourceOpTime + tcMaxSyncSourceLagSecs s)) s (indexed s)
        }
      })"

end
