(* ===== verification/TopologyCommands.thy ===== *)
theory TopologyCommands
  imports TopologyCoord
begin

text \<open>
  The replies of a topology coordinator to commands, \<^verbatim>\<open>src/src/mongo/db/repl/topology_coordinator_impl.cpp\<close>:
  heartbeats of the other members in both protocol versions, the two rounds of an election in protocol
  version 0, \<open>replSetSyncFrom\<close>, \<open>replSetFreeze\<close>, \<open>replSetGetStatus\<close> and \<open>isMaster\<close>. A reply is a record
  with one field for each field of the document that the code builds; the reasons for a veto are the
  constructors of a datatype, without the wording of the message.
\<close>

subsection \<open>Replies to heartbeats\<close>

text \<open>What both protocol versions check first: the sender must not have the id of this member.\<close>

definition heartbeatError :: "MemberState \<Rightarrow> ReplSetHeartbeatArgs \<Rightarrow> TopologyCoordinator \<Rightarrow> Status option" where
  "heartbeatError myState args s =
     (if tcSelfIndex s = - 1
      then Some (if myState = RS_REMOVED then StatusError InvalidReplicaSetConfig else StatusOK)
      else do {
        me \<leftarrow> selfConfig s;
        Some (if haSenderId args = mcId me then StatusError BadValue else StatusOK)
      })"

text \<open>What both do last: deliver a newer configuration, and resolve the sender.\<close>

definition addConfig :: "ReplSetHeartbeatArgs \<Rightarrow> TopologyCoordinator \<Rightarrow> ReplSetHeartbeatResponse \<Rightarrow> ReplSetHeartbeatResponse" where
  "addConfig args s response =
     (let response = response\<lparr>rspConfigVersion := cfgVersion (tcConfig s)\<rparr>
      in if cfgVersion (tcConfig s) > haConfigVersion args then response\<lparr>rspConfig := Some (tcConfig s)\<rparr> else response)"

definition resolveSender :: "ReplSetHeartbeatArgs \<Rightarrow> TopologyCoordinator \<Rightarrow> int" where
  "resolveSender args s =
     (if cfgVersion (tcConfig s) = haConfigVersion args \<and> haSenderId args \<noteq> - 1
      then getMemberIndex (haSenderId args) s else - 1)"

definition noteHeartbeatFrom :: "Date_t \<Rightarrow> int \<Rightarrow> TopologyCoordinator \<Rightarrow> (bool \<times> TopologyCoordinator) option" where
  "noteHeartbeatFrom now sender s = do {
     invariant (sender \<noteq> tcSelfIndex s);
     d \<leftarrow> hbdataAt s sender;
     Some (up d, s\<lparr>tcHbdata := (tcHbdata s)[nat sender := d\<lparr>lastHeartbeatRecv := now\<rparr>]\<rparr>)
   }"

definition addSyncingTo :: "TopologyCoordinator \<Rightarrow> ReplSetHeartbeatResponse \<Rightarrow> ReplSetHeartbeatResponse" where
  "addSyncingTo s response =
     (if \<not> HostAndPort_empty (tcSyncSource s) then response\<lparr>rspSyncingTo := tcSyncSource s\<rparr> else response)"

type_synonym HeartbeatReply = "(Status \<times> ReplSetHeartbeatResponse) \<times> TopologyCoordinator"

definition prepareHeartbeatResponse ::
  "Date_t \<Rightarrow> ReplSetHeartbeatArgs \<Rightarrow> string \<Rightarrow> OpTime \<Rightarrow> ReplSetHeartbeatResponse \<Rightarrow> TopologyCoordinator \<Rightarrow> HeartbeatReply option" where
  "prepareHeartbeatResponse now args ourSetName lastOpApplied response s =
     (if haProtocolVersion args \<noteq> 1 then Some ((StatusError BadValue, response), s)
      else if ourSetName \<noteq> haSetName args
      then Some ((StatusError InconsistentReplicaSetNames, response\<lparr>rspMismatch := True\<rparr>), s)
      else do {
        myState \<leftarrow> getMemberState s;
        invariant (tcSelfIndex s \<noteq> - 1 \<longrightarrow> replSetName (tcConfig s) = haSetName args);
        error \<leftarrow> heartbeatError myState args s;
        if error \<noteq> StatusOK then Some ((error, response), s)
        else do {
          let response = response\<lparr>rspIsReplSet := True, rspSetName := ourSetName, rspState := Some myState\<rparr>;
          let response = (if myState = RS_PRIMARY then response\<lparr>rspElectionTime := Some (tcElectionTime s)\<rparr> else response);
          reason \<leftarrow> getMyUnelectableReason now lastOpApplied s;
          let response = response\<lparr>rspElectable := Some (reason = 0), rspHbMsg := getHbmsg now s,
                                  rspTime := Some (now sdiv 1000), rspOpTime := Some lastOpApplied\<rparr>;
          let response = addSyncingTo s response;
          if \<not> isInitialized (tcConfig s) then Some ((StatusOK, response\<lparr>rspConfigVersion := - 2\<rparr>), s)
          else do {
            let response = addConfig args s response;
            let sender = resolveSender args s;
            if sender = - 1 then Some ((StatusOK, response), s)
            else do {
              (isUp, s) \<leftarrow> noteHeartbeatFrom now sender s;
              Some ((StatusOK, if \<not> isUp then response\<lparr>rspStateDisagreement := True\<rparr> else response), s)
            }
          }
        }
      })"

definition prepareHeartbeatResponseV1 ::
  "Date_t \<Rightarrow> ReplSetHeartbeatArgs \<Rightarrow> string \<Rightarrow> OpTime \<Rightarrow> ReplSetHeartbeatResponse \<Rightarrow> TopologyCoordinator \<Rightarrow> HeartbeatReply option" where
  "prepareHeartbeatResponseV1 now args ourSetName lastOpApplied response s =
     (if ourSetName \<noteq> haSetName args then Some ((StatusError InconsistentReplicaSetNames, response), s)
      else do {
        myState \<leftarrow> getMemberState s;
        error \<leftarrow> heartbeatError myState args s;
        if error \<noteq> StatusOK then Some ((error, response), s)
        else do {
          let response = response\<lparr>rspSetName := ourSetName, rspState := Some myState, rspOpTime := Some lastOpApplied\<rparr>;
          current \<leftarrow> currentPrimaryMember s;
          let response = (case current of None \<Rightarrow> response | Some m \<Rightarrow> response\<lparr>rspPrimaryId := Some (mcId m)\<rparr>);
          let response = addSyncingTo s (response\<lparr>rspTerm := tcTerm s\<rparr>);
          if \<not> isInitialized (tcConfig s) then Some ((StatusOK, response\<lparr>rspConfigVersion := - 2\<rparr>), s)
          else do {
            let response = addConfig args s response;
            let sender = resolveSender args s;
            if sender = - 1 then Some ((StatusOK, response), s)
            else do {
              (isUp, s) \<leftarrow> noteHeartbeatFrom now sender s;
              Some ((StatusOK, response), s)
            }
          }
        }
      })"

subsection \<open>Elections of protocol version 0\<close>

record ReplSetFreshArgs =
  faSetName :: string
  faId :: "32 word"
  faCfgver :: int
  faOpTime :: Timestamp

datatype Veto = NoSuchMember | AlreadyPrimary | PrimaryMoreUpToDate | LowerPriority | NotElectable string

definition shouldVetoMember ::
  "(Date_t \<Rightarrow> string) \<Rightarrow> ReplSetFreshArgs \<Rightarrow> Date_t \<Rightarrow> OpTime \<Rightarrow> TopologyCoordinator \<Rightarrow> Veto option option" where
  "shouldVetoMember isoDate args now lastOpApplied s =
     (if cfgVersion (tcConfig s) < faCfgver args then Some None
      else do {
        let hopefulIndex = getMemberIndex (sint (faId args)) s;
        invariant (hopefulIndex \<noteq> tcSelfIndex s);
        highestPriorityIndex \<leftarrow> getHighestPriorityElectableIndex now lastOpApplied s;
        if hopefulIndex = - 1 then Some (Some NoSuchMember)
        else do {
          primary \<leftarrow> iAmPrimary s;
          hopefulData \<leftarrow> hbdataAt s hopefulIndex;
          if primary \<and> OpTime_ge lastOpApplied (hbOpTime hopefulData) then Some (Some AlreadyPrimary)
          else do {
            behind \<leftarrow> (if tcCurrentPrimaryIndex s \<noteq> - 1 \<and> hopefulIndex \<noteq> tcCurrentPrimaryIndex s
                       then map_option (\<lambda>d. OpTime_ge (hbOpTime d) (hbOpTime hopefulData))
                              (hbdataAt s (tcCurrentPrimaryIndex s))
                       else Some False);
            if behind then Some (Some PrimaryMoreUpToDate)
            else do {
              hopeful \<leftarrow> getMemberAt (tcConfig s) hopefulIndex;
              lower \<leftarrow> (if highestPriorityIndex \<noteq> - 1
                        then map_option (\<lambda>m. double_less (mcPriority hopeful) (mcPriority m))
                               (getMemberAt (tcConfig s) highestPriorityIndex)
                        else Some False);
              if lower then Some (Some LowerPriority)
              else do {
                reason \<leftarrow> getUnelectableReason hopefulIndex lastOpApplied s;
                let reason = reason AND NOT RefusesToStand;
                if reason \<noteq> 0 then map_option (Some \<circ> NotElectable) (getUnelectableReasonString isoDate reason s)
                else Some None
              }
            }
          }
        }
      })"

record ReplSetFreshResponse =
  frInfoStale :: bool
  frOpTime :: "64 word"
  frFresher :: bool
  frVeto :: "Veto option"

definition prepareFreshResponse ::
  "(Date_t \<Rightarrow> string) \<Rightarrow> ReplSetFreshArgs \<Rightarrow> Date_t \<Rightarrow> OpTime \<Rightarrow> TopologyCoordinator \<Rightarrow> (ErrorCode + ReplSetFreshResponse) option" where
  "prepareFreshResponse isoDate args now lastOpApplied s =
     (if protocolVersion (tcConfig s) \<noteq> 0 then Some (Inl BadValue)
      else if tcSelfIndex s = - 1 then Some (Inl ReplicaSetNotFound)
      else if faSetName args \<noteq> replSetName (tcConfig s) then Some (Inl ReplicaSetNotFound)
      else do {
        me \<leftarrow> selfConfig s;
        if faId args = word_of_int (mcId me) then Some (Inl BadValue)
        else do {
          let stale = cfgVersion (tcConfig s) > faCfgver args;
          let weAreFresher = (stale \<or> OpTime_less (OpTime (faOpTime args) (tcTerm s)) (latestKnownOpTime lastOpApplied s));
          veto \<leftarrow> shouldVetoMember isoDate args now lastOpApplied s;
          Some (Inr \<lparr>frInfoStale = stale, frOpTime = Timestamp_asULL (getTimestamp lastOpApplied),
                     frFresher = weAreFresher, frVeto = veto\<rparr>)
        }
      })"

record ReplSetElectArgs =
  eaSet :: string
  eaWhoid :: int
  eaCfgver :: int
  eaRound :: OID

definition prepareElectResponse ::
  "ReplSetElectArgs \<Rightarrow> Date_t \<Rightarrow> OpTime \<Rightarrow> TopologyCoordinator \<Rightarrow> ((ErrorCode + int \<times> OID) \<times> TopologyCoordinator) option" where
  "prepareElectResponse args now lastOpApplied s =
     (if protocolVersion (tcConfig s) \<noteq> 0 then Some (Inl BadValue, s)
      else if tcSelfIndex s = - 1 then Some (Inl ReplicaSetNotFound, s)
      else do {
        let myver = cfgVersion (tcConfig s);
        highestPriorityIndex \<leftarrow> getHighestPriorityElectableIndex now lastOpApplied s;
        primary \<leftarrow> currentPrimaryMember s;
        let hopeful = findMemberByID (tcConfig s) (eaWhoid args);
        highestPriority \<leftarrow> (if highestPriorityIndex = - 1 then Some None
                            else map_option Some (getMemberAt (tcConfig s) highestPriorityIndex));
        let reply = (\<lambda>vote. Some (Inr (vote, eaRound args), s));
        if eaSet args \<noteq> replSetName (tcConfig s) then reply 0
        else if myver < eaCfgver args then reply 0
        else if myver > eaCfgver args then reply (- 10000)
        else case hopeful of
            None \<Rightarrow> reply (- 10000)
          | Some h \<Rightarrow> do {
              amPrimary \<leftarrow> iAmPrimary s;
              if amPrimary then reply (- 10000)
              else if primary \<noteq> None then reply (- 10000)
              else if (case highestPriority of None \<Rightarrow> False | Some m \<Rightarrow> double_less (mcPriority h) (mcPriority m))
              then reply (- 10000)
              else if tcVoteWhen s + leaseTime \<ge> now \<and> tcVoteWhoId s \<noteq> eaWhoid args then reply 0
              else do {
                me \<leftarrow> selfConfig s;
                invariant (mcId h = eaWhoid args);
                Some (Inr (getNumVotes me, eaRound args),
                      s\<lparr>tcVoteWhen := now, tcVoteWhoId := eaWhoid args, tcVoteWhoHost := mcHost h\<rparr>)
              }
            }
      })"

subsection \<open>Commands of an administrator\<close>

record SyncFromResponse =
  sfRequested :: "string option"
  sfWarning :: bool
  sfPrevSyncTarget :: "string option"

definition prepareSyncFromResponse ::
  "bool \<Rightarrow> HostAndPort \<Rightarrow> OpTime \<Rightarrow> TopologyCoordinator \<Rightarrow> ((Status \<times> SyncFromResponse) \<times> TopologyCoordinator) option" where
  "prepareSyncFromResponse canceled target lastOpApplied s =
     (let response = \<lparr>sfRequested = None, sfWarning = False, sfPrevSyncTarget = None\<rparr>;
          response' = response\<lparr>sfRequested := Some (HostAndPort_toString target)\<rparr>;
          fail = (\<lambda>e. Some ((StatusError e, response'), s))
      in if canceled then Some ((StatusError ShutdownInProgress, response), s)
         else if tcSelfIndex s = - 1 then fail NotSecondary
         else do {
           me \<leftarrow> selfConfig s;
           let targetIndex = findMemberIndexByHostAndPort (tcConfig s) target;
           if mcArbiterOnly me then fail NotSecondary
           else if tcSelfIndex s = tcCurrentPrimaryIndex s then fail NotSecondary
           else if targetIndex = - 1 then fail NodeNotFound
           else if targetIndex = tcSelfIndex s then fail InvalidOptions
           else do {
             m \<leftarrow> getMemberAt (tcConfig s) targetIndex;
             if mcArbiterOnly m then fail InvalidOptions
             else if \<not> mcBuildIndexes m \<and> mcBuildIndexes me then fail InvalidOptions
             else if isVoter me \<and> \<not> isVoter m then fail InvalidOptions
             else do {
               d \<leftarrow> hbdataAt s targetIndex;
               if hasAuthIssue d then fail Unauthorized
               else if health d = 0 then fail HostUnreachable
               else do {
                 let response' = response'\<lparr>sfWarning := OpTime_getSecs (hbOpTime d) + 10 < OpTime_getSecs lastOpApplied\<rparr>;
                 let response' = (if HostAndPort_empty (tcSyncSource s) then response'
                                  else response'\<lparr>sfPrevSyncTarget := Some (HostAndPort_toString (tcSyncSource s))\<rparr>);
                 s \<leftarrow> setForceSyncSourceIndex targetIndex s;
                 Some ((StatusOK, response'), s)
               }
             }
           }
         })"

datatype FreezeReply = Unfreezing | FreezeWarning | FreezeSilent

definition prepareFreezeResponse :: "Date_t \<Rightarrow> int \<Rightarrow> TopologyCoordinator \<Rightarrow> (FreezeReply \<times> TopologyCoordinator) option" where
  "prepareFreezeResponse now secs s =
     (if secs = 0 then do {
        let s = s\<lparr>tcStepDownUntil := now\<rparr>;
        single \<leftarrow> (if tcFollowerMode s = RS_SECONDARY then singleElectableNode s else Some False);
        Some (Unfreezing, if single then s\<lparr>tcRole := Candidate\<rparr> else s)
      } else do {
        primary \<leftarrow> iAmPrimary s;
        Some (if secs = 1 then FreezeWarning else FreezeSilent,
              if \<not> primary then s\<lparr>tcStepDownUntil := max (tcStepDownUntil s) (now + secs * 1000)\<rparr> else s)
      })"

subsection \<open>The status of the set\<close>

definition MemberState_toString :: "MemberState \<Rightarrow> string" where
  "MemberState_toString s =
     (case s of RS_STARTUP \<Rightarrow> ''STARTUP'' | RS_PRIMARY \<Rightarrow> ''PRIMARY'' | RS_SECONDARY \<Rightarrow> ''SECONDARY''
      | RS_RECOVERING \<Rightarrow> ''RECOVERING'' | RS_STARTUP2 \<Rightarrow> ''STARTUP2'' | RS_ARBITER \<Rightarrow> ''ARBITER''
      | RS_DOWN \<Rightarrow> ''DOWN'' | RS_ROLLBACK \<Rightarrow> ''ROLLBACK'' | RS_UNKNOWN \<Rightarrow> ''UNKNOWN'' | RS_REMOVED \<Rightarrow> ''REMOVED'')"

text \<open>An optime is printed with its term in protocol version 1 only.\<close>

type_synonym PrintedOpTime = "Timestamp \<times> Term option"

definition printOpTime :: "ReplicaSetConfig \<Rightarrow> OpTime \<Rightarrow> PrintedOpTime" where
  "printOpTime c t = (getTimestamp t, if protocolVersion c = 1 then Some (getTerm t) else None)"

definition nonEmpty :: "string \<Rightarrow> string option" where
  "nonEmpty msg = (if msg = '''' then None else Some msg)"

definition printHost :: "HostAndPort \<Rightarrow> string option" where
  "printHost h = (if HostAndPort_empty h then None else Some (HostAndPort_toString h))"

record MemberStatus =
  msId :: int
  msName :: string
  msHealth :: int
  msState :: MemberState
  msStateStr :: string
  msUptime :: "32 word"
  msOptime :: "PrintedOpTime option"
  msLastHeartbeat :: "Date_t option"
  msLastHeartbeatRecv :: "Date_t option"
  msPingMs :: "Milliseconds option"
  msLastHeartbeatMessage :: "string option"
  msAuthenticated :: "bool option"
  msSyncingTo :: "string option"
  msMaintenanceMode :: "int option"
  msInfoMessage :: "string option"
  msElectionTime :: "Timestamp option"
  msConfigVersion :: int
  msSelf :: bool

definition selfStatus :: "Date_t \<Rightarrow> 32 word \<Rightarrow> OpTime \<Rightarrow> MemberState \<Rightarrow> TopologyCoordinator \<Rightarrow> MemberStatus option" where
  "selfStatus now selfUptime lastOpApplied myState s = do {
     me \<leftarrow> selfConfig s;
     syncing \<leftarrow> (if HostAndPort_empty (tcSyncSource s) then Some None
                 else do {
                   primary \<leftarrow> iAmPrimary s;
                   Some (if primary then None else printHost (tcSyncSource s))
                 });
     Some \<lparr>msId = mcId me, msName = HostAndPort_toString (mcHost me), msHealth = 1, msState = myState,
       msStateStr = MemberState_toString myState, msUptime = selfUptime,
       msOptime = (if mcArbiterOnly me then None else Some (printOpTime (tcConfig s) lastOpApplied)),
       msLastHeartbeat = None, msLastHeartbeatRecv = None, msPingMs = None, msLastHeartbeatMessage = None,
       msAuthenticated = None, msSyncingTo = syncing,
       msMaintenanceMode = (if tcMaintenanceModeCalls s \<noteq> 0 then Some (tcMaintenanceModeCalls s) else None),
       msInfoMessage = nonEmpty (getHbmsg now s),
       msElectionTime = (if myState = RS_PRIMARY then Some (tcElectionTime s) else None),
       msConfigVersion = cfgVersion (tcConfig s), msSelf = True\<rparr>
   }"

definition otherStatus :: "Date_t \<Rightarrow> nat \<Rightarrow> MemberHeartbeatData \<Rightarrow> TopologyCoordinator \<Rightarrow> MemberStatus option" where
  "otherStatus now i d s = do {
     m \<leftarrow> getMemberAt (tcConfig s) (int i);
     let ping = getPing (mcHost m) s;
     Some \<lparr>msId = mcId m, msName = HostAndPort_toString (mcHost m), msHealth = health d, msState = hbState d,
       msStateStr = (if health d = 0 then ''(not reachable/healthy)'' else MemberState_toString (hbState d)),
       msUptime = (if upSince d \<noteq> 0 then word_of_int ((now - upSince d) sdiv 1000) else 0),
       msOptime = (if mcArbiterOnly m then None else Some (printOpTime (tcConfig s) (hbOpTime d))),
       msLastHeartbeat = Some (lastHeartbeat d), msLastHeartbeatRecv = Some (lastHeartbeatRecv d),
       msPingMs = (if ping \<noteq> UninitializedPing then Some ping else None),
       msLastHeartbeatMessage = (if ping \<noteq> UninitializedPing then nonEmpty (lastHeartbeatMsg d) else None),
       msAuthenticated = (if hasAuthIssue d then Some False else None),
       msSyncingTo = (if hbState d \<noteq> RS_PRIMARY then printHost (hbSyncSource d) else None),
       msMaintenanceMode = None, msInfoMessage = None,
       msElectionTime = (if hbState d = RS_PRIMARY then Some (hbElectionTime d) else None),
       msConfigVersion = hbConfigVersion d, msSelf = False\<rparr>
   }"

fun memberStatuses ::
  "Date_t \<Rightarrow> 32 word \<Rightarrow> OpTime \<Rightarrow> MemberState \<Rightarrow> TopologyCoordinator \<Rightarrow> (nat \<times> MemberHeartbeatData) list \<Rightarrow> MemberStatus list option" where
  "memberStatuses now selfUptime lastOpApplied myState s [] = Some []"
| "memberStatuses now selfUptime lastOpApplied myState s ((i, d) # ids) = do {
     m \<leftarrow> (if int i = tcSelfIndex s then selfStatus now selfUptime lastOpApplied myState s else otherStatus now i d s);
     ms \<leftarrow> memberStatuses now selfUptime lastOpApplied myState s ids;
     Some (m # ms)
   }"

record RemovedStatus =
  rsState :: MemberState
  rsStateStr :: string
  rsUptime :: "32 word"
  rsOptime :: PrintedOpTime
  rsMaintenanceMode :: "int option"
  rsInfoMessage :: "string option"

record SetStatus =
  ssSet :: string
  ssDate :: Date_t
  ssMyState :: MemberState
  ssTerm :: Term
  ssSyncingTo :: "string option"
  ssConfigsvr :: bool
  ssHeartbeatIntervalMillis :: Milliseconds
  ssMembers :: "MemberStatus list"

datatype StatusReply = StatusCanceled | StatusRemoved RemovedStatus | StatusSet SetStatus

text \<open>The documents of the members are sorted; their first field is the id.\<close>

definition prepareStatusResponse ::
  "bool \<Rightarrow> Date_t \<Rightarrow> 32 word \<Rightarrow> OpTime \<Rightarrow> TopologyCoordinator \<Rightarrow> (Status \<times> StatusReply) option" where
  "prepareStatusResponse canceled now selfUptime lastOpApplied s =
     (if canceled then Some (StatusError ShutdownInProgress, StatusCanceled)
      else do {
        myState \<leftarrow> getMemberState s;
        if tcSelfIndex s = - 1
        then Some (StatusError InvalidReplicaSetConfig, StatusRemoved \<lparr>rsState = myState,
               rsStateStr = MemberState_toString myState, rsUptime = selfUptime,
               rsOptime = printOpTime (tcConfig s) lastOpApplied,
               rsMaintenanceMode = (if tcMaintenanceModeCalls s \<noteq> 0 then Some (tcMaintenanceModeCalls s) else None),
               rsInfoMessage = nonEmpty (getHbmsg now s)\<rparr>)
        else do {
          membersOut \<leftarrow> memberStatuses now selfUptime lastOpApplied myState s (indexed s);
          Some (StatusOK, StatusSet \<lparr>ssSet = (if isInitialized (tcConfig s) then replSetName (tcConfig s) else ''''),
            ssDate = now, ssMyState = myState, ssTerm = tcTerm s,
            ssSyncingTo = (if myState \<noteq> RS_PRIMARY \<and> myState \<noteq> RS_REMOVED then printHost (tcSyncSource s) else None),
            ssConfigsvr = configServer (tcConfig s), ssHeartbeatIntervalMillis = heartbeatInterval (tcConfig s),
            ssMembers = sort_key msId membersOut\<rparr>)
        }
      })"

subsection \<open>isMaster\<close>

record IsMasterResponse =
  imConfigSet :: bool
  imHosts :: "HostAndPort list"
  imPassives :: "HostAndPort list"
  imArbiters :: "HostAndPort list"
  imSetName :: string
  imSetVersion :: int
  imIsMaster :: bool
  imIsSecondary :: bool
  imPrimary :: "HostAndPort option"
  imArbiterOnly :: bool
  imPassive :: bool
  imSlaveDelay :: "int option"
  imHidden :: bool
  imBuildIndexes :: bool
  imTags :: "string \<rightharpoonup> string"
  imMe :: "HostAndPort option"
  imElectionId :: "OID option"

fun addMembers :: "MemberConfig list \<Rightarrow> IsMasterResponse \<Rightarrow> IsMasterResponse" where
  "addMembers [] r = r"
| "addMembers (m # ms) r =
     addMembers ms
       (if mcHidden m \<or> mcSlaveDelay m > 0 then r
        else if isElectable m then r\<lparr>imHosts := imHosts r @ [mcHost m]\<rparr>
        else if mcArbiterOnly m then r\<lparr>imArbiters := imArbiters r @ [mcHost m]\<rparr>
        else r\<lparr>imPassives := imPassives r @ [mcHost m]\<rparr>)"

fun userTags :: "ReplicaSetTagConfig \<Rightarrow> ReplicaSetTag list \<Rightarrow> (string \<times> string) list option" where
  "userTags td [] = Some []"
| "userTags td (tag # tags) = do {
     key \<leftarrow> getTagKey tag td;
     if isInternalTagKey key then userTags td tags
     else do {
       val \<leftarrow> getTagValue tag td;
       rest \<leftarrow> userTags td tags;
       Some ((key, val) # rest)
     }
   }"

definition fillIsMasterForReplSet :: "IsMasterResponse \<Rightarrow> TopologyCoordinator \<Rightarrow> IsMasterResponse option" where
  "fillIsMasterForReplSet response s = do {
     myState \<leftarrow> getMemberState s;
     if \<not> isInitialized (tcConfig s) then Some (response\<lparr>imConfigSet := False\<rparr>)
     else do {
       let r = (addMembers (members (tcConfig s)) response)\<lparr>imSetName := replSetName (tcConfig s)\<rparr>;
       if myState = RS_REMOVED then Some (r\<lparr>imConfigSet := False\<rparr>)
       else do {
         let r = r\<lparr>imSetVersion := cfgVersion (tcConfig s), imIsMaster := (myState = RS_PRIMARY),
                   imIsSecondary := (myState = RS_SECONDARY)\<rparr>;
         current \<leftarrow> currentPrimaryMember s;
         let r = (case current of None \<Rightarrow> r | Some m \<Rightarrow> r\<lparr>imPrimary := Some (mcHost m)\<rparr>);
         me \<leftarrow> selfConfig s;
         let r = (if mcArbiterOnly me then r\<lparr>imArbiterOnly := True\<rparr>
                  else if double_eq (mcPriority me) (Finite 0) then r\<lparr>imPassive := True\<rparr> else r);
         let r = (if mcSlaveDelay me > 0 then r\<lparr>imSlaveDelay := Some (mcSlaveDelay me)\<rparr> else r);
         let r = (if mcHidden me then r\<lparr>imHidden := True\<rparr> else r);
         let r = (if \<not> mcBuildIndexes me then r\<lparr>imBuildIndexes := False\<rparr> else r);
         tagged \<leftarrow> hasTags me (tagConfig (tcConfig s));
         tags \<leftarrow> (if tagged then userTags (tagConfig (tcConfig s)) (mcTags me) else Some []);
         let r = r\<lparr>imTags := imTags r ++ map_of (rev tags), imMe := Some (mcHost me)\<rparr>;
         primary \<leftarrow> iAmPrimary s;
         Some (if primary then r\<lparr>imElectionId := Some (tcElectionId s)\<rparr> else r)
       }
     }
   }"

record ReplSetMetadata =
  rmTerm :: Term
  rmLastOpCommitted :: OpTime
  rmLastOpVisible :: OpTime
  rmConfigVersion :: int
  rmPrimaryIndex :: int
  rmSyncSourceIndex :: int

definition prepareReplResponseMetadata :: "OpTime \<Rightarrow> OpTime \<Rightarrow> TopologyCoordinator \<Rightarrow> ReplSetMetadata" where
  "prepareReplResponseMetadata lastVisibleOpTime lastCommittedOpTime s =
     \<lparr>rmTerm = tcTerm s, rmLastOpCommitted = lastCommittedOpTime, rmLastOpVisible = lastVisibleOpTime,
      rmConfigVersion = cfgVersion (tcConfig s), rmPrimaryIndex = tcCurrentPrimaryIndex s,
      rmSyncSourceIndex = findMemberIndexByHostAndPort (tcConfig s) (tcSyncSource s)\<rparr>"

end
