(* ===== verification/TopologyInvariant.thy ===== *)
theory TopologyInvariant
  imports TopologyCommands
begin

text \<open>
  The invariant of a topology coordinator and that its queries succeed under it. The invariant says
  that the indices are in range, that a leader is the current primary, that any other current primary
  is up and says so in its heartbeat data, and that the statistics of heartbeats are consistent.
  \<open>returns m P\<close> says that a run ends without abort and that its result satisfies \<open>P\<close>; its rules
  compute the condition for a run of a monadic definition.
\<close>

subsection \<open>Runs that return\<close>

definition returns :: "'a option \<Rightarrow> ('a \<Rightarrow> bool) \<Rightarrow> bool" where
  "returns m P \<longleftrightarrow> (\<exists>x. m = Some x \<and> P x)"

lemma returns_simps [simp]:
  "returns (Some x) P \<longleftrightarrow> P x"
  "returns None P \<longleftrightarrow> False"
  "returns (invariant b \<bind> f) P \<longleftrightarrow> b \<and> returns (f ()) P"
  "returns (map_option g m) P \<longleftrightarrow> returns m (\<lambda>x. P (g x))"
  by (auto simp: returns_def invariant_def)

lemma returns_bind: "returns (m \<bind> f) P \<longleftrightarrow> returns m (\<lambda>x. returns (f x) P)"
  by (cases m) simp_all

lemma returns_if: "returns (if b then m else m') P \<longleftrightarrow> (if b then returns m P else returns m' P)"
  by simp

lemma returns_weaken: "returns m P \<Longrightarrow> (\<And>x. m = Some x \<Longrightarrow> P x \<Longrightarrow> Q x) \<Longrightarrow> returns m Q"
  by (auto simp: returns_def)

lemma returnsE: "returns m P \<Longrightarrow> (\<And>x. m = Some x \<Longrightarrow> P x \<Longrightarrow> thesis) \<Longrightarrow> thesis"
  by (auto simp: returns_def)

subsection \<open>The invariant\<close>

definition inRange :: "TopologyCoordinator \<Rightarrow> int \<Rightarrow> bool" where
  "inRange s i \<longleftrightarrow> 0 \<le> i \<and> i < int (length (members (tcConfig s)))"

definition says_primary :: "MemberHeartbeatData \<Rightarrow> bool" where
  "says_primary d \<longleftrightarrow> up d \<and> hbState d = RS_PRIMARY"

text \<open>What holds of the configuration and the heartbeat data.\<close>

definition config_inv :: "TopologyCoordinator \<Rightarrow> bool" where
  "config_inv s \<longleftrightarrow>
     length (tcHbdata s) = length (members (tcConfig s)) \<and>
     distinct (map mcId (members (tcConfig s))) \<and>
     (\<forall>m\<in>set (members (tcConfig s)). mcPriority m \<noteq> NaN \<and> 0 \<le> mcId m \<and> mcId m \<le> 255) \<and>
     (configServer (tcConfig s) \<and> tcConfigServerMode s = ModeCSRS \<longrightarrow> tcReadCommitted s \<noteq> kUnknown) \<and>
     (tcSelfIndex s = - 1 \<or> inRange s (tcSelfIndex s) \<and> \<not> up (tcHbdata s ! nat (tcSelfIndex s))) \<and>
     (\<forall>kp\<in>set (tcPings s). ping_inv (snd kp))"

definition role_inv :: "TopologyCoordinator \<Rightarrow> bool" where
  "role_inv s \<longleftrightarrow>
     (tcRole s \<noteq> Follower \<longrightarrow> tcSelfIndex s \<noteq> - 1) \<and>
     (tcSelfIndex s = - 1 \<longrightarrow> tcCurrentPrimaryIndex s = - 1) \<and>
     (tcRole s = Leader \<longleftrightarrow> tcSelfIndex s \<noteq> - 1 \<and> tcCurrentPrimaryIndex s = tcSelfIndex s) \<and>
     (tcStepDownPending s \<longrightarrow> tcRole s = Leader) \<and>
     (tcForceSyncSourceIndex s = - 1 \<or> inRange s (tcForceSyncSourceIndex s)) \<and>
     tcMaintenanceModeCalls s \<ge> 0"

text \<open>The current primary; while a heartbeat response of member \<open>i\<close> is processed, this member is excepted.\<close>

definition primary_inv :: "int \<Rightarrow> TopologyCoordinator \<Rightarrow> bool" where
  "primary_inv i s \<longleftrightarrow> tcCurrentPrimaryIndex s = - 1 \<or>
     inRange s (tcCurrentPrimaryIndex s) \<and>
     (tcCurrentPrimaryIndex s = tcSelfIndex s \<or> tcCurrentPrimaryIndex s = i \<or>
      says_primary (tcHbdata s ! nat (tcCurrentPrimaryIndex s)))"

definition tc_inv :: "TopologyCoordinator \<Rightarrow> bool" where
  "tc_inv s \<longleftrightarrow> config_inv s \<and> role_inv s \<and> primary_inv (- 1) s"

lemma tc_invD: "tc_inv s \<Longrightarrow> config_inv s" "tc_inv s \<Longrightarrow> role_inv s" "tc_inv s \<Longrightarrow> primary_inv i s"
  by (auto simp: tc_inv_def primary_inv_def inRange_def)

subsection \<open>Access by index\<close>

lemma indexed_iff: "(i, d) \<in> set (indexed s) \<longleftrightarrow> i < length (tcHbdata s) \<and> d = tcHbdata s ! i"
  by (auto simp: indexed_def in_set_enumerate_eq)

lemma getMemberAt_inRange [simp]: "inRange s i \<Longrightarrow> getMemberAt (tcConfig s) i = Some (members (tcConfig s) ! nat i)"
  by (simp add: inRange_def getNumMembers_def)

lemma hbdataAt_inRange [simp]: "config_inv s \<Longrightarrow> inRange s i \<Longrightarrow> hbdataAt s i = Some (tcHbdata s ! nat i)"
  by (simp add: inRange_def hbdataAt_def config_inv_def)

lemma selfConfig_Some: "config_inv s \<Longrightarrow> tcSelfIndex s \<noteq> - 1 \<Longrightarrow> selfConfig s = Some (members (tcConfig s) ! nat (tcSelfIndex s))"
  by (auto simp: selfConfig_def config_inv_def)

lemma self_inRange: "config_inv s \<Longrightarrow> tcSelfIndex s \<noteq> - 1 \<Longrightarrow> inRange s (tcSelfIndex s)"
  by (auto simp: config_inv_def)

lemma iAmPrimary_Some: "role_inv s \<Longrightarrow> iAmPrimary s = Some (tcRole s = Leader)"
  by (auto simp: iAmPrimary_def role_inv_def)

lemma indexOrNone_inRange:
  "indexOrNone P (members (tcConfig s)) \<noteq> - 1 \<Longrightarrow> inRange s (indexOrNone P (members (tcConfig s)))"
  by (auto simp: indexOrNone_def inRange_def split: if_splits)

lemma find_inRange:
  "findMemberIndexByHostAndPort (tcConfig s) h \<noteq> - 1 \<Longrightarrow> inRange s (findMemberIndexByHostAndPort (tcConfig s) h)"
  "getMemberIndex i s \<noteq> - 1 \<Longrightarrow> inRange s (getMemberIndex i s)"
  "findMemberIndexByConfigId (tcConfig s) i \<noteq> - 1 \<Longrightarrow> inRange s (findMemberIndexByConfigId (tcConfig s) i)"
  by (simp_all add: findMemberIndexByHostAndPort_def getMemberIndex_def findMemberIndexByConfigId_def indexOrNone_inRange)

lemma pingAt_inv: "config_inv s \<Longrightarrow> ping_inv (pingAt h s)"
  by (auto simp: pingAt_def config_inv_def ping_inv_steps dest!: map_of_SomeD split: option.splits)

lemma pingAt_setPing [simp]: "pingAt h (setPing h p s) = p"
  by (simp add: pingAt_def setPing_def update_conv)

lemma update_subset: "set (AList.update k v al) \<subseteq> insert (k, v) (set al)"
  by (induction al) auto

lemma setPing_inv: "config_inv s \<Longrightarrow> ping_inv p \<Longrightarrow> config_inv (setPing h p s)"
  using update_subset [of "hostKey h" p "tcPings s"]
  by (auto simp: config_inv_def setPing_def inRange_def)

subsection \<open>Queries\<close>

lemma removedByMode_Some: "config_inv s \<Longrightarrow> \<exists>b. removedByMode s = Some b"
  by (auto simp: removedByMode_def config_inv_def)

lemma getMemberState_Some:
  assumes "config_inv s" and "role_inv s"
  shows "\<exists>state. getMemberState s = Some state"
proof (cases "tcSelfIndex s = - 1")
  case False
  obtain b where "removedByMode s = Some b" using removedByMode_Some [OF assms(1)] by blast
  then show ?thesis using False assms(2) selfConfig_Some [OF assms(1) False] by (auto simp: getMemberState_def role_inv_def)
qed (simp add: getMemberState_def)

text \<open>The votes of the members that are up, this one included.\<close>

definition upVotes :: "TopologyCoordinator \<Rightarrow> (nat \<times> MemberHeartbeatData) list \<Rightarrow> int" where
  "upVotes s ids = (\<Sum>(i, d)\<leftarrow>ids. if int i = tcSelfIndex s \<or> up d then getNumVotes (members (tcConfig s) ! i) else 0)"

lemma votesUp_Some:
  "\<forall>(i, d)\<in>set ids. i < length (members (tcConfig s)) \<Longrightarrow> votesUp s ids v = Some (v + upVotes s ids)"
  by (induction s ids v rule: votesUp.induct) (auto simp: upVotes_def getNumMembers_def algebra_simps)

lemma aMajoritySeemsToBeUp_Some:
  "config_inv s \<Longrightarrow> aMajoritySeemsToBeUp s = Some (upVotes s (indexed s) * 2 > totalVotingMembers (tcConfig s))"
  by (subst aMajoritySeemsToBeUp_def, subst votesUp_Some) (auto simp: indexed_iff config_inv_def)

lemma addReason_zero [simp]: "addReason b reason r = 0 \<longleftrightarrow> r = 0 \<and> (b \<longrightarrow> reason = 0)"
  by (auto simp: addReason_def or_eq_0_iff)

lemma addReason_and [simp]: "addReason b reason r AND m = addReason b (reason AND m) (r AND m)"
  by (simp add: addReason_def bit.conj_disj_distrib2)

lemmas reason_defs = CannotSeeMajority_def NotCloseEnoughToLatestOptime_def ArbiterIAm_def NotSecondaryReason_def NoPriority_def
  StepDownPeriodActive_def NoData_def NotInitialized_def VotedTooRecently_def RefusesToStand_def

lemma priority_cases: "p \<noteq> NaN \<Longrightarrow> double_le p (Finite 0) \<longleftrightarrow> \<not> double_less (Finite 0) p"
  by (simp add: double_le_iff)

lemma getUnelectableReason_Some:
  assumes "config_inv s" and "inRange s i" and "i \<noteq> tcSelfIndex s"
  shows "\<exists>r. getUnelectableReason i lastOp s = Some r \<and>
    (r = 0 \<longleftrightarrow> isElectable (members (tcConfig s) ! nat i) \<and> hbState (tcHbdata s ! nat i) = RS_SECONDARY \<and>
       isOpTimeCloseEnoughToLatestToElect (hbOpTime (tcHbdata s ! nat i)) lastOp s \<and>
       \<not> (up (tcHbdata s ! nat i) \<and> isUnelectable (tcHbdata s ! nat i)))"
proof -
  have "mcPriority (members (tcConfig s) ! nat i) \<noteq> NaN" using assms by (auto simp: config_inv_def inRange_def)
  then show ?thesis using assms priority_cases
    by (auto simp: getUnelectableReason_def isElectable_def reason_defs Let_def)
qed

text \<open>This member is electable.\<close>

definition i_am_electable :: "Date_t \<Rightarrow> OpTime \<Rightarrow> TopologyCoordinator \<Rightarrow> bool" where
  "i_am_electable now lastOp s \<longleftrightarrow>
     \<not> OpTime_isNull lastOp \<and> upVotes s (indexed s) * 2 > totalVotingMembers (tcConfig s) \<and> tcSelfIndex s \<noteq> - 1 \<and>
     isElectable (members (tcConfig s) ! nat (tcSelfIndex s)) \<and> tcStepDownUntil s \<le> now \<and>
     \<not> (tcVoteWhoId s \<noteq> - 1 \<and> tcVoteWhoId s \<noteq> mcId (members (tcConfig s) ! nat (tcSelfIndex s)) \<and>
        tcVoteWhen s + leaseTime \<ge> now) \<and>
     (getMemberState s = Some RS_SECONDARY \<or> tcRole s = Leader) \<and>
     isOpTimeCloseEnoughToLatestToElect lastOp lastOp s"

lemma getMyUnelectableReason_Some:
  assumes "config_inv s" and "role_inv s"
  shows "\<exists>r. getMyUnelectableReason now lastOp s = Some r \<and> (r = 0 \<longleftrightarrow> i_am_electable now lastOp s) \<and>
    (r AND CannotSeeMajority \<noteq> 0 \<longleftrightarrow> upVotes s (indexed s) * 2 \<le> totalVotingMembers (tcConfig s))"
proof (cases "tcSelfIndex s = - 1")
  case True
  then show ?thesis using aMajoritySeemsToBeUp_Some [OF assms(1)]
    by (auto simp: getMyUnelectableReason_def i_am_electable_def reason_defs Let_def or_eq_0_iff
        bit.conj_disj_distrib2 linorder_not_less)
next
  case False
  obtain state where state: "getMemberState s = Some state" using getMemberState_Some [OF assms] by blast
  have me: "mcPriority (members (tcConfig s) ! nat (tcSelfIndex s)) \<noteq> NaN"
    using assms(1) self_inRange [OF assms(1) False] by (auto simp: config_inv_def inRange_def)
  show ?thesis
    using False state selfConfig_Some [OF assms(1) False] iAmPrimary_Some [OF assms(2)] aMajoritySeemsToBeUp_Some [OF assms(1)]
      priority_cases [OF me]
    by (auto simp: getMyUnelectableReason_def i_am_electable_def isElectable_def reason_defs Let_def linorder_not_less)
qed

lemma unelectableReasonOf_Some:
  assumes "config_inv s" and "role_inv s" and "inRange s i"
  shows "\<exists>r. unelectableReasonOf now lastOp i s = Some r"
  using getMyUnelectableReason_Some [OF assms(1,2), of now lastOp] getUnelectableReason_Some [OF assms(1,3), of lastOp]
  by (auto simp: unelectableReasonOf_def)

text \<open>The electable members; the search for the one of highest priority keeps the best so far.\<close>

definition electable :: "Date_t \<Rightarrow> OpTime \<Rightarrow> TopologyCoordinator \<Rightarrow> int \<Rightarrow> bool" where
  "electable now lastOp s i \<longleftrightarrow> unelectableReasonOf now lastOp i s = Some 0"

definition best_among :: "Date_t \<Rightarrow> OpTime \<Rightarrow> TopologyCoordinator \<Rightarrow> int set \<Rightarrow> int \<Rightarrow> bool" where
  "best_among now lastOp s I best \<longleftrightarrow>
     (if best = - 1 then \<forall>i\<in>I. \<not> electable now lastOp s i
      else best \<in> I \<and> electable now lastOp s best \<and>
        (\<forall>i\<in>I. electable now lastOp s i \<longrightarrow>
           \<not> double_less (mcPriority (members (tcConfig s) ! nat best)) (mcPriority (members (tcConfig s) ! nat i))))"

lemma best_among_insert:
  assumes "config_inv s" and "best_among now lastOp s I best" and "\<forall>i\<in>I. inRange s i" and "inRange s j"
    and "electable now lastOp s j"
  shows "\<exists>higher. isMemberHigherPriority j best s = Some higher \<and>
    best_among now lastOp s (insert j I) (if higher then j else best)"
proof -
  let ?p = "\<lambda>i. mcPriority (members (tcConfig s) ! nat i)"
  have j: "j \<noteq> - 1" using assms(4) by (simp add: inRange_def)
  show ?thesis
  proof (cases "best = - 1")
    case True
    then show ?thesis using assms j by (auto simp: isMemberHigherPriority_def best_among_def)
  next
    case False
    then have best: "inRange s best" using assms(2,3) by (simp add: best_among_def)
    have nan: "?p best \<noteq> NaN" using assms(1) best by (auto simp: config_inv_def inRange_def)
    have "isMemberHigherPriority j best s = Some (double_less (?p best) (?p j))"
      using False j best assms(4) by (simp add: isMemberHigherPriority_def)
    moreover have "\<not> double_less (?p j) (?p i)" if "double_less (?p best) (?p j)" "i \<in> I" "electable now lastOp s i" for i
    proof -
      have "\<not> double_less (?p best) (?p i)" using assms(2) False that(2,3) by (simp add: best_among_def)
      then show ?thesis using double_less_trans [OF that(1)] by blast
    qed
    ultimately show ?thesis using assms(2,5) False j by (auto simp: best_among_def)
  qed
qed

lemma highestPriorityFrom_best:
  assumes inv: "config_inv s" "role_inv s" and "best_among now lastOp s I best" and "\<forall>i\<in>I. inRange s i"
    and "\<forall>i\<in>set is. inRange s (int i)"
  shows "\<exists>best'. highestPriorityFrom now lastOp s is best = Some best' \<and> best_among now lastOp s (I \<union> int ` set is) best'"
  using assms(3-5)
proof (induction "is" arbitrary: I best)
  case (Cons i "is")
  obtain r where r: "unelectableReasonOf now lastOp (int i) s = Some r"
    using unelectableReasonOf_Some [OF inv] Cons.prems(3) by fastforce
  have next_I: "insert (int i) I \<union> int ` set is = I \<union> int ` set (i # is)" by auto
  have range: "\<forall>j\<in>insert (int i) I. inRange s j" "\<forall>j\<in>set is. inRange s (int j)" using Cons.prems by simp_all
  show ?case
  proof (cases "r = 0")
    case True
    then have "electable now lastOp s (int i)" using r by (simp add: electable_def)
    then obtain higher where "isMemberHigherPriority (int i) best s = Some higher"
        "best_among now lastOp s (insert (int i) I) (if higher then int i else best)"
      using best_among_insert [OF inv(1) Cons.prems(1,2)] Cons.prems(3) by auto
    then show ?thesis using r True Cons.IH [OF _ range] unfolding next_I [symmetric] by (simp del: Un_insert_left)
  next
    case False
    then have "best_among now lastOp s (insert (int i) I) best"
      using r Cons.prems(1) by (auto simp: best_among_def electable_def)
    then show ?thesis using r False Cons.IH [OF _ range] unfolding next_I [symmetric] by (simp del: Un_insert_left)
  qed
qed simp

lemma getHighestPriorityElectableIndex_Some:
  assumes "config_inv s" and "role_inv s"
  shows "\<exists>best. getHighestPriorityElectableIndex now lastOp s = Some best \<and>
    best_among now lastOp s {i. inRange s i} best \<and> (best = - 1 \<or> inRange s best)"
proof -
  have "int ` set [0..<length (members (tcConfig s))] = {i. inRange s i}"
    by (auto simp: inRange_def image_iff intro!: bexI [of _ "nat i" for i])
  then show ?thesis
    using highestPriorityFrom_best [OF assms, of now lastOp "{}" "- 1" "[0..<length (members (tcConfig s))]"]
    by (auto simp: getHighestPriorityElectableIndex_def best_among_def inRange_def split: if_splits)
qed

lemma checkShouldStandForElection_Some:
  assumes "config_inv s" and "role_inv s"
  shows "checkShouldStandForElection now lastOp s =
    Some (tcCurrentPrimaryIndex s = - 1 \<and> tcRole s = Follower \<and> i_am_electable now lastOp s \<and> tcElectionSleepUntil s \<le> now)"
proof -
  obtain r where r: "getMyUnelectableReason now lastOp s = Some r" "r = 0 \<longleftrightarrow> i_am_electable now lastOp s"
    using getMyUnelectableReason_Some [OF assms] by blast
  have "tcCurrentPrimaryIndex s = - 1 \<Longrightarrow> tcRole s \<noteq> Leader" using assms(2) by (auto simp: role_inv_def)
  then show ?thesis using r by (cases "tcRole s") (auto simp: checkShouldStandForElection_def)
qed

lemma currentPrimaryMember_Some:
  "primary_inv i s \<Longrightarrow> currentPrimaryMember s =
     Some (if tcCurrentPrimaryIndex s = - 1 then None else Some (members (tcConfig s) ! nat (tcCurrentPrimaryIndex s)))"
  by (auto simp: currentPrimaryMember_def primary_inv_def)

end
