(* ===== verification/TopologySteps.thy ===== *)
theory TopologySteps
  imports TopologyInvariant
begin

text \<open>
  The operations of a topology coordinator keep its invariant and do not abort: one lemma for each
  operation, under the condition that its caller guarantees.
\<close>

lemmas inv_defs = tc_inv_def config_inv_def role_inv_def primary_inv_def inRange_def

text \<open>The fields that the invariant does not read.\<close>

lemma tc_inv_frame [simp]:
  "tc_inv (s\<lparr>tcElectionId := eid\<rparr>) = tc_inv s" "tc_inv (s\<lparr>tcElectionTime := ts\<rparr>) = tc_inv s"
  "tc_inv (s\<lparr>tcTerm := t\<rparr>) = tc_inv s" "tc_inv (s\<lparr>tcSyncSource := h\<rparr>) = tc_inv s"
  "tc_inv (s\<lparr>tcSyncSourceBlacklist := m\<rparr>) = tc_inv s" "tc_inv (s\<lparr>tcHbmsg := msg\<rparr>) = tc_inv s"
  "tc_inv (s\<lparr>tcHbmsgTime := d\<rparr>) = tc_inv s" "tc_inv (s\<lparr>tcStepDownUntil := d\<rparr>) = tc_inv s"
  "tc_inv (s\<lparr>tcElectionSleepUntil := d\<rparr>) = tc_inv s" "tc_inv (s\<lparr>tcFollowerMode := f\<rparr>) = tc_inv s"
  "tc_inv (s\<lparr>tcVoteWhen := d\<rparr>) = tc_inv s" "tc_inv (s\<lparr>tcVoteWhoId := i\<rparr>) = tc_inv s"
  "tc_inv (s\<lparr>tcVoteWhoHost := h\<rparr>) = tc_inv s" "tc_inv (s\<lparr>tcLastVote := v\<rparr>) = tc_inv s"
  by (simp_all add: inv_defs)

lemma tc_inv_candidate:
  "tc_inv s \<Longrightarrow> tcRole s = Follower \<Longrightarrow> tcSelfIndex s \<noteq> - 1 \<Longrightarrow> tc_inv (s\<lparr>tcRole := Candidate\<rparr>)"
  by (auto simp: inv_defs)

lemma tc_inv_no_force: "tc_inv s \<Longrightarrow> tc_inv (s\<lparr>tcForceSyncSourceIndex := - 1\<rparr>)"
  by (simp add: inv_defs)

subsection \<open>Roles\<close>

lemma processWinElection_inv:
  assumes "config_inv s" and "tcRole s = Candidate" and "tcSelfIndex s \<noteq> - 1" and "tcMaintenanceModeCalls s \<ge> 0"
  shows "returns (processWinElection eid ts s) tc_inv"
  using assms by (auto simp: processWinElection_def inv_defs)

lemma processLoseElection_inv:
  assumes "tc_inv s" and "tcRole s = Candidate"
  shows "returns (processLoseElection s) tc_inv"
proof -
  let ?s = "s\<lparr>tcElectionTime := Timestamp 0 0, tcElectionId := 0, tcRole := Follower\<rparr>"
  have "tc_inv ?s" "tc_inv (?s\<lparr>tcVoteWhen := 0\<rparr>)" using assms by (auto simp: inv_defs)
  moreover have "\<exists>me. selfConfig ?s = Some me"
    using selfConfig_Some [OF tc_invD(1)] assms by (auto simp: selfConfig_def tc_inv_def role_inv_def)
  ultimately show ?thesis using assms(2) by (auto simp: processLoseElection_def Let_def)
qed

lemma becomeCandidateIfElectable_inv:
  assumes "tc_inv s"
  shows "returns (becomeCandidateIfElectable now lastOp s)
    (\<lambda>(b, s'). tc_inv s' \<and> (b \<longleftrightarrow> tcRole s = Follower \<and> i_am_electable now lastOp s) \<and> s' = (if b then s\<lparr>tcRole := Candidate\<rparr> else s))"
proof -
  obtain r where r: "getMyUnelectableReason now lastOp s = Some r" "r = 0 \<longleftrightarrow> i_am_electable now lastOp s"
    using getMyUnelectableReason_Some [OF tc_invD(1,2) [OF assms]] by blast
  have self: "i_am_electable now lastOp s \<Longrightarrow> tcSelfIndex s \<noteq> - 1" by (simp add: i_am_electable_def)
  show ?thesis
    using assms r self tc_inv_candidate [OF assms] by (cases "tcRole s") (auto simp: becomeCandidateIfElectable_def)
qed

lemma singleElectableNode_Some:
  "\<exists>b. singleElectableNode s = Some b \<and> (b \<longrightarrow> tcSelfIndex s = 0)"
  by (auto simp: singleElectableNode_def getNumMembers_def)

lemma stepDownSelfAndReplaceWith_inv:
  assumes "tc_inv s" and "tcRole s = Leader"
    and "newPrimary = - 1 \<or> inRange s newPrimary \<and> newPrimary \<noteq> tcSelfIndex s \<and> says_primary (tcHbdata s ! nat newPrimary)"
  shows "returns (stepDownSelfAndReplaceWith newPrimary s) tc_inv"
  using assms by (auto simp: stepDownSelfAndReplaceWith_def inv_defs)

lemma canStepDownFrom_Some:
  assumes "config_inv s" and "\<forall>i\<in>set is. inRange s (int i)"
  shows "\<exists>b. canStepDownFrom lastOp s is = Some b"
  using assms(2)
proof (induction "is")
  case (Cons i "is")
  have i: "inRange s (int i)" using Cons.prems by simp
  obtain b where b: "canStepDownFrom lastOp s is = Some b" using Cons by auto
  show ?case
  proof (cases "int i = tcSelfIndex s")
    case False
    obtain r where "getUnelectableReason (int i) lastOp s = Some r"
      using getUnelectableReason_Some [OF assms(1) i False] by blast
    then show ?thesis using False b hbdataAt_inRange [OF assms(1) i] by (cases "r = 0") auto
  qed (use b in simp)
qed auto

lemma upt_inRange: "\<forall>i\<in>set [0..<length (members (tcConfig s))]. inRange s (int i)"
  by (simp add: inRange_def)

lemma stepDown_inv:
  assumes "tc_inv s" and "tcRole s = Leader"
  shows "returns (stepDown until force lastOp s) (\<lambda>(b, s'). tc_inv s')"
proof -
  obtain b where b: "canStepDownFrom lastOp s [0..<length (members (tcConfig s))] = Some b"
    using canStepDownFrom_Some [OF tc_invD(1) [OF assms(1)] upt_inRange] by blast
  have "tc_inv (s\<lparr>tcStepDownUntil := until\<rparr>)" using assms(1) by (simp add: inv_defs)
  then have "returns (stepDownSelfAndReplaceWith (- 1) (s\<lparr>tcStepDownUntil := until\<rparr>)) tc_inv"
    using assms(2) by (intro stepDownSelfAndReplaceWith_inv) simp_all
  then show ?thesis using assms(1) b by (simp add: stepDown_def returns_bind)
qed

lemma remotePrimaries_iff:
  "config_inv s \<Longrightarrow> i \<in> set (remotePrimaries s) \<longleftrightarrow> inRange s i \<and> i \<noteq> tcSelfIndex s \<and> says_primary (tcHbdata s ! nat i)"
  by (auto simp: remotePrimaries_def image_iff indexed_iff config_inv_def inRange_def says_primary_def
      intro!: exI [of _ "nat i"])

lemma stepDownIfPending_inv:
  assumes "tc_inv s"
  shows "returns (stepDownIfPending s) (\<lambda>(b, s'). tc_inv s')"
proof (cases "tcStepDownPending s")
  case True
  have leader: "tcRole s = Leader" using True assms by (simp add: tc_inv_def role_inv_def)
  let ?i = "case remotePrimaries s of [i] \<Rightarrow> i | _ \<Rightarrow> - 1"
  have "?i = - 1 \<or> ?i \<in> set (remotePrimaries s)" by (auto split: list.splits)
  then have "returns (stepDownSelfAndReplaceWith ?i s) tc_inv"
    using assms leader remotePrimaries_iff [OF tc_invD(1) [OF assms]] by (intro stepDownSelfAndReplaceWith_inv) blast+
  then show ?thesis using True by (simp add: stepDownIfPending_def returns_bind)
qed (use assms in \<open>simp add: stepDownIfPending_def\<close>)

lemma setFollowerMode_inv:
  assumes "tc_inv s" and "tcRole s = Follower" and "mode \<in> {RS_RECOVERING, RS_ROLLBACK, RS_SECONDARY, RS_STARTUP2}"
  shows "returns (setFollowerMode mode s) tc_inv"
proof -
  let ?s = "s\<lparr>tcFollowerMode := mode\<rparr>"
  obtain b where b: "singleElectableNode ?s = Some b" "b \<longrightarrow> tcSelfIndex s = 0"
    using singleElectableNode_Some [of ?s] by auto
  have "tc_inv ?s" "b \<Longrightarrow> tc_inv (?s\<lparr>tcRole := Candidate\<rparr>)"
    using assms(1,2) b(2) tc_inv_candidate [of ?s] by simp_all
  then show ?thesis using assms(2,3) b(1) unfolding setFollowerMode_def
    by (cases "mode = RS_SECONDARY") (simp_all add: Let_def)
qed

subsection \<open>Reconfiguration\<close>

lemma oldHeartbeatData_Some: "config_inv s \<Longrightarrow> \<exists>d. oldHeartbeatData s m = Some d"
  using indexOrNone_inRange [of _ s] hbdataAt_inRange by (fastforce simp: oldHeartbeatData_def Let_def)

lemma updateHeartbeatData_Some:
  assumes "config_inv s"
  shows "\<exists>ds. updateHeartbeatData s self (enumerate k ms) = Some ds \<and> length ds = length ms \<and>
    (\<forall>i<length ms. int (k + i) = self \<longrightarrow> ds ! i = newHeartbeatData) \<and>
    (\<forall>i<length ms. int (k + i) \<noteq> self \<longrightarrow> oldHeartbeatData s (ms ! i) = Some (ds ! i))"
proof (induction ms arbitrary: k)
  case (Cons m ms)
  obtain d where d: "(if int k = self then Some newHeartbeatData else oldHeartbeatData s m) = Some d"
    using oldHeartbeatData_Some [OF assms, of m] by (cases "int k = self") auto
  obtain ds where ds: "updateHeartbeatData s self (enumerate (Suc k) ms) = Some ds" "length ds = length ms"
    "\<forall>i<length ms. int (Suc k + i) = self \<longrightarrow> ds ! i = newHeartbeatData"
    "\<forall>i<length ms. int (Suc k + i) \<noteq> self \<longrightarrow> oldHeartbeatData s (ms ! i) = Some (ds ! i)"
    using Cons.IH by blast
  have "updateHeartbeatData s self (enumerate k (m # ms)) = Some (d # ds)" using d ds(1) by simp
  moreover have "int (k + i) = self \<longrightarrow> (d # ds) ! i = newHeartbeatData" if "i < length (m # ms)" for i
    using that d ds(3) by (cases i) (auto split: if_splits)
  moreover have "int (k + i) \<noteq> self \<longrightarrow> oldHeartbeatData s ((m # ms) ! i) = Some ((d # ds) ! i)" if "i < length (m # ms)" for i
    using that d ds(4) by (cases i) (auto split: if_splits)
  ultimately show ?case using ds(2) by (intro exI [of _ "d # ds"]) simp
qed simp

text \<open>A configuration that can be installed.\<close>

definition installable :: "ReplicaSetConfig \<Rightarrow> int \<Rightarrow> TopologyCoordinator \<Rightarrow> bool" where
  "installable c self s \<longleftrightarrow> config_wf c \<and> isInitialized c \<and> (protocolVersion c = 0 \<or> protocolVersion c = 1) \<and>
     (\<forall>m\<in>set (members c). mcPriority m \<noteq> NaN) \<and> - 1 \<le> self \<and> self < getNumMembers c \<and>
     (configServer c \<and> tcConfigServerMode s = ModeCSRS \<longrightarrow> tcReadCommitted s \<noteq> kUnknown)"

text \<open>The state after the configuration and the heartbeat data have been replaced.\<close>

definition reconfigured :: "ReplicaSetConfig \<Rightarrow> int \<Rightarrow> MemberHeartbeatData list \<Rightarrow> Term \<Rightarrow> TopologyCoordinator \<Rightarrow> TopologyCoordinator" where
  "reconfigured c self ds t s = s\<lparr>tcTerm := t, tcHbdata := ds, tcStepDownPending := False, tcConfig := c, tcSelfIndex := self,
     tcForceSyncSourceIndex := - 1\<rparr>"

lemma reconfigured_inv:
  assumes "config_inv s" and "installable c self s" and "length ds = length (members c)"
    and "\<forall>i<length (members c). int i = self \<longrightarrow> ds ! i = newHeartbeatData"
  shows "config_inv (reconfigured c self ds t s)"
proof -
  have "\<not> up (ds ! nat self)" if "0 \<le> self" "self < int (length ds)"
    using that assms(3) assms(4) [rule_format, of "nat self"] by simp
  then show ?thesis using assms
    by (auto simp: config_inv_def inRange_def installable_def config_wf_def reconfigured_def getNumMembers_def)
qed

lemma updateConfig_run:
  assumes "config_inv s" and "installable c self s" and "tcRole s \<noteq> Candidate"
  obtains ds t where "length ds = length (members c)" and "config_inv (reconfigured c self ds t s)"
    and "\<forall>i<length (members c). int i \<noteq> self \<longrightarrow> oldHeartbeatData s (members c ! i) = Some (ds ! i)"
    and "updateConfig c self s = do {
       let s1 = reconfigured c self ds t s;
       stays \<leftarrow> (if tcRole s1 = Leader \<and> tcSelfIndex s1 \<noteq> - 1 then map_option isElectable (selfConfig s1) else Some False);
       if stays then Some (s1\<lparr>tcCurrentPrimaryIndex := tcSelfIndex s1\<rparr>)
       else do {
         let s2 = s1\<lparr>tcRole := Follower, tcCurrentPrimaryIndex := - 1\<rparr>;
         single \<leftarrow> (if tcFollowerMode s2 = RS_SECONDARY then singleElectableNode s2 else Some False);
         Some (if single then s2\<lparr>tcRole := Candidate\<rparr> else s2)
       }
     }"
proof -
  define t where "t = (if \<not> isInitialized (tcConfig s) \<or> protocolVersion (tcConfig s) \<noteq> protocolVersion c
    then if protocolVersion c = 1 then kInitialTerm else kUninitializedTerm else tcTerm s)"
  have r: "resetTerm c s = Some (s\<lparr>tcTerm := t\<rparr>)"
    using assms(2) by (auto simp: resetTerm_def installable_def t_def)
  have inv: "config_inv (s\<lparr>tcTerm := t\<rparr>)" using assms(1) by (simp add: config_inv_def inRange_def)
  obtain ds where ds: "updateHeartbeatData (s\<lparr>tcTerm := t\<rparr>) self (enumerate 0 (members c)) = Some ds"
    "length ds = length (members c)" "\<forall>i<length (members c). int i = self \<longrightarrow> ds ! i = newHeartbeatData"
    "\<forall>i<length (members c). int i \<noteq> self \<longrightarrow> oldHeartbeatData (s\<lparr>tcTerm := t\<rparr>) (members c ! i) = Some (ds ! i)"
    using updateHeartbeatData_Some [OF inv, of self 0 "members c"] by auto
  have "oldHeartbeatData (s\<lparr>tcTerm := t\<rparr>) m = oldHeartbeatData s m" for m
    by (simp add: oldHeartbeatData_def hbdataAt_def Let_def)
  then show ?thesis using that [OF ds(2) reconfigured_inv [OF assms(1,2) ds(2,3)], of t] ds assms r
    by (simp add: updateConfig_def updateHeartbeatDataForReconfig_def installable_def reconfigured_def)
qed

lemma updateConfig_inv:
  assumes "tc_inv s" and "installable c self s" and "tcRole s \<noteq> Candidate"
  shows "returns (updateConfig c self s) tc_inv"
proof -
  obtain ds t where run: "config_inv (reconfigured c self ds t s)"
    "updateConfig c self s = do {
       let s1 = reconfigured c self ds t s;
       stays \<leftarrow> (if tcRole s1 = Leader \<and> tcSelfIndex s1 \<noteq> - 1 then map_option isElectable (selfConfig s1) else Some False);
       if stays then Some (s1\<lparr>tcCurrentPrimaryIndex := tcSelfIndex s1\<rparr>)
       else do {
         let s2 = s1\<lparr>tcRole := Follower, tcCurrentPrimaryIndex := - 1\<rparr>;
         single \<leftarrow> (if tcFollowerMode s2 = RS_SECONDARY then singleElectableNode s2 else Some False);
         Some (if single then s2\<lparr>tcRole := Candidate\<rparr> else s2)
       }
     }"
    using updateConfig_run [OF tc_invD(1) [OF assms(1)] assms(2,3)] by metis
  define s1 where "s1 = reconfigured c self ds t s"
  define s2 where "s2 = s1\<lparr>tcRole := Follower, tcCurrentPrimaryIndex := - 1\<rparr>"
  have s1: "config_inv s1" "tcStepDownPending s1 = False" "tcForceSyncSourceIndex s1 = - 1" "tcMaintenanceModeCalls s1 \<ge> 0"
    "tcRole s1 = tcRole s"
    using run(1) assms(1) by (simp_all add: s1_def reconfigured_def tc_inv_def role_inv_def)
  obtain b where b: "singleElectableNode s2 = Some b" "b \<longrightarrow> tcSelfIndex s2 = 0" using singleElectableNode_Some by blast
  have stays: "tc_inv (s1\<lparr>tcCurrentPrimaryIndex := tcSelfIndex s1\<rparr>)" if "tcRole s1 = Leader" "tcSelfIndex s1 \<noteq> - 1"
    using s1 that by (auto simp: inv_defs)
  have leaves: "tc_inv s2" "b \<Longrightarrow> tc_inv (s2\<lparr>tcRole := Candidate\<rparr>)"
    using s1 b(2) by (auto simp: s2_def inv_defs)
  show ?thesis
    using run(2) selfConfig_Some [OF s1(1)] stays leaves b(1) unfolding s1_def [symmetric]
    by (auto simp: s2_def [symmetric] Let_def)
qed

end
