(* ===== verification/TopologyHeartbeat.thy ===== *)
theory TopologyHeartbeat
  imports TopologySteps
begin

text \<open>
  Heartbeats and replies: requests, responses and commands keep the invariant of a topology coordinator
  and do not abort. While the response of a member is processed, the current primary may be that member
  although it no longer says that it is primary; \<open>confirmPrimary\<close> restores the invariant, and then the
  scan of the members makes sure that nobody is believed to be primary when an election is considered.
\<close>

subsection \<open>Requests\<close>

lemma tc_inv_setPing: "tc_inv s \<Longrightarrow> ping_inv p \<Longrightarrow> tc_inv (setPing h p s)"
  using setPing_inv [of s p h] by (simp add: tc_inv_def role_inv_def primary_inv_def inRange_def setPing_def)

lemma startHeartbeat_awaits:
  assumes "config_inv s" and "now > 0" and "startHeartbeat now target s = (p, elapsed)"
  shows "ping_awaits p"
  using assms pingAt_inv [OF assms(1), of target]
  by (auto simp: startHeartbeat_def Let_def ping_inv_def ping_awaits_def ping_inv_steps(2) [unfolded ping_awaits_def]
      ping_start_def kMaxHeartbeatRetries_def INT_MAX_def split: if_splits)

lemma prepareHeartbeatRequest_inv:
  assumes "tc_inv s" and "now > 0"
  shows "returns (prepareHeartbeatRequest now name target s) (\<lambda>(r, s'). tc_inv s' \<and> ping_awaits (pingAt target s'))"
    and "returns (prepareHeartbeatRequestV1 now name target s) (\<lambda>(r, s'). tc_inv s' \<and> ping_awaits (pingAt target s'))"
proof -
  obtain p elapsed where start: "startHeartbeat now target s = (p, elapsed)" by (cases "startHeartbeat now target s")
  have p: "ping_awaits p" using startHeartbeat_awaits [OF tc_invD(1) [OF assms(1)] assms(2) start] .
  let ?s = "setPing target p s"
  have inv: "tc_inv ?s" using tc_inv_setPing [OF assms(1)] p ping_inv_steps(3) by blast
  have self: "tcSelfIndex ?s \<ge> 0 \<Longrightarrow> \<exists>me. selfConfig ?s = Some me"
    using selfConfig_Some [OF tc_invD(1) [OF inv]] by auto
  show "returns (prepareHeartbeatRequest now name target s) (\<lambda>(r, s'). tc_inv s' \<and> ping_awaits (pingAt target s'))"
    using start inv p self by (cases "tcSelfIndex ?s \<ge> 0") (auto simp: prepareHeartbeatRequest_def Let_def)
  show "returns (prepareHeartbeatRequestV1 now name target s) (\<lambda>(r, s'). tc_inv s' \<and> ping_awaits (pingAt target s'))"
    using start inv p self by (cases "tcSelfIndex ?s \<ge> 0") (auto simp: prepareHeartbeatRequestV1_def Let_def)
qed

subsection \<open>Responses\<close>

lemma confirmPrimary_inv:
  assumes "config_inv s" and "role_inv s" and "primary_inv i s" and "inRange s i" and "i \<noteq> tcSelfIndex s"
  shows "\<exists>s'. confirmPrimary i s = Some s' \<and> tc_inv s' \<and> (s' = s \<or> s' = s\<lparr>tcCurrentPrimaryIndex := - 1\<rparr>)"
proof (cases "tcCurrentPrimaryIndex s = i")
  case True
  let ?s = "s\<lparr>tcCurrentPrimaryIndex := - 1\<rparr>"
  have follower: "tcRole s \<noteq> Leader" using True assms(2,5) by (auto simp: role_inv_def)
  have "config_inv ?s" using assms(1) by (simp add: config_inv_def inRange_def)
  moreover have "role_inv ?s" using assms(2) follower by (auto simp: role_inv_def inRange_def)
  ultimately have "tc_inv ?s" by (simp add: tc_inv_def primary_inv_def)
  moreover have "tc_inv s" if "says_primary (tcHbdata s ! nat i)"
    using that True assms by (simp add: tc_inv_def primary_inv_def)
  ultimately show ?thesis using True hbdataAt_inRange [OF assms(1,4)]
    by (auto simp: confirmPrimary_def says_primary_def)
next
  case False
  then have "tc_inv s" using assms(1-3) by (auto simp: tc_inv_def primary_inv_def)
  then show ?thesis using False by (simp add: confirmPrimary_def)
qed

text \<open>The scan of protocol version 1 finds a remote primary of the latest term.\<close>

lemma latestTermPrimary_Some:
  assumes "config_inv s" and "\<forall>i\<in>set is. inRange s i" and "r0 = - 1 \<or> inRange s r0"
  shows "\<exists>r. latestTermPrimary s is r0 = Some r \<and> r \<in> insert r0 (set is) \<and> (r = - 1 \<longrightarrow> is = []) \<and>
    (\<forall>i\<in>insert r0 (set is). i \<noteq> - 1 \<longrightarrow> hbTerm (tcHbdata s ! nat i) \<le> hbTerm (tcHbdata s ! nat r))"
  using assms(2,3)
proof (induction "is" arbitrary: r0)
  case (Cons i "is")
  let ?t = "\<lambda>i. hbTerm (tcHbdata s ! nat i)"
  have i: "inRange s i" "i \<noteq> - 1" "\<forall>j\<in>set is. inRange s j" using Cons.prems by (auto simp: inRange_def)
  let ?r = "if r0 = - 1 \<or> ?t r0 < ?t i then i else r0"
  have step: "latestTermPrimary s (i # is) r0 = latestTermPrimary s is ?r"
    using Cons.prems(2) hbdataAt_inRange [OF assms(1) i(1)] hbdataAt_inRange [OF assms(1), of r0] by auto
  have r: "?r = - 1 \<or> inRange s ?r" "?r \<noteq> - 1" "?r \<in> {r0, i}" "r0 \<noteq> - 1 \<longrightarrow> ?t r0 \<le> ?t ?r" "?t i \<le> ?t ?r"
    using Cons.prems(2) i by auto
  obtain r' where "latestTermPrimary s is ?r = Some r'" "r' \<in> insert ?r (set is)"
    "\<forall>j\<in>insert ?r (set is). j \<noteq> - 1 \<longrightarrow> ?t j \<le> ?t r'"
    using Cons.IH [OF i(3) r(1)] by blast
  moreover from this have "?t ?r \<le> ?t r'" using r(2) by blast
  moreover have "r' \<noteq> - 1" using calculation(2) r(2) i(3) by (auto simp: inRange_def)
  ultimately show ?case using step r(3-5) by (intro exI [of _ r']) auto
qed simp

lemma stepDownWithoutMajority_inv:
  assumes "tc_inv s" and "tcRole s = Leader"
  shows "returns (stepDownWithoutMajority now lastOp s) (\<lambda>(a, s'). tc_inv s')"
proof -
  obtain r where "getMyUnelectableReason now lastOp s = Some r"
    using getMyUnelectableReason_Some [OF tc_invD(1,2) [OF assms(1)]] by blast
  moreover have "tc_inv (s\<lparr>tcStepDownPending := True\<rparr>)" using assms by (auto simp: tc_inv_def config_inv_def role_inv_def primary_inv_def inRange_def)
  ultimately show ?thesis using assms(1) by (simp add: stepDownWithoutMajority_def stepDownSelfOnce_def)
qed

lemma no_primary_left:
  assumes "tc_inv s" and "tcRole s \<noteq> Leader" and "remotePrimaries s = []"
  shows "tcCurrentPrimaryIndex s = - 1"
proof (rule ccontr)
  assume cur: "tcCurrentPrimaryIndex s \<noteq> - 1"
  then have range: "inRange s (tcCurrentPrimaryIndex s)" using assms(1) by (simp add: tc_inv_def primary_inv_def)
  have "tcCurrentPrimaryIndex s \<noteq> tcSelfIndex s" using assms(1,2) cur by (auto simp: tc_inv_def role_inv_def)
  then have "tcCurrentPrimaryIndex s \<in> set (remotePrimaries s)"
    using assms(1) cur range remotePrimaries_iff [of s] by (auto simp: tc_inv_def primary_inv_def)
  then show False using assms(3) by simp
qed

lemma considerElection_Some:
  assumes "tc_inv s" and "tcRole s \<noteq> Leader" and "remotePrimaries s = []"
  shows "\<exists>b. considerElection st now lastOp s = Some b \<and> (b \<longrightarrow> tcRole s = Follower \<and> i_am_electable now lastOp s)"
proof -
  obtain state where "getMemberState s = Some state" using getMemberState_Some tc_invD [OF assms(1)] by blast
  then show ?thesis
    using no_primary_left [OF assms] checkShouldStandForElection_Some [OF tc_invD(1,2) [OF assms(1)]]
    by (auto simp: considerElection_def)
qed

lemma remotePrimary_inv:
  assumes "tc_inv s" and "tcRole s \<noteq> Leader" and "i \<in> set (remotePrimaries s)" and "tcSelfIndex s \<noteq> - 1"
  shows "tc_inv (s\<lparr>tcCurrentPrimaryIndex := i\<rparr>)"
  using assms remotePrimaries_iff [OF tc_invD(1) [OF assms(1)]] by (auto simp: inv_defs)

lemma setMyHeartbeatMessage_frame [simp]:
  "tc_inv (setMyHeartbeatMessage now msg s) = tc_inv s" "tcRole (setMyHeartbeatMessage now msg s) = tcRole s"
  "tcSelfIndex (setMyHeartbeatMessage now msg s) = tcSelfIndex s" "tcConfig (setMyHeartbeatMessage now msg s) = tcConfig s"
  "tcHbdata (setMyHeartbeatMessage now msg s) = tcHbdata s" "remotePrimaries (setMyHeartbeatMessage now msg s) = remotePrimaries s"
  "inRange (setMyHeartbeatMessage now msg s) i = inRange s i"
  by (simp_all add: setMyHeartbeatMessage_def remotePrimaries_def indexed_def inRange_def)

lemma updatePrimaryFromHBDataV1_inv:
  assumes "config_inv s" and "role_inv s" and "primary_inv i s" and "inRange s i" and "i \<noteq> tcSelfIndex s"
  shows "returns (updatePrimaryFromHBDataV1 i st now lastOp s) (\<lambda>(a, s'). tc_inv s')"
proof (cases "tcSelfIndex s = - 1")
  case True
  then have "tc_inv s" using assms by (auto simp: tc_inv_def primary_inv_def role_inv_def)
  then show ?thesis using True assms(5) by (simp add: updatePrimaryFromHBDataV1_def)
next
  case False
  obtain s1 where s1: "confirmPrimary i s = Some s1" "tc_inv s1" "tcSelfIndex s1 = tcSelfIndex s"
    using confirmPrimary_inv [OF assms] by auto
  note inv = tc_invD [OF s1(2)]
  have leader: "tcCurrentPrimaryIndex s1 = tcSelfIndex s1 \<longleftrightarrow> tcRole s1 = Leader"
    using False s1(3) inv(2) by (auto simp: role_inv_def)
  have range: "\<forall>j\<in>set (remotePrimaries s1). inRange s1 j" using remotePrimaries_iff [OF inv(1)] by blast
  obtain r where r: "latestTermPrimary s1 (remotePrimaries s1) (- 1) = Some r"
    "r \<in> insert (- 1) (set (remotePrimaries s1))" "r = - 1 \<longrightarrow> remotePrimaries s1 = []"
    using latestTermPrimary_Some [OF inv(1) range, of "- 1"] by blast
  show ?thesis
  proof (cases "tcRole s1 = Leader")
    case True
    then show ?thesis
      using False assms(5) s1 leader iAmPrimary_Some [OF inv(2)] stepDownWithoutMajority_inv [OF s1(2) True]
      by (simp add: updatePrimaryFromHBDataV1_def)
  next
    case follower: False
    show ?thesis
    proof (cases "r = - 1")
      case True
      then obtain b where "considerElection st now lastOp s1 = Some b" using considerElection_Some [OF s1(2) follower] r(3) by blast
      then show ?thesis using True False assms(5) s1 r(1) leader follower iAmPrimary_Some [OF inv(2)]
        by (simp add: updatePrimaryFromHBDataV1_def)
    next
      case primary: False
      let ?s = "(setMyHeartbeatMessage now '''' s1)\<lparr>tcCurrentPrimaryIndex := r\<rparr>"
      have mem: "r \<in> set (remotePrimaries s1)" using primary r(2) by simp
      have "tc_inv ?s" using remotePrimary_inv [of "setMyHeartbeatMessage now '''' s1" r] s1 follower mem False by simp
      moreover have "inRange ?s r" using range mem by (simp add: inRange_def)
      moreover have "tcSelfIndex ?s \<noteq> - 1" using False s1(3) by simp
      ultimately have "hbdataAt ?s r = Some (tcHbdata ?s ! nat r)" "getMemberAt (tcConfig ?s) r = Some (members (tcConfig ?s) ! nat r)"
        "selfConfig ?s = Some (members (tcConfig ?s) ! nat (tcSelfIndex ?s))" "tc_inv ?s"
        using hbdataAt_inRange getMemberAt_inRange selfConfig_Some tc_invD(1) by blast+
      then show ?thesis using primary False assms(5) s1 r(1) leader follower
        by (simp add: updatePrimaryFromHBDataV1_def Let_def)
    qed
  qed
qed

subsection \<open>Protocol version 0\<close>

lemma tc_inv_pending: "tc_inv s \<Longrightarrow> tcRole s = Leader \<Longrightarrow> tc_inv (s\<lparr>tcStepDownPending := True\<rparr>)"
  by (auto simp: tc_inv_def config_inv_def role_inv_def primary_inv_def inRange_def)

lemma tc_inv_no_primary: "tc_inv s \<Longrightarrow> tcRole s \<noteq> Leader \<Longrightarrow> tc_inv (s\<lparr>tcCurrentPrimaryIndex := - 1\<rparr>)"
  by (auto simp: tc_inv_def config_inv_def role_inv_def primary_inv_def inRange_def)

lemma setElectionSleepUntil_frame [simp]:
  "tc_inv (setElectionSleepUntil d s) = tc_inv s" "tcSelfIndex (setElectionSleepUntil d s) = tcSelfIndex s"
  by (simp_all add: setElectionSleepUntil_def)

lemma checkPriorities_inv:
  assumes "tc_inv s" and "tcSelfIndex s \<noteq> - 1"
  shows "\<exists>a s'. checkPriorities now lastOp s = Some (a, s') \<and> tc_inv s' \<and> (a = None \<longrightarrow> s' = s)"
proof (cases "tcCurrentPrimaryIndex s = - 1")
  case True
  then show ?thesis using assms by (simp add: checkPriorities_def)
next
  case False
  note inv = tc_invD [OF assms(1)]
  obtain best where best: "getHighestPriorityElectableIndex now lastOp s = Some best" "best = - 1 \<or> inRange s best"
    using getHighestPriorityElectableIndex_Some [OF inv(1,2)] by blast
  have cur: "inRange s (tcCurrentPrimaryIndex s)" using False inv(3) [of 0] by (simp add: primary_inv_def)
  have moves: "tcRole s = Leader \<Longrightarrow> tc_inv (s\<lparr>tcStepDownPending := True\<rparr>)"
    "tcRole s \<noteq> Leader \<Longrightarrow> tc_inv (s\<lparr>tcCurrentPrimaryIndex := - 1\<rparr>)"
    using tc_inv_pending tc_inv_no_primary assms(1) by blast+
  show ?thesis
  proof (cases "best = - 1")
    case True
    then show ?thesis using False best(1) assms(1) by (simp add: checkPriorities_def)
  next
    case found: False
    then have range: "inRange s best" using best(2) by simp
    let ?optime = "if best = tcSelfIndex s then lastOp else hbOpTime (tcHbdata s ! nat best)"
    have "(if best = tcSelfIndex s then Some lastOp else map_option hbOpTime (hbdataAt s best)) = Some ?optime"
      using hbdataAt_inRange [OF inv(1) range] by simp
    then show ?thesis
      using False found best(1) assms(1) getMemberAt_inRange [OF cur] getMemberAt_inRange [OF range]
        iAmPrimary_Some [OF inv(2)] moves
      by (auto simp: checkPriorities_def)
  qed
qed

lemma updatePrimaryFromHBData_inv:
  assumes "config_inv s" and "role_inv s" and "primary_inv i s" and "inRange s i" and "i \<noteq> tcSelfIndex s"
  shows "returns (updatePrimaryFromHBData i st now lastOp s) (\<lambda>(a, s'). tc_inv s')"
proof (cases "tcSelfIndex s = - 1")
  case True
  then have "tc_inv s" using assms by (auto simp: tc_inv_def primary_inv_def role_inv_def)
  then show ?thesis using True assms(5) by (simp add: updatePrimaryFromHBData_def)
next
  case False
  obtain s1 where s1: "confirmPrimary i s = Some s1" "tc_inv s1" "tcSelfIndex s1 = tcSelfIndex s"
    using confirmPrimary_inv [OF assms] by auto
  note inv = tc_invD [OF s1(2)]
  have self: "tcSelfIndex s1 \<noteq> - 1" using False s1(3) by simp
  obtain a s2 where chk: "checkPriorities now lastOp s1 = Some (a, s2)" "tc_inv s2" "a = None \<longrightarrow> s2 = s1"
    using checkPriorities_inv [OF s1(2) self] by blast
  note run = updatePrimaryFromHBData_def s1(1) chk(1)
  show ?thesis
  proof (cases a)
    case (Some act)
    then show ?thesis using run False assms(5) chk(2) by simp
  next
    case None
    then have s2: "s2 = s1" using chk(3) by simp
    consider "remotePrimaries s1 = []" | r where "remotePrimaries s1 = [r]" | r r' rs where "remotePrimaries s1 = r # r' # rs"
      by (metis list.exhaust)
    then show ?thesis
    proof cases
      case 1
      show ?thesis
      proof (cases "tcRole s1 = Leader")
        case True
        then show ?thesis using run None s2 1 False assms(5) iAmPrimary_Some [OF inv(2)] stepDownWithoutMajority_inv [OF s1(2) True]
          by simp
      next
        case follower: False
        obtain b where b: "considerElection st now lastOp s1 = Some b" "b \<longrightarrow> tcRole s1 = Follower \<and> i_am_electable now lastOp s1"
          using considerElection_Some [OF s1(2) follower 1] by blast
        obtain e s3 where "becomeCandidateIfElectable now lastOp s1 = Some (e, s3)" "tc_inv s3"
          "e \<longleftrightarrow> tcRole s1 = Follower \<and> i_am_electable now lastOp s1"
          using becomeCandidateIfElectable_inv [OF s1(2), of now lastOp] by (auto elim!: returnsE)
        then show ?thesis using run None s2 1 False assms(5) iAmPrimary_Some [OF inv(2)] follower b s1(2)
          by (cases b) simp_all
      qed
    next
      case (2 r)
      then have mem: "r \<in> set (remotePrimaries s1)" by simp
      let ?s = "setMyHeartbeatMessage now '''' s1"
      have s: "tc_inv ?s" "inRange ?s r" using s1(2) mem remotePrimaries_iff [OF inv(1)] by simp_all
      have leader: "tcRole s1 = Leader \<Longrightarrow> tc_inv (?s\<lparr>tcStepDownPending := True\<rparr>)"
        using tc_inv_pending [OF s(1)] by simp
      have follower: "tcRole s1 \<noteq> Leader \<Longrightarrow> tc_inv (?s\<lparr>tcCurrentPrimaryIndex := r\<rparr>)"
        using remotePrimary_inv [OF s(1)] mem self by simp
      show ?thesis
        using run None s2 2 False assms(5) s1(2) s iAmPrimary_Some [OF tc_invD(2) [OF s(1)]] hbdataAt_inRange [OF tc_invD(1) [OF s(1)] s(2)]
          leader follower
        by (auto simp: Let_def stepDownSelfOnce_def)
    next
      case (3 r r' rs)
      then show ?thesis using run None s2 False assms(5) s1(2) by simp
    qed
  qed
qed

subsection \<open>Processing a response\<close>

lemma updateMemberData_inv:
  assumes "tc_inv s" and "inRange s i" and "i \<noteq> tcSelfIndex s"
  shows "\<exists>s'. updateMemberData now rsp p i s = Some s' \<and> config_inv s' \<and> role_inv s' \<and> primary_inv i s' \<and> inRange s' i \<and>
    tcSelfIndex s' = tcSelfIndex s \<and> tcConfig s' = tcConfig s"
proof -
  have d: "hbdataAt s i = Some (tcHbdata s ! nat i)" using hbdataAt_inRange [OF tc_invD(1) [OF assms(1)] assms(2)] .
  have "config_inv (s\<lparr>tcHbdata := (tcHbdata s)[nat i := d]\<rparr>)" for d
    using tc_invD(1) [OF assms(1)] assms(2,3) by (auto simp: config_inv_def inRange_def nth_list_update)
  moreover have "role_inv (s\<lparr>tcHbdata := (tcHbdata s)[nat i := d]\<rparr>)" for d
    using tc_invD(2) [OF assms(1)] by (simp add: role_inv_def inRange_def)
  moreover have "primary_inv i (s\<lparr>tcHbdata := (tcHbdata s)[nat i := d]\<rparr>)" for d
  proof -
    have "(tcHbdata s)[nat i := d] ! nat j = tcHbdata s ! nat j" if "j \<noteq> i" "0 \<le> j" for j
      using that assms(2) by (auto simp: inRange_def)
    then show ?thesis using tc_invD(3) [OF assms(1), of i]
      by (cases "tcCurrentPrimaryIndex s = i") (auto simp: primary_inv_def inRange_def)
  qed
  ultimately show ?thesis using d assms(2) by (simp add: updateMemberData_def Let_def inRange_def)
qed

lemma updatePingStats_inv:
  assumes "ping_awaits p"
  shows "\<exists>p'. updatePingStats rtt rsp p = Some p' \<and> ping_inv p'"
proof (cases rsp)
  case (Inl e)
  then show ?thesis using ping_inv_steps(4) [of rtt p] ping_inv_steps(6) [OF assms] by (auto simp: updatePingStats_def)
next
  case (Inr r)
  then show ?thesis using ping_inv_steps(4) [of rtt p] by (simp add: updatePingStats_def)
qed

lemma currentHeartbeatInterval_Some:
  assumes "config_inv s" and "role_inv s"
  shows "\<exists>t. currentHeartbeatInterval s = Some t"
proof -
  obtain state where "getMemberState s = Some state" using getMemberState_Some [OF assms] by blast
  then show ?thesis using iAmPrimary_Some [OF assms(2)] by (simp add: currentHeartbeatInterval_def)
qed

lemma processHeartbeatResponse_inv:
  assumes "tc_inv s" and "ping_awaits (pingAt target s)"
    and "findMemberIndexByHostAndPort (tcConfig s) target = - 1 \<or> findMemberIndexByHostAndPort (tcConfig s) target \<noteq> tcSelfIndex s"
  shows "returns (processHeartbeatResponse now rtt target rsp lastOp s) (\<lambda>(a, s'). tc_inv s')"
proof -
  obtain state where state: "getMemberState s = Some state" using getMemberState_Some tc_invD(1,2) [OF assms(1)] by blast
  obtain p where p: "updatePingStats rtt rsp (pingAt target s) = Some p" "ping_inv p" using updatePingStats_inv [OF assms(2)] by blast
  define s1 where "s1 = setPing target p s"
  have s1: "tc_inv s1" "tcSelfIndex s1 = tcSelfIndex s" "tcConfig s1 = tcConfig s"
    using tc_inv_setPing [OF assms(1) p(2)] by (simp_all add: s1_def setPing_def)
  obtain t where t: "currentHeartbeatInterval s1 = Some t" using currentHeartbeatInterval_Some tc_invD(1,2) [OF s1(1)] by blast
  have start: "lastHeartbeatStartDate (pingAt target s) \<noteq> 0" using assms(2) by (simp add: ping_awaits_def)
  let ?i = "findMemberIndexByHostAndPort (tcConfig s) target"
  note run = processHeartbeatResponse_def state start p(1) s1_def [symmetric] t
  show ?thesis
  proof (cases "hasNewerConfig rsp s1 \<or> \<not> isInitialized (tcConfig s1) \<or> ?i = - 1")
    case True
    then show ?thesis using run s1 by (auto simp: Let_def)
  next
    case False
    then have i: "?i \<noteq> - 1" "?i \<noteq> tcSelfIndex s1" "inRange s1 ?i"
      using assms(3) s1 find_inRange(1) [of s1 target] by auto
    obtain s2 where s2: "updateMemberData now rsp p ?i s1 = Some s2" "config_inv s2" "role_inv s2" "primary_inv ?i s2" "inRange s2 ?i"
      "tcSelfIndex s2 = tcSelfIndex s1"
      using updateMemberData_inv [OF s1(1) i(3,2)] by blast
    then have other: "?i \<noteq> tcSelfIndex s2" using i(2) by simp
    have v0: "returns (updatePrimaryFromHBData ?i state now lastOp s2) (\<lambda>(a, s'). tc_inv s')"
      and v1: "returns (updatePrimaryFromHBDataV1 ?i state now lastOp s2) (\<lambda>(a, s'). tc_inv s')"
      using updatePrimaryFromHBData_inv [OF s2(2-5) other] updatePrimaryFromHBDataV1_inv [OF s2(2-5) other] by simp_all
    show ?thesis using run False i s1(3) s2(1) v0 v1 by (auto simp: Let_def returns_bind elim!: returnsE)
  qed
qed

lemma setMemberAsDown_inv:
  assumes "tc_inv s" and "tcRole s = Leader" and "inRange s i" and "i \<noteq> tcSelfIndex s"
  shows "returns (setMemberAsDown now i lastOp s) (\<lambda>(a, s'). tc_inv s')"
proof -
  let ?s = "s\<lparr>tcHbdata := (tcHbdata s)[nat i := setDownValues now ''no response within election timeout period'' (tcHbdata s ! nat i)]\<rparr>"
  have "tc_inv ?s" using assms by (auto simp: tc_inv_def config_inv_def role_inv_def primary_inv_def inRange_def nth_list_update)
  then show ?thesis
    using assms hbdataAt_inRange [OF tc_invD(1) [OF assms(1)] assms(3)] stepDownWithoutMajority_inv [of ?s]
    by (simp add: setMemberAsDown_def tc_inv_def role_inv_def inRange_def)
qed

subsection \<open>Replies\<close>

lemma noteHeartbeatFrom_inv:
  assumes "tc_inv s" and "inRange s i" and "i \<noteq> tcSelfIndex s"
  shows "returns (noteHeartbeatFrom now i s) (\<lambda>(b, s'). tc_inv s')"
proof -
  let ?ds = "(tcHbdata s)[nat i := (tcHbdata s ! nat i)\<lparr>lastHeartbeatRecv := now\<rparr>]"
  have "nat i < length (tcHbdata s)" using assms(1,2) by (auto simp: tc_inv_def config_inv_def inRange_def)
  then have "up (?ds ! j) = up (tcHbdata s ! j)" "says_primary (?ds ! j) = says_primary (tcHbdata s ! j)" for j
    by (auto simp: nth_list_update says_primary_def)
  then have "tc_inv (s\<lparr>tcHbdata := ?ds\<rparr>)"
    using assms(1) by (simp add: tc_inv_def config_inv_def role_inv_def primary_inv_def inRange_def)
  then show ?thesis using assms hbdataAt_inRange [OF tc_invD(1) [OF assms(1)] assms(2)] by (simp add: noteHeartbeatFrom_def)
qed

lemma heartbeatError_Some:
  assumes "config_inv s"
  shows "\<exists>e. heartbeatError state args s = Some e \<and>
    (e = StatusOK \<longrightarrow> resolveSender args s = - 1 \<or> inRange s (resolveSender args s) \<and> resolveSender args s \<noteq> tcSelfIndex s)"
proof -
  have found: "mcId (members (tcConfig s) ! nat (getMemberIndex (haSenderId args) s)) = haSenderId args"
    if "getMemberIndex (haSenderId args) s \<noteq> - 1"
    using that unfolding getMemberIndex_def by (cases rule: indexOrNone_cases [of "\<lambda>m. mcId m = haSenderId args"]) auto
  show ?thesis
    using selfConfig_Some [OF assms] find_inRange(2) [of "haSenderId args" s] found
    by (auto simp: heartbeatError_def resolveSender_def inRange_def)
qed

lemma prepareHeartbeatResponse_inv:
  assumes "tc_inv s" and "tcSelfIndex s \<noteq> - 1 \<longrightarrow> replSetName (tcConfig s) = name"
  shows "returns (prepareHeartbeatResponse now args name lastOp rsp s) (\<lambda>(r, s'). tc_inv s')"
proof -
  obtain state where state: "getMemberState s = Some state" using getMemberState_Some tc_invD(1,2) [OF assms(1)] by blast
  obtain e where e: "heartbeatError state args s = Some e"
    "e = StatusOK \<longrightarrow> resolveSender args s = - 1 \<or> inRange s (resolveSender args s) \<and> resolveSender args s \<noteq> tcSelfIndex s"
    using heartbeatError_Some [OF tc_invD(1) [OF assms(1)]] by blast
  obtain r where r: "getMyUnelectableReason now lastOp s = Some r"
    using getMyUnelectableReason_Some tc_invD(1,2) [OF assms(1)] by blast
  show ?thesis
  proof (cases "e = StatusOK \<and> resolveSender args s \<noteq> - 1")
    case True
    then have "returns (noteHeartbeatFrom now (resolveSender args s) s) (\<lambda>(b, s'). tc_inv s')"
      using e(2) assms(1) by (intro noteHeartbeatFrom_inv) auto
    then obtain b s' where "noteHeartbeatFrom now (resolveSender args s) s = Some (b, s')" "tc_inv s'"
      by (auto elim!: returnsE)
    then show ?thesis using True state e(1) r assms by (simp add: prepareHeartbeatResponse_def Let_def)
  next
    case False
    then show ?thesis using state e(1) r assms by (auto simp: prepareHeartbeatResponse_def Let_def)
  qed
qed

lemma prepareHeartbeatResponseV1_inv:
  assumes "tc_inv s"
  shows "returns (prepareHeartbeatResponseV1 now args name lastOp rsp s) (\<lambda>(r, s'). tc_inv s')"
proof -
  obtain state where state: "getMemberState s = Some state" using getMemberState_Some tc_invD(1,2) [OF assms(1)] by blast
  obtain e where e: "heartbeatError state args s = Some e"
    "e = StatusOK \<longrightarrow> resolveSender args s = - 1 \<or> inRange s (resolveSender args s) \<and> resolveSender args s \<noteq> tcSelfIndex s"
    using heartbeatError_Some [OF tc_invD(1) [OF assms(1)]] by blast
  obtain m where m: "currentPrimaryMember s = Some m" using currentPrimaryMember_Some [OF tc_invD(3) [OF assms]] by blast
  show ?thesis
  proof (cases "e = StatusOK \<and> resolveSender args s \<noteq> - 1")
    case True
    then have "returns (noteHeartbeatFrom now (resolveSender args s) s) (\<lambda>(b, s'). tc_inv s')"
      using e(2) assms by (intro noteHeartbeatFrom_inv) auto
    then obtain b s' where "noteHeartbeatFrom now (resolveSender args s) s = Some (b, s')" "tc_inv s'"
      by (auto elim!: returnsE)
    then show ?thesis using True state e(1) m assms by (simp add: prepareHeartbeatResponseV1_def Let_def)
  next
    case False
    then show ?thesis using state e(1) m assms by (auto simp: prepareHeartbeatResponseV1_def Let_def)
  qed
qed

lemma getUnelectableReasonString_Some:
  assumes "ur AND 0x3FF \<noteq> 0"
  shows "\<exists>msg. getUnelectableReasonString isoDate ur s = Some msg"
proof -
  have written: "fst (joinTexts ur texts (w, ss)) \<longleftrightarrow> w \<or> (\<exists>(flag, msg)\<in>set texts. ur AND flag \<noteq> 0)" for texts w ss
    by (induction ur texts "(w, ss)" arbitrary: w ss rule: joinTexts.induct) auto
  have mask: "(0x3FF :: 32 word) = 0x40 OR 0x100 OR 0x1 OR 0x4 OR 0x10 OR 0x20 OR 0x8 OR 0x2 OR 0x80 OR 0x200" by code_simp
  have "\<exists>(flag, msg)\<in>set (reasonTexts isoDate s). ur AND flag \<noteq> 0"
    using assms unfolding mask bit.conj_disj_distrib or_eq_0_iff by (auto simp: reasonTexts_def reason_defs)
  then have "fst (joinTexts ur (reasonTexts isoDate s) (False, ''''))" by (simp add: written)
  moreover have "ur \<noteq> 0" using assms by auto
  ultimately show ?thesis by (auto simp: getUnelectableReasonString_def split: prod.splits)
qed

lemma getUnelectableReason_mask:
  "getUnelectableReason i lastOp s = Some r \<Longrightarrow> r AND NOT RefusesToStand = (r AND NOT RefusesToStand) AND 0x3FF"
proof -
  have "addReason b reason r AND 0x3FF = addReason b reason r" if "reason AND 0x3FF = reason" "r AND 0x3FF = r" for b reason r
    using that by simp
  then have "r AND 0x3FF = r" if "getUnelectableReason i lastOp s = Some r"
    using that by (auto simp: getUnelectableReason_def run_simps Let_def reason_defs simp del: addReason_and)
  then show "getUnelectableReason i lastOp s = Some r \<Longrightarrow> ?thesis" by (metis and.assoc and.commute)
qed

end
