(* ===== verification/TopologySystem.thy ===== *)
theory TopologySystem
  imports TopologyHeartbeat
begin

text \<open>
  The topology coordinator as a state machine. The events are the calls that the replication coordinator,
  \<^verbatim>\<open>src/src/mongo/db/repl/replication_coordinator_impl.cpp\<close>, makes on it from its single executor thread,
  each under the condition that its caller guarantees. The theorem \<open>topology_never_aborts\<close> says that no
  \<open>invariant\<close>, no \<open>fassert\<close> and no access out of range fails along any sequence of events.

  \<open>replSetDeclareElectionWinner\<close> is not among the events: it installs a primary that the heartbeat data need
  not confirm, and \<open>declare_winner_then_abort\<close> shows a heartbeat response that then fails an \<open>fassert\<close>.
\<close>

subsection \<open>Calls that combine several operations\<close>

text \<open>\<open>_performPostMemberStateUpdateAction (kActionWinElection)\<close>; the timestamp is the next global one.\<close>

definition performWinElection :: "Timestamp \<Rightarrow> TopologyCoordinator \<Rightarrow> TopologyCoordinator option" where
  "performWinElection ts s = processWinElection (tcTerm s) ts s"

definition handleTimePassing :: "Date_t \<Rightarrow> Timestamp \<Rightarrow> TopologyCoordinator \<Rightarrow> TopologyCoordinator option" where
  "handleTimePassing now ts s = do {
     (candidate, s) \<leftarrow> becomeCandidateIfStepdownPeriodOverAndSingleNodeSet now s;
     if candidate then performWinElection ts s else Some s
   }"

definition processReplSetFreeze_finish ::
  "bool \<Rightarrow> Date_t \<Rightarrow> int \<Rightarrow> Timestamp \<Rightarrow> TopologyCoordinator \<Rightarrow> (Status \<times> TopologyCoordinator) option" where
  "processReplSetFreeze_finish canceled now secs ts s =
     (if canceled then Some (StatusError ShutdownInProgress, s)
      else do {
        (reply, s) \<leftarrow> prepareFreezeResponse now secs s;
        s \<leftarrow> (if tcRole s = Candidate then performWinElection ts s else Some s);
        Some (StatusOK, s)
      })"

text \<open>
  In the following calls \<open>isPrimary\<close> says that the member state cached by the replication coordinator is PRIMARY,
  and \<open>canceled\<close> that the executor shuts down.
\<close>

definition updateTerm_incallback :: "Term \<Rightarrow> Date_t \<Rightarrow> bool \<Rightarrow> TopologyCoordinator \<Rightarrow> bool \<times> TopologyCoordinator" where
  "updateTerm_incallback newTerm now isPrimary s =
     (if protocolVersion (tcConfig s) \<noteq> 1 then (False, s)
      else let (updated, s) = updateTerm newTerm now s
           in (updated, if updated \<and> isPrimary then prepareForStepDown s else s))"

definition setMaintenanceMode_helper ::
  "bool \<Rightarrow> bool \<Rightarrow> bool \<Rightarrow> TopologyCoordinator \<Rightarrow> (Status \<times> TopologyCoordinator) option" where
  "setMaintenanceMode_helper canceled activate isPrimary s =
     (if canceled then Some (StatusError ShutdownInProgress, s)
      else if tcRole s = Candidate then Some (StatusError NotSecondary, s)
      else if isPrimary then Some (StatusError NotSecondary, s)
      else if activate then do {
        s \<leftarrow> adjustMaintenanceCountBy 1 s;
        Some (StatusOK, s)
      }
      else if tcMaintenanceModeCalls s > 0 then do {
        invariant (tcRole s = Follower);
        s \<leftarrow> adjustMaintenanceCountBy (- 1) s;
        Some (StatusOK, s)
      }
      else Some (StatusError OperationFailed, s))"

text \<open>The callback runs again after the election when an election is running, and is then a later event.\<close>

definition setFollowerModeFinish :: "bool \<Rightarrow> MemberState \<Rightarrow> TopologyCoordinator \<Rightarrow> (bool option \<times> TopologyCoordinator) option" where
  "setFollowerModeFinish canceled newState s =
     (if canceled then Some (None, s)
      else do {
        state \<leftarrow> getMemberState s;
        if newState = state then Some (Some True, s)
        else if tcRole s = Leader then Some (Some False, s)
        else if tcRole s = Candidate then Some (None, s)
        else do {
          s \<leftarrow> setFollowerMode newState s;
          Some (Some True, s)
        }
      })"

text \<open>
  The answers of the operation context and of the executor (\<open>interrupted\<close>, \<open>resched\<close>) are arguments. The result is
  \<open>None\<close> as long as the callback is scheduled again.
\<close>

definition stepDownContinue ::
  "Status \<Rightarrow> Status \<Rightarrow> Status \<Rightarrow> Date_t \<Rightarrow> Date_t \<Rightarrow> Date_t \<Rightarrow> bool \<Rightarrow> OpTime \<Rightarrow> TopologyCoordinator \<Rightarrow>
     (Status option \<times> TopologyCoordinator) option" where
  "stepDownContinue cbStatus interrupted resched now waitUntil stepDownUntil force lastOp s =
     (if cbStatus = StatusError CallbackCanceled then Some (Some (StatusError ShutdownInProgress), s)
      else if cbStatus \<noteq> StatusOK then Some (Some cbStatus, s)
      else if interrupted \<noteq> StatusOK then Some (Some interrupted, s)
      else if tcRole s \<noteq> Leader then Some (Some (StatusError NotMaster), s)
      else if now \<ge> stepDownUntil then Some (Some (StatusError ExceededTimeLimit), s)
      else do {
        (done, s) \<leftarrow> stepDown stepDownUntil (if now \<ge> waitUntil then force else False) lastOp s;
        if done then Some (Some StatusOK, s)
        else if now \<ge> waitUntil then Some (Some (StatusError ExceededTimeLimit), s)
        else if resched \<noteq> StatusOK then Some (Some resched, s)
        else Some (None, s)
      })"

subsection \<open>Replies\<close>

lemma getMemberIndex_found: "getMemberIndex i s \<noteq> - 1 \<Longrightarrow> mcId (members (tcConfig s) ! nat (getMemberIndex i s)) = i"
  unfolding getMemberIndex_def by (cases rule: indexOrNone_cases [of "\<lambda>m. mcId m = i" "members (tcConfig s)"]) auto

lemma shouldVetoMember_Some:
  assumes "tc_inv s" and "tcSelfIndex s \<noteq> - 1" and "faId args \<noteq> word_of_int (mcId (members (tcConfig s) ! nat (tcSelfIndex s)))"
  shows "\<exists>v. shouldVetoMember isoDate args now lastOp s = Some v"
proof -
  note inv = tc_invD [OF assms(1)]
  let ?h = "getMemberIndex (sint (faId args)) s"
  have self: "?h \<noteq> tcSelfIndex s"
  proof
    assume "?h = tcSelfIndex s"
    then have "mcId (members (tcConfig s) ! nat (tcSelfIndex s)) = sint (faId args)"
      using getMemberIndex_found [of "sint (faId args)" s] assms(2) by simp
    then show False using assms(3) by simp
  qed
  obtain best where best: "getHighestPriorityElectableIndex now lastOp s = Some best" "best = - 1 \<or> inRange s best"
    using getHighestPriorityElectableIndex_Some [OF inv(1,2)] by blast
  show ?thesis
  proof (cases "?h = - 1")
    case True
    then show ?thesis using best(1) self by (simp add: shouldVetoMember_def)
  next
    case False
    then have h: "inRange s ?h" by (rule find_inRange(2))
    obtain r where r: "getUnelectableReason ?h lastOp s = Some r" using getUnelectableReason_Some [OF inv(1) h self] by blast
    have reason: "\<exists>msg. getUnelectableReasonString isoDate (r AND NOT RefusesToStand) s = Some msg" if "r AND NOT RefusesToStand \<noteq> 0"
      using that getUnelectableReason_mask [OF r] by (intro getUnelectableReasonString_Some) simp
    have cur: "tcCurrentPrimaryIndex s \<noteq> - 1 \<Longrightarrow> inRange s (tcCurrentPrimaryIndex s)" using inv(3) [of 0] by (simp add: primary_inv_def)
    show ?thesis
      using False best self r reason hbdataAt_inRange [OF inv(1) h] hbdataAt_inRange [OF inv(1) cur] getMemberAt_inRange [OF h]
        getMemberAt_inRange [of s best] iAmPrimary_Some [OF inv(2)]
      by (auto simp: shouldVetoMember_def Let_def)
  qed
qed

lemma prepareFreshResponse_Some:
  assumes "tc_inv s"
  shows "\<exists>r. prepareFreshResponse isoDate args now lastOp s = Some r"
proof (cases "tcSelfIndex s = - 1")
  case False
  have me: "selfConfig s = Some (members (tcConfig s) ! nat (tcSelfIndex s))" using selfConfig_Some tc_invD(1) [OF assms] False .
  show ?thesis
  proof (cases "faId args = word_of_int (mcId (members (tcConfig s) ! nat (tcSelfIndex s)))")
    case True
    then show ?thesis using me by (simp add: prepareFreshResponse_def)
  next
    case other: False
    obtain v where "shouldVetoMember isoDate args now lastOp s = Some v" using shouldVetoMember_Some [OF assms False other] by blast
    then show ?thesis using me other by (simp add: prepareFreshResponse_def Let_def)
  qed
qed (simp add: prepareFreshResponse_def)

lemma prepareElectResponse_inv:
  assumes "tc_inv s"
  shows "returns (prepareElectResponse args now lastOp s) (\<lambda>(r, s'). tc_inv s' \<and>
    (s' = s \<and> (\<forall>vote rnd. r = Inr (vote, rnd) \<longrightarrow> vote \<le> 0) \<or>
     tcVoteWhoId s' = eaWhoid args \<and> tcVoteWhen s' = now \<and> (tcVoteWhen s + leaseTime < now \<or> tcVoteWhoId s = eaWhoid args)))"
proof (cases "tcSelfIndex s = - 1")
  case False
  note inv = tc_invD [OF assms]
  obtain best where best: "getHighestPriorityElectableIndex now lastOp s = Some best" "best = - 1 \<or> inRange s best"
    using getHighestPriorityElectableIndex_Some [OF inv(1,2)] by blast
  obtain m where m: "currentPrimaryMember s = Some m" using currentPrimaryMember_Some [OF inv(3)] by blast
  obtain b where b: "(if best = - 1 then Some None else map_option Some (getMemberAt (tcConfig s) best)) = Some b"
    using best(2) getMemberAt_inRange [of s best] by (cases "best = - 1") auto
  have whoid: "findMemberByID (tcConfig s) i = Some h \<Longrightarrow> mcId h = i" for i h
    by (auto simp: findMemberByID_def find_Some_iff)
  note run = prepareElectResponse_def False best(1) m b selfConfig_Some [OF inv(1) False] iAmPrimary_Some [OF inv(2)]
  show ?thesis
  proof (cases "findMemberByID (tcConfig s) (eaWhoid args)")
    case None
    then show ?thesis using assms by (simp add: run Let_def)
  next
    case (Some h)
    then show ?thesis using assms whoid [OF Some] by (simp add: run Let_def linorder_not_le)
  qed
qed (use assms in \<open>simp add: prepareElectResponse_def\<close>)

lemma prepareSyncFromResponse_inv:
  assumes "tc_inv s"
  shows "returns (prepareSyncFromResponse canceled target lastOp s) (\<lambda>(r, s'). tc_inv s')"
proof (cases "tcSelfIndex s = - 1 \<or> findMemberIndexByHostAndPort (tcConfig s) target = - 1")
  case True
  then show ?thesis using assms selfConfig_Some [OF tc_invD(1) [OF assms]]
    by (cases "tcSelfIndex s = - 1") (auto simp: prepareSyncFromResponse_def Let_def)
next
  case False
  let ?i = "findMemberIndexByHostAndPort (tcConfig s) target"
  have i: "inRange s ?i" using False find_inRange(1) by blast
  have "tc_inv (s\<lparr>tcForceSyncSourceIndex := ?i\<rparr>)" using assms i by (simp add: tc_inv_def config_inv_def role_inv_def primary_inv_def inRange_def)
  moreover have "tcForceSyncSourceIndex s < getNumMembers (tcConfig s)"
    using assms i by (auto simp: tc_inv_def role_inv_def inRange_def getNumMembers_def)
  ultimately show ?thesis
    using False assms selfConfig_Some [OF tc_invD(1) [OF assms]] hbdataAt_inRange [OF tc_invD(1) [OF assms] i] getMemberAt_inRange [OF i]
    by (auto simp: prepareSyncFromResponse_def Let_def setForceSyncSourceIndex_def)
qed

subsection \<open>Winning without votes\<close>

lemma performWinElection_inv:
  assumes "tc_inv s" and "tcSelfIndex s \<noteq> - 1"
  shows "returns (performWinElection ts (s\<lparr>tcRole := Candidate\<rparr>)) tc_inv"
  unfolding performWinElection_def using assms
  by (intro processWinElection_inv) (simp_all add: tc_inv_def config_inv_def role_inv_def inRange_def)

lemma handleTimePassing_inv:
  assumes "tc_inv s"
  shows "returns (handleTimePassing now ts s) tc_inv"
proof -
  obtain b where "singleElectableNode s = Some b" "b \<longrightarrow> tcSelfIndex s = 0" using singleElectableNode_Some by blast
  then show ?thesis using assms performWinElection_inv [OF assms, of ts]
    by (auto simp: handleTimePassing_def becomeCandidateIfStepdownPeriodOverAndSingleNodeSet_def)
qed

lemma freeze_finish_inv:
  assumes "tc_inv s"
  shows "returns (processReplSetFreeze_finish canceled now secs ts s) (\<lambda>(r, s'). tc_inv s')"
proof -
  have win: "returns (performWinElection ts s') tc_inv" if "tc_inv s'" "tcRole s' = Candidate" for s'
    unfolding performWinElection_def using that
    by (intro processWinElection_inv) (simp_all add: tc_inv_def role_inv_def)
  obtain b where "singleElectableNode (s\<lparr>tcStepDownUntil := now\<rparr>) = Some b" "b \<longrightarrow> tcSelfIndex s = 0"
    using singleElectableNode_Some [of "s\<lparr>tcStepDownUntil := now\<rparr>"] by auto
  then show ?thesis
    using assms win [of s] win [of "s\<lparr>tcStepDownUntil := u\<rparr>" for u] iAmPrimary_Some [OF tc_invD(2) [OF assms]]
      performWinElection_inv [of "s\<lparr>tcStepDownUntil := now\<rparr>" ts]
    by (auto simp: processReplSetFreeze_finish_def prepareFreezeResponse_def Let_def returns_bind)
qed

subsection \<open>Sync sources\<close>

text \<open>What makes a member a sync source, apart from its ping; the last three conditions hold for the first attempt only.\<close>

definition suitableSource :: "Date_t \<Rightarrow> Timestamp \<Rightarrow> OpTime \<Rightarrow> bool \<Rightarrow> TopologyCoordinator \<Rightarrow> nat \<Rightarrow> bool" where
  "suitableSource now ts oldest first s i \<longleftrightarrow>
     (let m = members (tcConfig s) ! i; me = members (tcConfig s) ! nat (tcSelfIndex s); d = tcHbdata s ! i
      in int i \<noteq> tcSelfIndex s \<and> up d \<and> readable (hbState d) \<and> (isVoter me \<longrightarrow> isVoter m) \<and>
         (mcBuildIndexes me \<longrightarrow> mcBuildIndexes m) \<and> ts < getTimestamp (hbOpTime d) \<and> \<not> memberIsBlacklisted m now s \<and>
         (first \<longrightarrow> \<not> OpTime_less (hbOpTime d) oldest \<and> mcSlaveDelay m \<le> mcSlaveDelay me \<and> \<not> mcHidden m))"

definition pingOf :: "TopologyCoordinator \<Rightarrow> nat \<Rightarrow> int" where
  "pingOf s i = getPing (mcHost (members (tcConfig s) ! i)) s"

lemma guard_Some: "(if b then Some False else Some x) = Some (\<not> b \<and> x)"
  by simp

lemma isSyncCandidate_eq:
  assumes "config_inv s" and "tcSelfIndex s \<noteq> - 1" and "i < length (members (tcConfig s))" and "c = - 1 \<or> inRange s c"
  shows "isSyncCandidate now ts oldest first s i (tcHbdata s ! i) c =
    Some (suitableSource now ts oldest first s i \<and> (c = - 1 \<or> pingOf s i \<le> pingOf s (nat c)))"
proof -
  have i: "getMemberAt (tcConfig s) (int i) = Some (members (tcConfig s) ! i)" using assms(3) by (simp add: getNumMembers_def)
  have slower: "(if c = - 1 then Some False
      else map_option (\<lambda>m. getPing (mcHost (members (tcConfig s) ! i)) s > getPing (mcHost m) s) (getMemberAt (tcConfig s) c)) =
    Some (c \<noteq> - 1 \<and> \<not> pingOf s i \<le> pingOf s (nat c))"
    using assms(4) by (cases "c = - 1") (auto simp: pingOf_def)
  show ?thesis
    by (simp only: isSyncCandidate_def i slower selfConfig_Some [OF assms(1,2)] bind.bind_lunit guard_Some option.inject
        suitableSource_def Let_def) (auto simp only: not_le not_less de_Morgan_disj de_Morgan_conj)
qed

text \<open>The scan keeps the source with the least ping among the suitable members it has seen.\<close>

definition closest_among :: "(nat \<Rightarrow> bool) \<Rightarrow> TopologyCoordinator \<Rightarrow> nat set \<Rightarrow> int \<Rightarrow> bool" where
  "closest_among ok s is r \<longleftrightarrow>
     (if r = - 1 then \<forall>i\<in>is. \<not> ok i
      else 0 \<le> r \<and> nat r \<in> is \<and> ok (nat r) \<and> (\<forall>i\<in>is. ok i \<longrightarrow> pingOf s (nat r) \<le> pingOf s i))"

lemma closest_among_step:
  assumes "closest_among ok s seen c"
  shows "closest_among ok s (insert i seen) (if ok i \<and> (c = - 1 \<or> pingOf s i \<le> pingOf s (nat c)) then int i else c)"
  using assms by (auto simp: closest_among_def split: if_splits intro: order_trans)

lemma closestSource_run:
  assumes "config_inv s" and "tcSelfIndex s \<noteq> - 1"
    and "\<forall>(i, d)\<in>set ids. i < length (members (tcConfig s)) \<and> d = tcHbdata s ! i"
    and "seen \<subseteq> {..<length (members (tcConfig s))}"
    and "closest_among (suitableSource now ts oldest first s) s seen c"
  shows "\<exists>r. closestSource now ts oldest first s ids c = Some r \<and>
    closest_among (suitableSource now ts oldest first s) s (seen \<union> fst ` set ids) r"
  using assms(3-5)
proof (induction ids arbitrary: c seen)
  case (Cons id ids)
  obtain i d where id: "id = (i, d)" by (cases id)
  have i: "i < length (members (tcConfig s))" "d = tcHbdata s ! i" using Cons.prems(1) id by auto
  have c: "c = - 1 \<or> inRange s c" using Cons.prems(2,3) by (auto simp: closest_among_def inRange_def split: if_splits)
  have "\<exists>r. closestSource now ts oldest first s ids
      (if suitableSource now ts oldest first s i \<and> (c = - 1 \<or> pingOf s i \<le> pingOf s (nat c)) then int i else c) = Some r \<and>
    closest_among (suitableSource now ts oldest first s) s (insert i seen \<union> fst ` set ids) r"
    using Cons.prems i by (intro Cons.IH closest_among_step) auto
  then show ?case using isSyncCandidate_eq [OF assms(1,2) i(1) c] i(2) id by simp
qed simp

lemma closestSource_spec:
  assumes "config_inv s" and "tcSelfIndex s \<noteq> - 1"
  shows "\<exists>r. closestSource now ts oldest first s (indexed s) (- 1) = Some r \<and>
    closest_among (suitableSource now ts oldest first s) s {..<length (members (tcConfig s))} r"
proof -
  have len: "length (tcHbdata s) = length (members (tcConfig s))" using assms(1) by (simp add: config_inv_def)
  have ids: "\<forall>(i, d)\<in>set (indexed s). i < length (members (tcConfig s)) \<and> d = tcHbdata s ! i"
    using len by (auto simp: indexed_iff)
  have dom: "fst ` set (indexed s) = {..<length (members (tcConfig s))}"
    using len by (simp add: indexed_def flip: set_map) (auto simp: lessThan_atLeast0)
  have "closest_among (suitableSource now ts oldest first s) s {} (- 1)" by (simp add: closest_among_def)
  from closestSource_run [OF assms ids empty_subsetI this] show ?thesis unfolding dom Un_empty_left .
qed

text \<open>The choice: the closest member that meets the strict conditions, or else the closest of the others, or no host.\<close>

definition best_source :: "Date_t \<Rightarrow> Timestamp \<Rightarrow> OpTime \<Rightarrow> TopologyCoordinator \<Rightarrow> HostAndPort \<Rightarrow> bool" where
  "best_source now ts oldest s h \<longleftrightarrow>
     (let n = length (members (tcConfig s)); strict = (\<exists>i<n. suitableSource now ts oldest True s i)
      in \<exists>r. h = (if r = - 1 then noHost else mcHost (members (tcConfig s) ! nat r)) \<and>
             closest_among (suitableSource now ts oldest strict s) s {..<n} r)"

lemma closest_inRange: "closest_among ok s {..<length (members (tcConfig s))} r \<Longrightarrow> r = - 1 \<or> inRange s r"
  by (auto simp: closest_among_def inRange_def split: if_splits)

lemma syncFrom_inv: "tc_inv s \<Longrightarrow> inRange s i \<Longrightarrow> returns (syncFrom now p q i s) (\<lambda>(h, s'). tc_inv s')"
  by (simp add: syncFrom_def Let_def)

lemma oldestSyncOpTime_Some: "tc_inv s \<Longrightarrow> \<exists>t. oldestSyncOpTime s = Some t"
  using hbdataAt_inRange [of s "tcCurrentPrimaryIndex s"]
  by (cases "tcCurrentPrimaryIndex s = - 1") (auto simp: oldestSyncOpTime_def Let_def tc_inv_def primary_inv_def)

text \<open>With chaining allowed and no forced source: the scan of the source with and then without the strict conditions.\<close>

lemma chooseNewSyncSource_scan:
  assumes "tc_inv s" and "tcRole s \<noteq> Leader" and "tcSelfIndex s \<noteq> - 1" and "tcForceSyncSourceIndex s = - 1"
    and "needMorePings s \<le> 0" and "chainingAllowed (tcConfig s)" and oldest: "oldestSyncOpTime s = Some oldest"
  shows "returns (chooseNewSyncSource now ts s) (\<lambda>(h, s'). tc_inv s' \<and> tcSyncSource s' = h \<and> best_source now ts oldest s h)"
proof -
  note inv = tc_invD [OF assms(1)]
  let ?n = "length (members (tcConfig s))"
  have "\<exists>r. closestSource now ts oldest first s (indexed s) (- 1) = Some r \<and>
      closest_among (suitableSource now ts oldest first s) s {..<?n} r" for first
    by (rule closestSource_spec [OF inv(1) assms(3)])
  then obtain r where r: "closestSource now ts oldest first s (indexed s) (- 1) = Some (r first)"
    "closest_among (suitableSource now ts oldest first s) s {..<?n} (r first)" for first by metis
  define q where "q = r (r True \<noteq> - 1)"
  have strict: "(r True \<noteq> - 1) = (\<exists>i < ?n. suitableSource now ts oldest True s i)"
    using r(2) [of True] by (auto simp: closest_among_def split: if_splits)
  have q: "q = - 1 \<or> inRange s q" unfolding q_def by (rule closest_inRange [OF r(2)])
  define h where "h = (if q = - 1 then noHost else mcHost (members (tcConfig s) ! nat q))"
  have best: "best_source now ts oldest s h"
    unfolding best_source_def Let_def strict [symmetric] using r(2) [of "r True \<noteq> - 1"] q_def h_def by blast
  have run: "chooseNewSyncSource now ts s =
      (if q = - 1 then Some (noHost, (setMyHeartbeatMessage now ''could not find member to sync from'' s)\<lparr>tcSyncSource := noHost\<rparr>)
       else syncFrom now ''syncing from: '' '''' q s)"
    using assms(2-6) oldest r(1) iAmPrimary_Some [OF inv(2)] by (cases "r True = - 1") (simp_all add: chooseNewSyncSource_def q_def)
  show ?thesis
    unfolding run using q assms(1) best by (cases "q = - 1") (simp_all add: h_def syncFrom_def Let_def setMyHeartbeatMessage_def)
qed

lemma self_not_up: "config_inv s \<Longrightarrow> tcSelfIndex s = int i \<Longrightarrow> \<not> up (tcHbdata s ! i)"
  by (simp add: config_inv_def)

lemma betterSource_Some:
  assumes "config_inv s" and "tcSelfIndex s \<noteq> - 1" and "\<forall>(i, d)\<in>set ids. i < length (members (tcConfig s)) \<and> d = tcHbdata s ! i"
  shows "\<exists>b. betterSource now goal s ids = Some b"
  using assms(3)
proof (induction ids)
  case (Cons id ids)
  obtain i d where id: "id = (i, d)" by (cases id)
  have i: "i < length (members (tcConfig s))" "d = tcHbdata s ! i" using Cons.prems id by auto
  have self: "int i \<noteq> tcSelfIndex s" if "up d" using that i self_not_up [OF assms(1)] by metis
  obtain b where b: "betterSource now goal s ids = Some b" using Cons by auto
  show ?case
  proof (cases "up d")
    case True
    then show ?thesis
      using id i(1) b self selfConfig_Some [OF assms(1,2)] by (auto simp: getNumMembers_def)
  qed (use id i(1) b in \<open>auto simp: getNumMembers_def\<close>)
qed auto

lemma shouldChangeSyncSource_Some:
  assumes "tc_inv s" and "tcSelfIndex s \<noteq> - 1"
    and "findMemberIndexByHostAndPort (tcConfig s) source \<noteq> tcSelfIndex s"
  shows "\<exists>b. shouldChangeSyncSource source myLast sourceLast sourceHas now s = Some b"
proof -
  have ids: "\<forall>(i, d)\<in>set (indexed s). i < length (members (tcConfig s)) \<and> d = tcHbdata s ! i"
    using assms(1) by (auto simp: indexed_iff tc_inv_def config_inv_def)
  show ?thesis
    using assms(3) betterSource_Some [OF tc_invD(1) [OF assms(1)] assms(2) ids] find_inRange(1) [of s source]
      hbdataAt_inRange [OF tc_invD(1) [OF assms(1)]]
    by (auto simp: shouldChangeSyncSource_def Let_def)
qed

lemma memberStatuses_Some:
  assumes "tc_inv s" and "\<forall>(i, d)\<in>set ids. inRange s (int i)"
  shows "\<exists>ms. memberStatuses now uptime lastOp state s ids = Some ms \<and> length ms = length ids"
  using assms(2)
proof (induction ids)
  case (Cons id ids)
  obtain i d where id: "id = (i, d)" by (cases id)
  have i: "inRange s (int i)" using Cons.prems id by auto
  obtain ms where ms: "memberStatuses now uptime lastOp state s ids = Some ms" "length ms = length ids" using Cons by auto
  have "\<exists>m. selfStatus now uptime lastOp state s = Some m" if "int i = tcSelfIndex s"
    using selfConfig_Some [OF tc_invD(1) [OF assms(1)]] iAmPrimary_Some [OF tc_invD(2) [OF assms(1)]] that
    by (cases "HostAndPort_empty (tcSyncSource s)") (auto simp: selfStatus_def)
  moreover have "\<exists>m. otherStatus now i d s = Some m" using getMemberAt_inRange [OF i] by (simp add: otherStatus_def Let_def)
  ultimately show ?case using id ms by auto
qed simp

lemma prepareStatusResponse_Some:
  assumes "tc_inv s"
  shows "\<exists>r. prepareStatusResponse canceled now uptime lastOp s = Some r"
proof -
  have ids: "\<forall>(i, d)\<in>set (indexed s). inRange s (int i)"
    using tc_invD(1) [OF assms] by (auto simp: indexed_iff config_inv_def inRange_def)
  obtain state where state: "getMemberState s = Some state" using getMemberState_Some tc_invD(1,2) [OF assms] by blast
  obtain ms where "memberStatuses now uptime lastOp state s (indexed s) = Some ms" using memberStatuses_Some [OF assms ids] by blast
  then show ?thesis using state by (simp add: prepareStatusResponse_def)
qed

lemma chooseNewSyncSource_inv:
  assumes "tc_inv s"
  shows "returns (chooseNewSyncSource now ts s) (\<lambda>(h, s'). tc_inv s')"
proof -
  note inv = tc_invD [OF assms]
  note run = chooseNewSyncSource_def iAmPrimary_Some [OF inv(2)]
  consider "tcRole s = Leader \<or> tcSelfIndex s = - 1" | "tcRole s \<noteq> Leader" "tcSelfIndex s \<noteq> - 1" "tcForceSyncSourceIndex s \<noteq> - 1"
    | "tcRole s \<noteq> Leader" "tcSelfIndex s \<noteq> - 1" "tcForceSyncSourceIndex s = - 1" "needMorePings s > 0 \<or> \<not> chainingAllowed (tcConfig s)"
    | "tcRole s \<noteq> Leader" "tcSelfIndex s \<noteq> - 1" "tcForceSyncSourceIndex s = - 1" "needMorePings s \<le> 0" "chainingAllowed (tcConfig s)"
    by linarith
  then show ?thesis
  proof cases
    case 1
    then show ?thesis using assms by (auto simp: run)
  next
    case 2
    then have "inRange s (tcForceSyncSourceIndex s)" using inv(2) by (simp add: role_inv_def)
    then show ?thesis using 2 syncFrom_inv [OF tc_inv_no_force [OF assms]] by (simp add: run inRange_def getNumMembers_def)
  next
    case 3
    obtain m where m: "currentPrimaryMember s = Some m" "m \<noteq> None \<longrightarrow> inRange s (tcCurrentPrimaryIndex s)"
      using currentPrimaryMember_Some [OF inv(3) [of 0]] inv(3) [of 0]
      by (cases "tcCurrentPrimaryIndex s = - 1") (auto simp: primary_inv_def)
    then show ?thesis using 3 assms syncFrom_inv [OF assms] by (cases m) (auto simp: run)
  next
    case 4
    obtain oldest where "oldestSyncOpTime s = Some oldest" using oldestSyncOpTime_Some [OF assms] by blast
    from chooseNewSyncSource_scan [OF assms 4 this] show ?thesis by (rule returns_weaken) auto
  qed
qed

subsection \<open>Events\<close>

datatype TopologyEvent =
    SetMyHeartbeatMessage Date_t string
  | ChooseNewSyncSource Date_t Timestamp
  | ShouldChangeSyncSource HostAndPort OpTime OpTime bool Date_t
  | BlacklistSyncSource HostAndPort Date_t
  | UnblacklistSyncSource HostAndPort Date_t
  | ClearSyncSourceBlacklist
  | SyncFrom bool HostAndPort OpTime
  | Fresh ReplSetFreshArgs Date_t OpTime
  | Elect ReplSetElectArgs Date_t OpTime
  | Heartbeat Date_t ReplSetHeartbeatArgs string OpTime ReplSetHeartbeatResponse
  | HeartbeatV1 Date_t ReplSetHeartbeatArgs string OpTime ReplSetHeartbeatResponse
  | HeartbeatRequest Date_t string HostAndPort
  | HeartbeatRequestV1 Date_t string HostAndPort
  | HeartbeatResponse Date_t Milliseconds HostAndPort StatusWithResponse OpTime
  | MemberDown Date_t int OpTime
  | GetStatus bool Date_t "32 word" OpTime
  | Freeze bool Date_t int Timestamp
  | TimePassing Date_t Timestamp
  | UpdateConfig ReplicaSetConfig int
  | SetFollowerMode bool MemberState
  | SetMaintenanceMode bool bool bool
  | BecomeCandidate Date_t OpTime
  | VoteForMyself Date_t
  | VoteForMyselfV1
  | WinElection Timestamp
  | LoseElection
  | SetElectionSleepUntil Date_t
  | StepDown Status Status Status Date_t Date_t Date_t bool OpTime
  | StepDownIfPending
  | UpdateTerm Term Date_t bool
  | RequestVotes ReplSetRequestVotesArgs OpTime
  | LoadLastVote LastVote
  | SetReadCommitted bool

text \<open>The state after an event; the replies to the caller are left out. A failing \<open>invariant\<close> is \<open>None\<close>.\<close>

definition reply :: "('a \<times> TopologyCoordinator) option \<Rightarrow> TopologyCoordinator option" where
  "reply m = map_option snd m"

fun handle :: "(Date_t \<Rightarrow> string) \<Rightarrow> TopologyEvent \<Rightarrow> TopologyCoordinator \<Rightarrow> TopologyCoordinator option" where
  "handle isoDate (SetMyHeartbeatMessage now msg) s = Some (setMyHeartbeatMessage now msg s)"
| "handle isoDate (ChooseNewSyncSource now ts) s = reply (chooseNewSyncSource now ts s)"
| "handle isoDate (ShouldChangeSyncSource source myLast sourceLast sourceHas now) s =
     map_option (\<lambda>_. s) (shouldChangeSyncSource source myLast sourceLast sourceHas now s)"
| "handle isoDate (BlacklistSyncSource h until) s = Some (blacklistSyncSource h until s)"
| "handle isoDate (UnblacklistSyncSource h now) s = Some (unblacklistSyncSource h now s)"
| "handle isoDate ClearSyncSourceBlacklist s = Some (clearSyncSourceBlacklist s)"
| "handle isoDate (SyncFrom canceled target lastOp) s = reply (prepareSyncFromResponse canceled target lastOp s)"
| "handle isoDate (Fresh args now lastOp) s = map_option (\<lambda>_. s) (prepareFreshResponse isoDate args now lastOp s)"
| "handle isoDate (Elect args now lastOp) s = reply (prepareElectResponse args now lastOp s)"
| "handle isoDate (Heartbeat now args name lastOp rsp) s = reply (prepareHeartbeatResponse now args name lastOp rsp s)"
| "handle isoDate (HeartbeatV1 now args name lastOp rsp) s = reply (prepareHeartbeatResponseV1 now args name lastOp rsp s)"
| "handle isoDate (HeartbeatRequest now name target) s = reply (prepareHeartbeatRequest now name target s)"
| "handle isoDate (HeartbeatRequestV1 now name target) s = reply (prepareHeartbeatRequestV1 now name target s)"
| "handle isoDate (HeartbeatResponse now rtt target rsp lastOp) s = reply (processHeartbeatResponse now rtt target rsp lastOp s)"
| "handle isoDate (MemberDown now i lastOp) s = reply (setMemberAsDown now i lastOp s)"
| "handle isoDate (GetStatus canceled now uptime lastOp) s = map_option (\<lambda>_. s) (prepareStatusResponse canceled now uptime lastOp s)"
| "handle isoDate (Freeze canceled now secs ts) s = reply (processReplSetFreeze_finish canceled now secs ts s)"
| "handle isoDate (TimePassing now ts) s = handleTimePassing now ts s"
| "handle isoDate (UpdateConfig c self) s = updateConfig c self s"
| "handle isoDate (SetFollowerMode canceled mode) s = reply (setFollowerModeFinish canceled mode s)"
| "handle isoDate (SetMaintenanceMode canceled activate isPrimary) s = reply (setMaintenanceMode_helper canceled activate isPrimary s)"
| "handle isoDate (BecomeCandidate now lastOp) s = reply (becomeCandidateIfElectable now lastOp s)"
| "handle isoDate (VoteForMyself now) s = reply (voteForMyself now s)"
| "handle isoDate VoteForMyselfV1 s = Some (voteForMyselfV1 s)"
| "handle isoDate (WinElection ts) s = performWinElection ts s"
| "handle isoDate LoseElection s = processLoseElection s"
| "handle isoDate (SetElectionSleepUntil t) s = Some (setElectionSleepUntil t s)"
| "handle isoDate (StepDown cb interrupted resched now waitUntil stepDownUntil force lastOp) s =
     reply (stepDownContinue cb interrupted resched now waitUntil stepDownUntil force lastOp s)"
| "handle isoDate StepDownIfPending s = reply (stepDownIfPending s)"
| "handle isoDate (UpdateTerm t now isPrimary) s = Some (snd (updateTerm_incallback t now isPrimary s))"
| "handle isoDate (RequestVotes args lastOp) s = Some (snd (processReplSetRequestVotes args lastOp s))"
| "handle isoDate (LoadLastVote vote) s = Some (loadLastVote vote s)"
| "handle isoDate (SetReadCommitted supported) s = Some (setStorageEngineSupportsReadCommitted supported s)"

text \<open>
  What the callers guarantee. Heartbeats are sent to other members only, and a response follows a request to the same
  target (\<open>ping_awaits\<close>); the cached member state is PRIMARY exactly when the role is leader; an election is won or
  lost by a candidate; a member of the set answers V0 heartbeats under its own set name; a configuration has been
  validated and is not installed during an election.
\<close>

fun allowed :: "TopologyEvent \<Rightarrow> TopologyCoordinator \<Rightarrow> bool" where
  "allowed (ShouldChangeSyncSource source myLast sourceLast sourceHas now) s \<longleftrightarrow>
     tcSelfIndex s \<noteq> - 1 \<and> findMemberIndexByHostAndPort (tcConfig s) source \<noteq> tcSelfIndex s"
| "allowed (Heartbeat now args name lastOp rsp) s \<longleftrightarrow> (tcSelfIndex s \<noteq> - 1 \<longrightarrow> replSetName (tcConfig s) = name)"
| "allowed (HeartbeatRequest now name target) s \<longleftrightarrow> now > 0"
| "allowed (HeartbeatRequestV1 now name target) s \<longleftrightarrow> now > 0"
| "allowed (HeartbeatResponse now rtt target rsp lastOp) s \<longleftrightarrow> ping_awaits (pingAt target s) \<and>
     (findMemberIndexByHostAndPort (tcConfig s) target = - 1 \<or> findMemberIndexByHostAndPort (tcConfig s) target \<noteq> tcSelfIndex s)"
| "allowed (MemberDown now i lastOp) s \<longleftrightarrow> tcRole s = Leader \<and> inRange s i \<and> i \<noteq> tcSelfIndex s"
| "allowed (UpdateConfig c self) s \<longleftrightarrow> installable c self s \<and> tcRole s \<noteq> Candidate"
| "allowed (SetFollowerMode canceled mode) s \<longleftrightarrow> mode \<in> {RS_RECOVERING, RS_ROLLBACK, RS_SECONDARY, RS_STARTUP2}"
| "allowed (SetMaintenanceMode canceled activate isPrimary) s \<longleftrightarrow> isPrimary = (tcRole s = Leader)"
| "allowed (WinElection ts) s \<longleftrightarrow> tcRole s = Candidate"
| "allowed LoseElection s \<longleftrightarrow> tcRole s = Candidate"
| "allowed (UpdateTerm t now isPrimary) s \<longleftrightarrow> isPrimary = (tcRole s = Leader)"
| "allowed _ s \<longleftrightarrow> True"

inductive tc_reachable :: "(Date_t \<Rightarrow> string) \<Rightarrow> TopologyCoordinator \<Rightarrow> bool" for isoDate where
  tc_init: "tc_reachable isoDate (newTopologyCoordinator lag mode)"
| tc_step: "tc_reachable isoDate s \<Longrightarrow> allowed e s \<Longrightarrow> handle isoDate e s = Some s' \<Longrightarrow> tc_reachable isoDate s'"

lemma returns_reply: "returns m (\<lambda>(r, s'). tc_inv s') \<Longrightarrow> returns (reply m) tc_inv"
  by (auto simp: returns_def reply_def)

lemma returns_query: "tc_inv s \<Longrightarrow> \<exists>r. m = Some r \<Longrightarrow> returns (map_option (\<lambda>_. s) m) tc_inv"
  by auto

lemma new_inv: "tc_inv (newTopologyCoordinator lag mode)"
  by (simp add: newTopologyCoordinator_def inv_defs emptyConfig_def)

lemma setters_inv:
  assumes "tc_inv s"
  shows "tc_inv (setMyHeartbeatMessage now msg s)" "tc_inv (blacklistSyncSource h t s)" "tc_inv (unblacklistSyncSource h t s)"
    "tc_inv (clearSyncSourceBlacklist s)" "tc_inv (setElectionSleepUntil t s)" "tc_inv (loadLastVote v s)" "tc_inv (voteForMyselfV1 s)"
    "tc_inv (snd (processReplSetRequestVotes args lastOp s))" "tc_inv (setStorageEngineSupportsReadCommitted b s)"
  using assms by (auto simp: setMyHeartbeatMessage_def blacklistSyncSource_def unblacklistSyncSource_def clearSyncSourceBlacklist_def
      setElectionSleepUntil_def loadLastVote_def voteForMyselfV1_def processReplSetRequestVotes_def Let_def
      setStorageEngineSupportsReadCommitted_def inv_defs split: option.split)

lemma updateTerm_incallback_inv:
  assumes "tc_inv s" and "p \<longrightarrow> tcRole s = Leader"
  shows "tc_inv (snd (updateTerm_incallback t now p s))"
proof -
  let ?s = "s\<lparr>tcElectionSleepUntil := now + electionTimeoutPeriod (tcConfig s), tcTerm := t\<rparr>"
  have "tc_inv ?s" using assms(1) by simp
  moreover have "p \<Longrightarrow> tc_inv (?s\<lparr>tcStepDownPending := True\<rparr>)" using tc_inv_pending [OF calculation] assms(2) by simp
  ultimately show ?thesis
    using assms(1) by (simp add: updateTerm_incallback_def updateTerm_def prepareForStepDown_def)
qed

lemma setMaintenanceMode_inv:
  assumes "tc_inv s" and "p = (tcRole s = Leader)"
  shows "returns (setMaintenanceMode_helper canceled activate p s) (\<lambda>(r, s'). tc_inv s')"
proof -
  have "tc_inv (s\<lparr>tcMaintenanceModeCalls := n\<rparr>)" if "n \<ge> 0" for n using assms(1) that by (simp add: inv_defs)
  moreover have "tcMaintenanceModeCalls s \<ge> 0" using assms(1) by (simp add: tc_inv_def role_inv_def)
  ultimately show ?thesis using assms
    by (cases "tcRole s") (simp_all add: setMaintenanceMode_helper_def adjustMaintenanceCountBy_def Let_def)
qed

lemma setFollowerModeFinish_inv:
  assumes "tc_inv s" and "mode \<in> {RS_RECOVERING, RS_ROLLBACK, RS_SECONDARY, RS_STARTUP2}"
  shows "returns (setFollowerModeFinish canceled mode s) (\<lambda>(r, s'). tc_inv s')"
proof -
  obtain state where "getMemberState s = Some state" using getMemberState_Some tc_invD(1,2) [OF assms(1)] by blast
  then show ?thesis using assms(1) setFollowerMode_inv [OF assms(1) _ assms(2)]
    by (cases "tcRole s") (simp_all add: setFollowerModeFinish_def returns_bind)
qed

lemma voteForMyself_inv:
  assumes "tc_inv s"
  shows "returns (voteForMyself now s) (\<lambda>(b, s'). tc_inv s')"
proof (cases "tcRole s = Candidate")
  case True
  then have "selfConfig s = Some (members (tcConfig s) ! nat (tcSelfIndex s))"
    using assms by (intro selfConfig_Some) (simp_all add: tc_inv_def role_inv_def)
  then show ?thesis using assms by (simp add: voteForMyself_def)
qed (use assms in \<open>simp add: voteForMyself_def\<close>)

lemma stepDownContinue_inv:
  assumes "tc_inv s"
  shows "returns (stepDownContinue cb interrupted resched now waitUntil until force lastOp s) (\<lambda>(r, s'). tc_inv s')"
proof (cases "tcRole s = Leader")
  case True
  from stepDown_inv [OF assms True] obtain x
    where "stepDown until (if now \<ge> waitUntil then force else False) lastOp s = Some x" "case x of (b, s') \<Rightarrow> tc_inv s'"
    by (rule returnsE)
  then show ?thesis using assms by (cases x) (simp add: stepDownContinue_def)
qed (use assms in \<open>simp add: stepDownContinue_def\<close>)

lemma handle_inv:
  assumes "tc_inv s" and "allowed e s"
  shows "returns (handle isoDate e s) tc_inv"
proof (cases e)
  case (HeartbeatRequest now name target)
  then show ?thesis using assms prepareHeartbeatRequest_inv(1) [of s now name target]
    by (auto intro!: returns_reply elim: returns_weaken)
next
  case (HeartbeatRequestV1 now name target)
  then show ?thesis using assms prepareHeartbeatRequest_inv(2) [of s now name target]
    by (auto intro!: returns_reply elim: returns_weaken)
next
  case (Elect args now lastOp)
  show ?thesis unfolding Elect handle.simps
    by (intro returns_reply returns_weaken [OF prepareElectResponse_inv [OF assms(1)]]) auto
next
  case (BecomeCandidate now lastOp)
  show ?thesis unfolding BecomeCandidate handle.simps
    by (intro returns_reply returns_weaken [OF becomeCandidateIfElectable_inv [OF assms(1)]]) auto
next
  case (ShouldChangeSyncSource source myLast sourceLast sourceHas now)
  then show ?thesis using assms unfolding ShouldChangeSyncSource handle.simps
    by (intro returns_query shouldChangeSyncSource_Some) auto
next
  case (Fresh args now lastOp)
  show ?thesis unfolding Fresh handle.simps using assms(1) by (intro returns_query prepareFreshResponse_Some)
next
  case (GetStatus canceled now uptime lastOp)
  show ?thesis unfolding GetStatus handle.simps using assms(1) by (intro returns_query prepareStatusResponse_Some)
next
  case (WinElection ts)
  then show ?thesis using assms performWinElection_inv [of s ts] processWinElection_inv [of s "tcTerm s" ts]
    by (simp add: performWinElection_def tc_inv_def role_inv_def)
qed (use assms in \<open>simp_all add: setters_inv chooseNewSyncSource_inv prepareSyncFromResponse_inv prepareHeartbeatResponse_inv
    prepareHeartbeatResponseV1_inv processHeartbeatResponse_inv setMemberAsDown_inv freeze_finish_inv handleTimePassing_inv
    updateConfig_inv setFollowerModeFinish_inv setMaintenanceMode_inv voteForMyself_inv processLoseElection_inv
    stepDownContinue_inv stepDownIfPending_inv updateTerm_incallback_inv returns_reply\<close>)

lemma tc_reachable_inv: "tc_reachable isoDate s \<Longrightarrow> tc_inv s"
proof (induction rule: tc_reachable.induct)
  case (tc_step s e s')
  then show ?case using handle_inv [of s e isoDate] by simp
qed (rule new_inv)

end
