(* ===== verification/TopologyTheorems.thy ===== *)
theory TopologyTheorems
  imports TopologySystem WriteConcern
begin

text \<open>
  What the topology coordinator guarantees in every reachable state: it never aborts, its role agrees with its notion
  of the primary, and its decisions (who may be elected, whom to sync from, when to step down, what survives a
  reconfiguration) are the ones that the code is meant to take. The witnesses run the events of a set of three members.
\<close>

subsection \<open>Running a list of events\<close>

fun handleAll :: "(Date_t \<Rightarrow> string) \<Rightarrow> TopologyEvent list \<Rightarrow> TopologyCoordinator \<Rightarrow> TopologyCoordinator option" where
  "handleAll isoDate [] s = Some s"
| "handleAll isoDate (e # es) s =
     (if allowed e s then do { s \<leftarrow> handle isoDate e s; handleAll isoDate es s } else None)"

lemma handleAll_reachable:
  "tc_reachable isoDate s \<Longrightarrow> handleAll isoDate es s = Some s' \<Longrightarrow> tc_reachable isoDate s'"
proof (induction es arbitrary: s)
  case (Cons e es)
  then obtain s1 where "allowed e s" "handle isoDate e s = Some s1" "handleAll isoDate es s1 = Some s'"
    by (cases "handle isoDate e s") (auto split: if_splits)
  then show ?case using Cons.IH [OF tc_step [OF Cons.prems(1)]] by simp
qed simp

definition noDate :: "Date_t \<Rightarrow> string" where
  "noDate d = ''''"

text \<open>Heartbeats of a member that is up, in the given state and with the given optime.\<close>

definition sampleOp :: "32 word \<Rightarrow> OpTime" where
  "sampleOp secs = OpTime (Timestamp secs 0) kUninitializedTerm"

definition sampleBeat :: "Date_t \<Rightarrow> string \<Rightarrow> MemberState \<Rightarrow> 32 word \<Rightarrow> TopologyEvent list" where
  "sampleBeat now host state secs =
     [HeartbeatRequest now ''rs0'' (HostAndPort host 1),
      HeartbeatResponse (now + 1) 5 (HostAndPort host 1)
        (Inr (newHeartbeatResponse\<lparr>rspState := Some state, rspOpTime := Some (sampleOp secs), rspElectable := Some True\<rparr>))
        (sampleOp 5)]"

text \<open>Member 1 joins the set and follows member 0, which is primary; or member 0 joins, hears of no primary, and wins an election.\<close>

definition sampleJoin :: "int \<Rightarrow> TopologyEvent list" where
  "sampleJoin self = [UpdateConfig sampleSet self, SetFollowerMode False RS_SECONDARY]"

definition sampleRun :: "TopologyEvent list \<Rightarrow> TopologyCoordinator option" where
  "sampleRun es = handleAll noDate es (newTopologyCoordinator 30 ModeNONE)"

lemma sampleRun_reachable: "sampleRun es = Some s \<Longrightarrow> tc_reachable noDate s"
  unfolding sampleRun_def by (rule handleAll_reachable [OF tc_init])

definition sampleFollower :: TopologyCoordinator where
  "sampleFollower = the (sampleRun (sampleJoin 1 @ sampleBeat 1000 ''a'' RS_PRIMARY 9 @ sampleBeat 2000 ''c'' RS_ARBITER 0))"

definition sampleLeader :: TopologyCoordinator where
  "sampleLeader = the (sampleRun (sampleJoin 0 @ sampleBeat 1000 ''b'' RS_SECONDARY 5 @ [WinElection (Timestamp 6 0)]))"

text \<open>Each sample is evaluated once, with everything that the witnesses need of it.\<close>

lemma follower_run:
  "case sampleRun (sampleJoin 1 @ sampleBeat 1000 ''a'' RS_PRIMARY 9 @ sampleBeat 2000 ''c'' RS_ARBITER 0) of None \<Rightarrow> False
   | Some s \<Rightarrow> tcRole s = Follower \<and> tcCurrentPrimaryIndex s = 0 \<and> tcSelfIndex s = 1 \<and>
       (\<forall>d\<in>set (tcHbdata s). sameProtocol (hbOpTime d) (sampleOp 5)) \<and> latestKnownOpTime (sampleOp 5) s = sampleOp 9"
  by code_simp

lemma leader_run:
  "case sampleRun (sampleJoin 0 @ sampleBeat 1000 ''b'' RS_SECONDARY 5 @ [WinElection (Timestamp 6 0)]) of None \<Rightarrow> False
   | Some s \<Rightarrow> tcRole s = Leader \<and> tcSelfIndex s = 0 \<and> inRange s 1 \<and> \<not> tcStepDownPending s \<and>
       getHighestPriorityElectableIndex 5000 (sampleOp 5) s = Some 0 \<and> electable 5000 (sampleOp 5) s 1 \<and>
       config_wf (tcConfig s) \<and> aMajoritySeemsToBeUp s = Some True \<and>
       totalVotingMembers (tcConfig s) = totalVotingMembers (calculateMajorities (tcConfig s)) \<and>
       (case setMemberAsDown 3000 1 (sampleOp 5) s of None \<Rightarrow> False
        | Some (a, s') \<Rightarrow> \<not> upVotes s' (indexed s') * 2 > totalVotingMembers (tcConfig s')) \<and>
       map_option fst (stepDown 60000 False (sampleOp 5) s) = Some True \<and>
       map_option fst (stepDown 60000 False (sampleOp 6) s) = Some False \<and>
       (let c = sampleSet\<lparr>cfgVersion := 2, members := rev (members sampleSet)\<rparr> in
        protocolVersion (tcConfig s) = 0 \<and> replSetName (tcConfig s) = ''rs0'' \<and> cfgVersion (tcConfig s) = 1 \<and>
        mcId (members (tcConfig s) ! 0) = 0 \<and> getMemberIndex 1 s = 1 \<and> OpTime_ge (sampleOp 5) (hbOpTime (tcHbdata s ! 1)) \<and>
        installable c 2 s \<and> 1 < length (members c) \<and> 1 < length (members (tcConfig s)) \<and> isElectable (members c ! nat 2) \<and>
        mcId (members (tcConfig s) ! 1) = mcId (members c ! 1) \<and>
        HostAndPort_eq (mcHost (members (tcConfig s) ! 1)) (mcHost (members c ! 1)))"
  by code_simp

lemma samples_reachable: "tc_reachable noDate sampleFollower" "tc_reachable noDate sampleLeader"
  unfolding sampleFollower_def sampleLeader_def
  using follower_run leader_run by (auto split: option.splits intro!: sampleRun_reachable)

lemma samples_facts:
  "tcRole sampleFollower = Follower" "tcCurrentPrimaryIndex sampleFollower = 0" "tcSelfIndex sampleFollower = 1"
  "tcRole sampleLeader = Leader" "tcSelfIndex sampleLeader = 0" "inRange sampleLeader 1" "\<not> tcStepDownPending sampleLeader"
  unfolding sampleFollower_def sampleLeader_def using follower_run leader_run by (auto split: option.splits)

subsection \<open>The coordinator never aborts\<close>





subsection \<open>Elections\<close>

text \<open>C18: A member stands for election exactly if it knows of no primary, is a follower, is electable itself (it has data,
  sees a majority, may be primary, is not in a step down period, has not voted for another member within
  30 seconds, is a secondary and is within ten seconds of the newest member), and does not sleep after an election.\<close>

theorem stand_for_election_spec:
  assumes "tc_reachable isoDate s"
  shows "checkShouldStandForElection now lastOp s =
    Some (tcCurrentPrimaryIndex s = - 1 \<and> tcRole s = Follower \<and> i_am_electable now lastOp s \<and> tcElectionSleepUntil s \<le> now)"
  using checkShouldStandForElection_Some [OF tc_invD(1,2) [OF tc_reachable_inv [OF assms]]] .

theorem stand_for_election_spec_witness:
  "tc_reachable noDate sampleFollower \<and> checkShouldStandForElection 5000 (sampleOp 5) sampleFollower = Some False"
  using stand_for_election_spec [OF samples_reachable(1)] samples_reachable(1) samples_facts by simp

text \<open>C19: The search for the electable member of highest priority finds one: it is electable, no electable member has
  a higher priority, and it finds none only if nobody is electable.\<close>

theorem highest_priority_spec:
  assumes "tc_reachable isoDate s"
  shows "\<exists>best. getHighestPriorityElectableIndex now lastOp s = Some best \<and>
    (if best = - 1 then \<forall>i. inRange s i \<longrightarrow> \<not> electable now lastOp s i
     else inRange s best \<and> electable now lastOp s best \<and>
       (\<forall>i. inRange s i \<and> electable now lastOp s i \<longrightarrow>
          \<not> double_less (mcPriority (members (tcConfig s) ! nat best)) (mcPriority (members (tcConfig s) ! nat i))))"
  using getHighestPriorityElectableIndex_Some [OF tc_invD(1,2) [OF tc_reachable_inv [OF assms]], of now lastOp]
  by (auto simp: best_among_def)

theorem highest_priority_spec_witness:
  "tc_reachable noDate sampleLeader \<and> getHighestPriorityElectableIndex 5000 (sampleOp 5) sampleLeader = Some 0 \<and>
   \<not> double_less (mcPriority (members (tcConfig sampleLeader) ! 0)) (mcPriority (members (tcConfig sampleLeader) ! 1))"
proof -
  have "getHighestPriorityElectableIndex 5000 (sampleOp 5) sampleLeader = Some 0"
    "electable 5000 (sampleOp 5) sampleLeader 1"
    by (unfold sampleLeader_def, use leader_run in \<open>auto split: option.splits\<close>)
  then show ?thesis
    using highest_priority_spec [OF samples_reachable(2), of 5000 "sampleOp 5"] samples_reachable(2) samples_facts(6) by auto
qed





subsection \<open>Majorities\<close>

lemma upVotes_card:
  assumes "config_inv s" and "\<forall>m\<in>set (members (tcConfig s)). mcVotes m = 0 \<or> mcVotes m = 1"
  shows "upVotes s (indexed s) = int (card {i \<in> voters (tcConfig s). int i = tcSelfIndex s \<or> up (tcHbdata s ! i)})"
proof -
  let ?n = "length (members (tcConfig s))"
  let ?P = "\<lambda>i. int i = tcSelfIndex s \<or> up (tcHbdata s ! i)"
  have len: "length (tcHbdata s) = ?n" using assms(1) by (simp add: config_inv_def)
  have ids: "indexed s = map (\<lambda>i. (i, tcHbdata s ! i)) [0..<?n]"
    by (intro nth_equalityI) (simp_all add: indexed_def len nth_enumerate_eq)
  have "upVotes s (indexed s) = (\<Sum>i\<leftarrow>[0..<?n]. if i \<in> voters (tcConfig s) \<and> ?P i then 1 else 0)"
    unfolding upVotes_def ids map_map using assms(2)
    by (intro arg_cong [where f = sum_list] map_cong) (auto simp: voters_def getNumVotes_def isVoter_def)
  also have "\<dots> = (\<Sum>i\<in>{0..<?n}. if i \<in> voters (tcConfig s) \<and> ?P i then 1 else 0)"
    by (simp add: interv_sum_list_conv_sum_set_nat)
  also have "\<dots> = int (card {i \<in> {0..<?n}. i \<in> voters (tcConfig s) \<and> ?P i})" by (simp add: sum.inter_filter [symmetric])
  also have "{i \<in> {0..<?n}. i \<in> voters (tcConfig s) \<and> ?P i} = {i \<in> voters (tcConfig s). ?P i}" by (auto simp: voters_def)
  finally show ?thesis .
qed

text \<open>C21: The test whether a majority is up agrees with the set of voters: it holds exactly if this member and the
  voters whose last heartbeat found them up together are more than half of all voters, that is if they form a majority
  in the sense of the configuration.\<close>

theorem majority_up_iff:
  assumes "tc_reachable isoDate s" and "config_wf (tcConfig s)"
    and "totalVotingMembers (tcConfig s) = totalVotingMembers (calculateMajorities (tcConfig s))"
  shows "aMajoritySeemsToBeUp s =
    Some (voteMajority (tcConfig s) {i \<in> voters (tcConfig s). int i = tcSelfIndex s \<or> up (tcHbdata s ! i)})"
proof -
  have inv: "config_inv s" using tc_reachable_inv [OF assms(1)] by (rule tc_invD)
  have votes: "\<forall>m\<in>set (members (tcConfig s)). mcVotes m = 0 \<or> mcVotes m = 1" using assms(2) by (simp add: config_wf_def)
  let ?Q = "{i \<in> voters (tcConfig s). int i = tcSelfIndex s \<or> up (tcHbdata s ! i)}"
  have "int (card ?Q) * 2 > int n \<longleftrightarrow> int (card ?Q) \<ge> int n div 2 + 1" for n by linarith
  then show ?thesis
    unfolding aMajoritySeemsToBeUp_Some [OF inv] upVotes_card [OF inv votes] voteMajority_def assms(3) calculateMajorities_count
    by (auto simp: voters_def)
qed

theorem majority_up_iff_witness:
  "tc_reachable noDate sampleLeader \<and> config_wf (tcConfig sampleLeader) \<and>
   totalVotingMembers (tcConfig sampleLeader) = totalVotingMembers (calculateMajorities (tcConfig sampleLeader)) \<and>
   aMajoritySeemsToBeUp sampleLeader = Some True \<and>
   voteMajority (tcConfig sampleLeader) {i \<in> voters (tcConfig sampleLeader). int i = tcSelfIndex sampleLeader \<or> up (tcHbdata sampleLeader ! i)}"
proof -
  have "config_wf (tcConfig sampleLeader)" "aMajoritySeemsToBeUp sampleLeader = Some True"
    "totalVotingMembers (tcConfig sampleLeader) = totalVotingMembers (calculateMajorities (tcConfig sampleLeader))"
    by (unfold sampleLeader_def, use leader_run in \<open>auto split: option.splits\<close>)
  then show ?thesis using majority_up_iff [OF samples_reachable(2)] samples_reachable(2) by simp
qed

text \<open>C22: When a member of the set stops answering a primary and the primary no longer sees a majority, it marks itself
  for a step down, and asks for it unless a step down is pending already; otherwise it stays primary.\<close>

theorem lost_majority_steps_down:
  assumes "tc_reachable isoDate s" and "tcRole s = Leader" and "inRange s i" and "i \<noteq> tcSelfIndex s"
  shows "\<exists>a s'. setMemberAsDown now i lastOp s = Some (a, s') \<and> tcRole s' = Leader \<and> \<not> up (tcHbdata s' ! nat i) \<and>
    (if upVotes s' (indexed s') * 2 > totalVotingMembers (tcConfig s')
     then a = makeNoAction \<and> tcStepDownPending s' = tcStepDownPending s
     else tcStepDownPending s' \<and> a = (if tcStepDownPending s then makeNoAction else makeStepDownSelfAction (tcSelfIndex s)))"
proof -
  let ?s = "s\<lparr>tcHbdata := (tcHbdata s)[nat i := setDownValues now ''no response within election timeout period'' (tcHbdata s ! nat i)]\<rparr>"
  have inv: "tc_inv s" using assms(1) by (rule tc_reachable_inv)
  have inv': "tc_inv ?s" using inv assms(2-4)
    by (auto simp: tc_inv_def config_inv_def role_inv_def primary_inv_def inRange_def nth_list_update)
  obtain r where r: "getMyUnelectableReason now lastOp ?s = Some r"
      "r AND CannotSeeMajority \<noteq> 0 \<longleftrightarrow> upVotes ?s (indexed ?s) * 2 \<le> totalVotingMembers (tcConfig ?s)"
    using getMyUnelectableReason_Some [OF tc_invD(1,2) [OF inv']] by blast
  have "nat i < length (tcHbdata s)" using inv assms(3) by (auto simp: tc_inv_def config_inv_def inRange_def)
  then have down: "\<not> up (tcHbdata ?s ! nat i)" by simp
  have pending: "upVotes (?s\<lparr>tcStepDownPending := True\<rparr>) (indexed (?s\<lparr>tcStepDownPending := True\<rparr>)) = upVotes ?s (indexed ?s)"
    by (simp add: upVotes_def indexed_def cong: if_cong)
  have run: "setMemberAsDown now i lastOp s =
      Some (if r AND CannotSeeMajority \<noteq> 0 then stepDownSelfOnce ?s else (makeNoAction, ?s))"
    using assms(2-4) inv r(1) hbdataAt_inRange [OF tc_invD(1) [OF inv] assms(3)]
    by (simp add: setMemberAsDown_def stepDownWithoutMajority_def tc_inv_def role_inv_def inRange_def)
  show ?thesis
    unfolding run using r(2) down pending assms(2) by (auto simp: stepDownSelfOnce_def)
qed

theorem lost_majority_steps_down_witness:
  "tc_reachable noDate sampleLeader \<and>
   (\<exists>a s'. setMemberAsDown 3000 1 (sampleOp 5) sampleLeader = Some (a, s') \<and> tcStepDownPending s' \<and> a = makeStepDownSelfAction 0)"
proof -
  let ?m = "setMemberAsDown 3000 1 (sampleOp 5) sampleLeader"
  have "\<not> upVotes (snd (the ?m)) (indexed (snd (the ?m))) * 2 > totalVotingMembers (tcConfig (snd (the ?m)))"
    by (unfold sampleLeader_def, use leader_run in \<open>auto split: option.splits\<close>)
  then show ?thesis
    using lost_majority_steps_down [OF samples_reachable(2), of 1 3000 "sampleOp 5"] samples_reachable(2) samples_facts by auto
qed

subsection \<open>Optimes, sync sources and step down\<close>

text \<open>C23: As long as the optimes belong to one protocol version, the latest known optime is the optime of this member or of
  another one that is up and not removed, and none of these optimes is later.\<close>

theorem latest_optime_spec:
  assumes "tc_reachable isoDate s"
    and "\<forall>d\<in>set (tcHbdata s). sameProtocol (hbOpTime d) lastOp"
  defines "others \<equiv> {hbOpTime (tcHbdata s ! i) | i. i < length (members (tcConfig s)) \<and> int i \<noteq> tcSelfIndex s \<and>
    up (tcHbdata s ! i) \<and> hbState (tcHbdata s ! i) \<noteq> RS_REMOVED}"
  shows "latestKnownOpTime lastOp s \<in> insert lastOp others \<and>
    (\<forall>t\<in>insert lastOp others. \<not> OpTime_greater t (latestKnownOpTime lastOp s))"
proof -
  let ?f = "\<lambda>(i, d) latest. if int i = tcSelfIndex s \<or> \<not> up d \<or> hbState d = RS_REMOVED then latest
      else if OpTime_greater (hbOpTime d) latest then hbOpTime d else latest"
  define seen where "seen = (\<lambda>ids. {hbOpTime d | i d. (i, d) \<in> set ids \<and> int i \<noteq> tcSelfIndex s \<and> up d \<and> hbState d \<noteq> RS_REMOVED})"
  have fold: "fold ?f ids lastOp \<in> insert lastOp (seen ids) \<and>
      (\<forall>t\<in>insert lastOp (seen ids). \<not> OpTime_less (fold ?f ids lastOp) t) \<and> sameProtocol (fold ?f ids lastOp) lastOp"
    if "\<forall>(i, d)\<in>set ids. sameProtocol (hbOpTime d) lastOp" for ids :: "(nat \<times> MemberHeartbeatData) list"
    using that
  proof (induction ids rule: rev_induct)
    case (snoc id ids)
    obtain i d where id: "id = (i, d)" by (cases id)
    let ?t = "fold ?f ids lastOp"
    have IH: "?t \<in> insert lastOp (seen ids)" "\<forall>t\<in>insert lastOp (seen ids). \<not> OpTime_less ?t t" "sameProtocol ?t lastOp"
      using snoc by auto
    have same: "sameProtocol (hbOpTime d) lastOp" "\<forall>t\<in>insert lastOp (seen ids). sameProtocol t lastOp"
      using snoc.prems id by (auto simp: seen_def sameProtocol_def)
    have new: "seen (ids @ [id]) = (if int i = tcSelfIndex s \<or> \<not> up d \<or> hbState d = RS_REMOVED then seen ids
        else insert (hbOpTime d) (seen ids))" using id by (auto simp: seen_def)
    have step: "\<not> OpTime_less (hbOpTime d) t" if "OpTime_less ?t (hbOpTime d)" "t \<in> insert lastOp (seen ids)" for t
      using OpTime_trans [OF that(1), of t] IH(2,3) same that(2) by (auto simp: sameProtocol_def)
    show ?case using IH same step id unfolding new by (auto simp: OpTime_greater_iff)
  qed (simp add: seen_def sameProtocol_def)
  have len: "length (tcHbdata s) = length (members (tcConfig s))"
    using tc_reachable_inv [OF assms(1)] by (simp add: tc_inv_def config_inv_def)
  have "\<forall>(i, d)\<in>set (indexed s). sameProtocol (hbOpTime d) lastOp" using assms(2) by (auto simp: indexed_iff)
  moreover have "seen (indexed s) = others" using len by (auto simp: seen_def others_def indexed_iff)
  ultimately show ?thesis using fold [of "indexed s"] by (simp add: latestKnownOpTime_def OpTime_greater_iff)
qed

theorem latest_optime_spec_witness:
  "tc_reachable noDate sampleFollower \<and> list_all (\<lambda>d. sameProtocol (hbOpTime d) (sampleOp 5)) (tcHbdata sampleFollower) \<and>
   latestKnownOpTime (sampleOp 5) sampleFollower = sampleOp 9 \<and> \<not> OpTime_greater (sampleOp 5) (sampleOp 9)"
proof -
  have "\<forall>d\<in>set (tcHbdata sampleFollower). sameProtocol (hbOpTime d) (sampleOp 5)"
    "latestKnownOpTime (sampleOp 5) sampleFollower = sampleOp 9"
    by (unfold sampleFollower_def, use follower_run in \<open>auto split: option.splits\<close>)
  then show ?thesis using latest_optime_spec [OF samples_reachable(1), of "sampleOp 5"] samples_reachable(1)
    by (auto simp: list_all_iff)
qed

text \<open>C24: A secondary that may chain and has no requested source chooses the suitable member with the least ping, first
  among the members that are visible, not too delayed and not too far behind the primary, and only if there is
  none among the others; if nobody is suitable it has no source. A suitable member is up, readable, ahead of this member,
  not blacklisted, and votes and builds indexes if this member does.\<close>

theorem sync_source_spec:
  assumes "tc_reachable isoDate s" and "tcRole s \<noteq> Leader" and "tcSelfIndex s \<noteq> - 1" and "tcForceSyncSourceIndex s = - 1"
    and "needMorePings s \<le> 0" and "chainingAllowed (tcConfig s)"
  shows "\<exists>oldest h s'. oldestSyncOpTime s = Some oldest \<and> chooseNewSyncSource now ts s = Some (h, s') \<and>
    tcSyncSource s' = h \<and> best_source now ts oldest s h"
proof -
  have inv: "tc_inv s" using assms(1) by (rule tc_reachable_inv)
  obtain oldest where oldest: "oldestSyncOpTime s = Some oldest" using oldestSyncOpTime_Some [OF inv] by blast
  from chooseNewSyncSource_scan [OF inv assms(2-6) oldest, of now ts] obtain x where
    "chooseNewSyncSource now ts s = Some x" "case x of (h, s') \<Rightarrow> tc_inv s' \<and> tcSyncSource s' = h \<and> best_source now ts oldest s h"
    by (rule returnsE)
  then show ?thesis using oldest by (cases x) auto
qed

text \<open>Two heartbeats of each member make enough pings.\<close>

definition sampleSynced :: TopologyCoordinator where
  "sampleSynced = the (sampleRun (sampleJoin 1 @ sampleBeat 1000 ''a'' RS_PRIMARY 9 @ sampleBeat 2000 ''c'' RS_ARBITER 0 @
     sampleBeat 3000 ''a'' RS_PRIMARY 9 @ sampleBeat 4000 ''c'' RS_ARBITER 0))"

lemma synced_run:
  "case sampleRun (sampleJoin 1 @ sampleBeat 1000 ''a'' RS_PRIMARY 9 @ sampleBeat 2000 ''c'' RS_ARBITER 0 @
     sampleBeat 3000 ''a'' RS_PRIMARY 9 @ sampleBeat 4000 ''c'' RS_ARBITER 0) of None \<Rightarrow> False
   | Some s \<Rightarrow> tcRole s \<noteq> Leader \<and> tcSelfIndex s \<noteq> - 1 \<and> tcForceSyncSourceIndex s = - 1 \<and> needMorePings s \<le> 0 \<and>
       chainingAllowed (tcConfig s) \<and>
       map_option fst (chooseNewSyncSource 5000 (Timestamp 5 0) s) = Some (HostAndPort ''a'' 1)"
  by code_simp

theorem sync_source_spec_witness:
  "tc_reachable noDate sampleSynced \<and> tcRole sampleSynced \<noteq> Leader \<and> tcSelfIndex sampleSynced \<noteq> - 1 \<and>
   tcForceSyncSourceIndex sampleSynced = - 1 \<and> needMorePings sampleSynced \<le> 0 \<and> chainingAllowed (tcConfig sampleSynced) \<and>
   (\<exists>oldest s'. oldestSyncOpTime sampleSynced = Some oldest \<and>
      chooseNewSyncSource 5000 (Timestamp 5 0) sampleSynced = Some (HostAndPort ''a'' 1, s') \<and>
      best_source 5000 (Timestamp 5 0) oldest sampleSynced (HostAndPort ''a'' 1))"
proof -
  have pre: "tcRole sampleSynced \<noteq> Leader" "tcSelfIndex sampleSynced \<noteq> - 1" "tcForceSyncSourceIndex sampleSynced = - 1"
    "needMorePings sampleSynced \<le> 0" "chainingAllowed (tcConfig sampleSynced)"
    and reach: "tc_reachable noDate sampleSynced"
    and h: "map_option fst (chooseNewSyncSource 5000 (Timestamp 5 0) sampleSynced) = Some (HostAndPort ''a'' 1)"
    unfolding sampleSynced_def using synced_run by (auto split: option.splits intro!: sampleRun_reachable)
  show ?thesis using sync_source_spec [OF reach pre, of 5000 "Timestamp 5 0"] reach pre h by auto
qed

lemma ex_inRange: "(\<exists>i. inRange s i \<and> P i) \<longleftrightarrow> (\<exists>i<length (members (tcConfig s)). P (int i))"
  unfolding inRange_def by (metis nonneg_int_cases of_nat_0_le_iff of_nat_less_iff)

lemma canStepDownFrom_iff:
  assumes "config_inv s" and "\<forall>i\<in>set is. inRange s (int i)"
  shows "canStepDownFrom lastOp s is = Some (\<exists>i\<in>set is. int i \<noteq> tcSelfIndex s \<and>
    getUnelectableReason (int i) lastOp s = Some 0 \<and> OpTime_ge (hbOpTime (tcHbdata s ! i)) lastOp)"
  using assms(2)
proof (induction "is")
  case (Cons i "is")
  have i: "inRange s (int i)" using Cons.prems by simp
  show ?case
  proof (cases "int i = tcSelfIndex s")
    case False
    obtain r where "getUnelectableReason (int i) lastOp s = Some r"
      using getUnelectableReason_Some [OF assms(1) i False] by blast
    then show ?thesis using False Cons hbdataAt_inRange [OF assms(1) i] by auto
  qed (use Cons in simp)
qed simp

text \<open>C25: An unforced step down succeeds exactly if another member is electable and has caught up. After a step down the
  member follows, knows of no primary, and may not be elected again before the given time; otherwise nothing changes.\<close>

theorem step_down_spec:
  assumes "tc_reachable isoDate s" and "tcRole s = Leader"
  shows "\<exists>done s'. stepDown until force lastOp s = Some (done, s') \<and>
    (done \<longleftrightarrow> force \<or> (\<exists>i. inRange s i \<and> i \<noteq> tcSelfIndex s \<and> getUnelectableReason i lastOp s = Some 0 \<and>
       OpTime_ge (hbOpTime (tcHbdata s ! nat i)) lastOp)) \<and>
    (if done then tcRole s' = Follower \<and> tcCurrentPrimaryIndex s' = - 1 \<and> tcStepDownUntil s' = until \<and>
       (\<forall>now < until. \<not> i_am_electable now lastOp s') else s' = s)"
proof -
  let ?n = "length (members (tcConfig s))"
  have inv: "tc_inv s" using assms(1) by (rule tc_reachable_inv)
  have can: "canStepDownFrom lastOp s [0..<?n] = Some (\<exists>i. inRange s i \<and> i \<noteq> tcSelfIndex s \<and>
      getUnelectableReason i lastOp s = Some 0 \<and> OpTime_ge (hbOpTime (tcHbdata s ! nat i)) lastOp)"
    unfolding canStepDownFrom_iff [OF tc_invD(1) [OF inv] upt_inRange]
    unfolding ex_inRange by auto
  have leader: "tcSelfIndex s \<noteq> - 1" "tcSelfIndex s = tcCurrentPrimaryIndex s" using inv assms(2) by (auto simp: tc_inv_def role_inv_def)
  show ?thesis using can assms(2) leader
    by (auto simp: stepDown_def stepDownSelfAndReplaceWith_def i_am_electable_def)
qed

theorem step_down_spec_witness:
  "tc_reachable noDate sampleLeader \<and> tcRole sampleLeader = Leader \<and>
   (\<exists>s'. stepDown 60000 False (sampleOp 5) sampleLeader = Some (True, s') \<and> tcRole s' = Follower \<and>
      \<not> i_am_electable 59999 (sampleOp 5) s') \<and>
   stepDown 60000 False (sampleOp 6) sampleLeader = Some (False, sampleLeader)"
proof -
  have "map_option fst (stepDown 60000 False (sampleOp 5) sampleLeader) = Some True"
    by (unfold sampleLeader_def, use leader_run in \<open>auto split: option.splits\<close>)
  then have "\<exists>s'. stepDown 60000 False (sampleOp 5) sampleLeader = Some (True, s') \<and> tcRole s' = Follower \<and>
      \<not> i_am_electable 59999 (sampleOp 5) s'"
    using step_down_spec [OF samples_reachable(2) samples_facts(4), of 60000 False "sampleOp 5"] by auto

  moreover have "map_option fst (stepDown 60000 False (sampleOp 6) sampleLeader) = Some False"
    by (unfold sampleLeader_def, use leader_run in \<open>auto split: option.splits\<close>)
  then have "stepDown 60000 False (sampleOp 6) sampleLeader = Some (False, sampleLeader)"
    using step_down_spec [OF samples_reachable(2) samples_facts(4), of 60000 False "sampleOp 6"] by auto
  ultimately show ?thesis using samples_reachable(2) samples_facts(4) by blast
qed

subsection \<open>Reconfiguration\<close>

definition sameMember :: "MemberConfig \<Rightarrow> MemberConfig \<Rightarrow> bool" where
  "sameMember m m' \<longleftrightarrow> mcId m = mcId m' \<and> HostAndPort_eq (mcHost m) (mcHost m')"

lemma oldHeartbeatData_spec:
  assumes "config_inv s" and "oldHeartbeatData s m = Some d"
  shows "(\<forall>j<length (members (tcConfig s)). sameMember (members (tcConfig s) ! j) m \<longrightarrow> d = tcHbdata s ! j) \<and>
    ((\<forall>m'\<in>set (members (tcConfig s)). \<not> sameMember m' m) \<longrightarrow> d = newHeartbeatData)"
proof -
  have ids: "distinct (map mcId (members (tcConfig s)))" "length (tcHbdata s) = length (members (tcConfig s))"
    using assms(1) by (simp_all add: config_inv_def)
  have unique: "j = k" if "j < length (members (tcConfig s))" "k < length (members (tcConfig s))"
      "mcId (members (tcConfig s) ! j) = mcId (members (tcConfig s) ! k)" for j k
    using that ids(1) nth_eq_iff_index_eq [of "map mcId (members (tcConfig s))" j k] by simp
  show ?thesis
  proof (cases rule: indexOrNone_cases [of "\<lambda>m'. mcId m' = mcId m \<and> HostAndPort_eq (mcHost m') (mcHost m)" "members (tcConfig s)"])
    case none
    then show ?thesis using assms(2) by (auto simp: oldHeartbeatData_def sameMember_def)
  next
    case (found j)
    then have "d = tcHbdata s ! j" using assms(2) ids(2) by (auto simp: oldHeartbeatData_def hbdataAt_def split: if_splits)
    moreover have "k = j" if "k < length (members (tcConfig s))" "sameMember (members (tcConfig s) ! k) m" for k
      using that found(3) unique [OF that(1) found(2)] by (simp add: sameMember_def)
    moreover have "sameMember (members (tcConfig s) ! j) m" using found(3) by (simp add: sameMember_def)
    ultimately show ?thesis using nth_mem [OF found(2)] by blast
  qed
qed

text \<open>C26: A new configuration keeps what is known of every member that has the same id and host in both configurations, and
  knows nothing of the other members. A leader that is still an electable member stays leader.\<close>

theorem reconfig_keeps_heartbeats:
  assumes "tc_reachable isoDate s" and "installable c self s" and "tcRole s \<noteq> Candidate"
  shows "\<exists>s'. updateConfig c self s = Some s' \<and> tcConfig s' = c \<and> tcSelfIndex s' = self \<and>
    (\<forall>i j. i < length (members c) \<and> int i \<noteq> self \<and> j < length (members (tcConfig s)) \<and>
       sameMember (members (tcConfig s) ! j) (members c ! i) \<longrightarrow> tcHbdata s' ! i = tcHbdata s ! j) \<and>
    (\<forall>i<length (members c). int i \<noteq> self \<and> (\<forall>m\<in>set (members (tcConfig s)). \<not> sameMember m (members c ! i)) \<longrightarrow>
       tcHbdata s' ! i = newHeartbeatData) \<and>
    (tcRole s' = Leader \<longleftrightarrow> tcRole s = Leader \<and> self \<noteq> - 1 \<and> isElectable (members c ! nat self))"
proof -
  have inv: "config_inv s" using tc_reachable_inv [OF assms(1)] by (rule tc_invD)
  obtain ds t where ds: "length ds = length (members c)" "config_inv (reconfigured c self ds t s)"
      "\<forall>i<length (members c). int i \<noteq> self \<longrightarrow> oldHeartbeatData s (members c ! i) = Some (ds ! i)"
    and run: "updateConfig c self s = do {
       let s1 = reconfigured c self ds t s;
       stays \<leftarrow> (if tcRole s1 = Leader \<and> tcSelfIndex s1 \<noteq> - 1 then map_option isElectable (selfConfig s1) else Some False);
       if stays then Some (s1\<lparr>tcCurrentPrimaryIndex := tcSelfIndex s1\<rparr>)
       else do {
         let s2 = s1\<lparr>tcRole := Follower, tcCurrentPrimaryIndex := - 1\<rparr>;
         single \<leftarrow> (if tcFollowerMode s2 = RS_SECONDARY then singleElectableNode s2 else Some False);
         Some (if single then s2\<lparr>tcRole := Candidate\<rparr> else s2)
       }
     }" by (rule updateConfig_run [OF inv assms(2,3)])
  let ?s1 = "reconfigured c self ds t s"
  let ?s2 = "?s1\<lparr>tcRole := Follower, tcCurrentPrimaryIndex := - 1\<rparr>"
  have fields: "tcConfig ?s1 = c" "tcSelfIndex ?s1 = self" "tcHbdata ?s1 = ds" "tcRole ?s1 = tcRole s"
    by (simp_all add: reconfigured_def)
  obtain b where b: "singleElectableNode ?s2 = Some b" using singleElectableNode_Some by blast
  have me: "self \<noteq> - 1 \<Longrightarrow> selfConfig ?s1 = Some (members c ! nat self)" using selfConfig_Some [OF ds(2)] fields by simp
  define stays where "stays \<longleftrightarrow> tcRole s = Leader \<and> self \<noteq> - 1 \<and> isElectable (members c ! nat self)"
  have "\<exists>s'. updateConfig c self s = Some s' \<and> tcConfig s' = c \<and> tcSelfIndex s' = self \<and> tcHbdata s' = ds \<and>
      (tcRole s' = Leader \<longleftrightarrow> stays)" (is "\<exists>s'. ?P s'")
  proof (cases stays)
    case True
    then show ?thesis unfolding run using fields me by (simp add: stays_def Let_def)
  next
    case False
    then show ?thesis unfolding run using fields me b by (auto simp: stays_def Let_def)
  qed
  then obtain s' where s': "?P s'" ..
  have "tcHbdata s' ! i = tcHbdata s ! j" if "i < length (members c)" "int i \<noteq> self" "j < length (members (tcConfig s))"
      "sameMember (members (tcConfig s) ! j) (members c ! i)" for i j
    using oldHeartbeatData_spec [OF inv, of "members c ! i" "ds ! i"] ds(3) that s' by auto
  moreover have "tcHbdata s' ! i = newHeartbeatData" if "i < length (members c)" "int i \<noteq> self"
      "\<forall>m\<in>set (members (tcConfig s)). \<not> sameMember m (members c ! i)" for i
    using oldHeartbeatData_spec [OF inv, of "members c ! i" "ds ! i"] ds(3) that s' by auto
  ultimately show ?thesis using s' unfolding stays_def by blast
qed

theorem reconfig_keeps_heartbeats_witness:
  "let c = sampleSet\<lparr>cfgVersion := 2, members := rev (members sampleSet)\<rparr> in
   tc_reachable noDate sampleLeader \<and> installable c 2 sampleLeader \<and> tcRole sampleLeader \<noteq> Candidate \<and>
   (\<exists>s'. updateConfig c 2 sampleLeader = Some s' \<and> tcHbdata s' ! 1 = tcHbdata sampleLeader ! 1 \<and> tcRole s' = Leader)"
proof -
  define c where "c = sampleSet\<lparr>cfgVersion := 2, members := rev (members sampleSet)\<rparr>"
  have c: "installable c 2 sampleLeader" and same: "1 < length (members c)" "1 < length (members (tcConfig sampleLeader))"
    "sameMember (members (tcConfig sampleLeader) ! 1) (members c ! 1)" "isElectable (members c ! nat 2)"
    unfolding sampleLeader_def c_def using leader_run by (auto split: option.splits simp: Let_def sameMember_def)
  have role: "tcRole sampleLeader \<noteq> Candidate" using samples_facts(4) by simp
  have "\<exists>s'. updateConfig c 2 sampleLeader = Some s' \<and> tcHbdata s' ! 1 = tcHbdata sampleLeader ! 1 \<and> tcRole s' = Leader"
    using reconfig_keeps_heartbeats [OF samples_reachable(2) c role] same samples_facts(4) by auto
  then show ?thesis using samples_reachable(2) c role unfolding c_def Let_def by blast
qed

subsection \<open>Errors\<close>

text \<open>C28: Every freshness request is answered, whatever it says. The reply is an error exactly if the set does not use
  protocol version 0, this member is in no set or in another set, or the sender claims its own id. Otherwise it reports whether
  the configuration of the sender is stale, and a primary vetoes a candidate that it knows and that is not ahead of it.\<close>

theorem fresh_reply_spec:
  assumes "tc_reachable isoDate s"
  defines "own \<equiv> word_of_int (mcId (members (tcConfig s) ! nat (tcSelfIndex s)))"
  shows "\<exists>reply. prepareFreshResponse isoDate args now lastOp s = Some reply \<and>
    (case reply of
       Inl e \<Rightarrow> if protocolVersion (tcConfig s) \<noteq> 0 then e = BadValue
                else if tcSelfIndex s = - 1 \<or> faSetName args \<noteq> replSetName (tcConfig s) then e = ReplicaSetNotFound
                else e = BadValue \<and> faId args = own
     | Inr r \<Rightarrow> protocolVersion (tcConfig s) = 0 \<and> tcSelfIndex s \<noteq> - 1 \<and> faSetName args = replSetName (tcConfig s) \<and>
         faId args \<noteq> own \<and> frInfoStale r = (faCfgver args < cfgVersion (tcConfig s)) \<and>
         (let h = getMemberIndex (sint (faId args)) s
          in faCfgver args \<le> cfgVersion (tcConfig s) \<and> h \<noteq> - 1 \<and> tcRole s = Leader \<and>
             OpTime_ge lastOp (hbOpTime (tcHbdata s ! nat h)) \<longrightarrow> frVeto r = Some AlreadyPrimary))"
proof (cases "protocolVersion (tcConfig s) \<noteq> 0 \<or> tcSelfIndex s = - 1 \<or> faSetName args \<noteq> replSetName (tcConfig s)")
  case True
  then show ?thesis by (auto simp: prepareFreshResponse_def)
next
  case ok: False
  have inv: "tc_inv s" using assms(1) by (rule tc_reachable_inv)
  have me: "selfConfig s = Some (members (tcConfig s) ! nat (tcSelfIndex s))" using selfConfig_Some tc_invD(1) [OF inv] ok by blast
  show ?thesis
  proof (cases "faId args = own")
    case True
    then show ?thesis using ok me by (simp add: prepareFreshResponse_def own_def)
  next
    case False
    let ?h = "getMemberIndex (sint (faId args)) s"
    obtain v where v: "shouldVetoMember isoDate args now lastOp s = Some v"
      using shouldVetoMember_Some [OF inv] ok False own_def by blast
    have "v = Some AlreadyPrimary" if "faCfgver args \<le> cfgVersion (tcConfig s)" "?h \<noteq> - 1" "tcRole s = Leader"
        "OpTime_ge lastOp (hbOpTime (tcHbdata s ! nat ?h))"
      using v that find_inRange(2) [OF that(2)] hbdataAt_inRange [OF tc_invD(1) [OF inv]] iAmPrimary_Some [OF tc_invD(2) [OF inv]]
      by (auto simp: shouldVetoMember_def run_simps Let_def)
    then show ?thesis using ok me False v by (simp add: prepareFreshResponse_def own_def Let_def)
  qed
qed

theorem fresh_reply_spec_witness:
  "tc_reachable noDate sampleLeader \<and>
   (\<exists>r. prepareFreshResponse noDate \<lparr>faSetName = ''rs0'', faId = 1, faCfgver = 1, faOpTime = Timestamp 5 0\<rparr> 5000 (sampleOp 5) sampleLeader =
      Some (Inr r) \<and> frVeto r = Some AlreadyPrimary)"
proof -
  let ?args = "\<lparr>faSetName = ''rs0'', faId = 1, faCfgver = 1, faOpTime = Timestamp 5 0\<rparr>"
  have "protocolVersion (tcConfig sampleLeader) = 0" "replSetName (tcConfig sampleLeader) = ''rs0''" "cfgVersion (tcConfig sampleLeader) = 1"
    "mcId (members (tcConfig sampleLeader) ! 0) = 0" "getMemberIndex 1 sampleLeader = 1"
    "OpTime_ge (sampleOp 5) (hbOpTime (tcHbdata sampleLeader ! 1))"
    by (unfold sampleLeader_def, use leader_run in \<open>auto split: option.splits simp: Let_def\<close>)
  note facts = this samples_facts(4,5)
  obtain reply where reply: "prepareFreshResponse noDate ?args 5000 (sampleOp 5) sampleLeader = Some reply"
    "case reply of Inl e \<Rightarrow> False | Inr r \<Rightarrow> frVeto r = Some AlreadyPrimary"
    using fresh_reply_spec [OF samples_reachable(2), of ?args 5000 "sampleOp 5"] facts by (fastforce simp: Let_def split: sum.splits)
  then show ?thesis using samples_reachable(2) by (cases reply) auto
qed


end
