(* ===== verification/ScatterGather.thy ===== *)
theory ScatterGather
  imports ReplConfig "HOL-Library.Multiset"
begin

text \<open>
  The runner of \<^verbatim>\<open>src/src/mongo/db/repl/scatter_gather_runner.cpp\<close>, which sends one request to each target of an
  algorithm and passes the responses on until the algorithm has enough of them.

  The abstract class \<open>ScatterGatherAlgorithm\<close> is a record of its virtual functions; the locale \<open>scatter_gather\<close> states
  what the runner relies on, and shows that it never fails its invariants, signals completion exactly
  once, and has signalled it when every request is answered. The algorithms of the elections and of the
  quorum check interpret it.
\<close>

subsection \<open>Algorithms\<close>

record 'c RemoteCommandRequest =
  rqTarget :: HostAndPort
  rqCommand :: 'c
  rqTimeout :: Milliseconds

type_synonym 'r ResponseStatus = "ErrorCode + 'r"

record ('s, 'c, 'r) ScatterGatherAlgorithm =
  sgGetRequests :: "'s \<Rightarrow> 'c RemoteCommandRequest list option"
  sgProcessResponse :: "'c RemoteCommandRequest \<Rightarrow> 'r ResponseStatus \<Rightarrow> 's \<Rightarrow> 's option"
  sgHasReceivedSufficientResponses :: "'s \<Rightarrow> bool"

subsection \<open>The runner\<close>

text \<open>
  \<open>srPending\<close> says that the event \<open>_sufficientResponsesReceived\<close> is valid; a callback handle is its request.
  The number of calls of \<open>_onCompletion\<close> is counted.
\<close>

record ('s, 'c) ScatterGatherRunner =
  srAlgorithm :: 's
  srStarted :: bool
  srActualResponses :: nat
  srCallbacks :: "'c RemoteCommandRequest list"
  srPending :: bool
  srCompletions :: nat

definition newRunner :: "'s \<Rightarrow> ('s, 'c) ScatterGatherRunner" where
  "newRunner a = \<lparr>srAlgorithm = a, srStarted = False, srActualResponses = 0, srCallbacks = [], srPending = False, srCompletions = 0\<rparr>"

definition signalSufficientResponsesReceived :: "('s, 'c) ScatterGatherRunner \<Rightarrow> ('s, 'c) ScatterGatherRunner" where
  "signalSufficientResponsesReceived r =
     (if srPending r then r\<lparr>srPending := False, srCompletions := Suc (srCompletions r)\<rparr> else r)"

text \<open>The executor may refuse the event or, from some request on, the requests; both happen at shutdown.\<close>

definition runner_start ::
  "('s, 'c, 'r) ScatterGatherAlgorithm \<Rightarrow> bool \<Rightarrow> ('c RemoteCommandRequest \<Rightarrow> bool) \<Rightarrow> ('s, 'c) ScatterGatherRunner \<Rightarrow>
     (Status \<times> ('s, 'c) ScatterGatherRunner) option" where
  "runner_start A makesEvent accepts r = do {
     invariant (\<not> srStarted r);
     let r = r\<lparr>srStarted := True, srActualResponses := 0\<rparr>;
     if \<not> makesEvent then Some (StatusError ShutdownInProgress, r)
     else do {
       let r = r\<lparr>srPending := True\<rparr>;
       requests \<leftarrow> sgGetRequests A (srAlgorithm r);
       let r = r\<lparr>srCallbacks := takeWhile accepts requests\<rparr>;
       if length (srCallbacks r) < length requests
       then Some (StatusError ShutdownInProgress, signalSufficientResponsesReceived r)
       else if srCallbacks r = [] \<or> sgHasReceivedSufficientResponses A (srAlgorithm r) then do {
         invariant (sgHasReceivedSufficientResponses A (srAlgorithm r));
         Some (StatusOK, signalSufficientResponsesReceived r)
       }
       else Some (StatusOK, r)
     }
   }"

definition runner_cancel :: "('s, 'c) ScatterGatherRunner \<Rightarrow> ('s, 'c) ScatterGatherRunner option" where
  "runner_cancel r = do {
     invariant (srStarted r);
     Some (signalSufficientResponsesReceived r)
   }"

definition runner_processResponse ::
  "('s, 'c, 'r) ScatterGatherAlgorithm \<Rightarrow> 'c RemoteCommandRequest \<Rightarrow> 'r ResponseStatus \<Rightarrow> ('s, 'c) ScatterGatherRunner \<Rightarrow>
     ('s, 'c) ScatterGatherRunner option" where
  "runner_processResponse A request response r =
     (case response of
        Inl CallbackCanceled \<Rightarrow> Some r
      | _ \<Rightarrow> do {
          let r = r\<lparr>srActualResponses := Suc (srActualResponses r)\<rparr>;
          a \<leftarrow> sgProcessResponse A request response (srAlgorithm r);
          let r = r\<lparr>srAlgorithm := a\<rparr>;
          if sgHasReceivedSufficientResponses A a then Some (signalSufficientResponsesReceived r)
          else do {
            invariant (srActualResponses r < length (srCallbacks r));
            Some r
          }
        })"

text \<open>The executor runs the callbacks in the order of the responses; once the event is signalled the others are canceled.\<close>

fun deliver ::
  "('s, 'c, 'r) ScatterGatherAlgorithm \<Rightarrow> ('c RemoteCommandRequest \<times> 'r ResponseStatus) list \<Rightarrow> ('s, 'c) ScatterGatherRunner \<Rightarrow>
     ('s, 'c) ScatterGatherRunner option" where
  "deliver A [] r = Some r"
| "deliver A ((request, response) # rs) r = do {
     r \<leftarrow> runner_processResponse A request (if srPending r then response else Inl CallbackCanceled) r;
     deliver A rs r
   }"

text \<open>What the algorithm sees of the responses.\<close>

fun gather ::
  "('s, 'c, 'r) ScatterGatherAlgorithm \<Rightarrow> ('c RemoteCommandRequest \<times> 'r ResponseStatus) list \<Rightarrow> 's \<Rightarrow> 's option" where
  "gather A [] a = Some a"
| "gather A ((request, response) # rs) a =
     (if sgHasReceivedSufficientResponses A a then Some a
      else do {
        a \<leftarrow> sgProcessResponse A request response a;
        gather A rs a
      })"

text \<open>The responses are processed one by one, as long as there are not enough of them.\<close>

fun absorb ::
  "('s, 'c, 'r) ScatterGatherAlgorithm \<Rightarrow> ('c RemoteCommandRequest \<times> 'r ResponseStatus) list \<Rightarrow> 's \<Rightarrow> 's option" where
  "absorb A [] a = Some a"
| "absorb A ((request, response) # rs) a = do {
     a \<leftarrow> sgProcessResponse A request response a;
     absorb A rs a
   }"

lemma gather_prefix:
  "gather A rs a = Some a' \<Longrightarrow> \<exists>k\<le>length rs. absorb A (take k rs) a = Some a' \<and>
     (k < length rs \<longrightarrow> sgHasReceivedSufficientResponses A a')"
proof (induction rs arbitrary: a)
  case (Cons x rs)
  obtain req resp where x: "x = (req, resp)" by (cases x)
  show ?case
  proof (cases "sgHasReceivedSufficientResponses A a")
    case True
    then show ?thesis using Cons.prems x by (intro exI [of _ 0]) auto
  next
    case False
    then obtain b where b: "sgProcessResponse A req resp a = Some b" "gather A rs b = Some a'"
      using Cons.prems x by (auto simp: bind_eq_Some_conv)
    obtain k where "k \<le> length rs" "absorb A (take k rs) b = Some a'" "k < length rs \<longrightarrow> sgHasReceivedSufficientResponses A a'"
      using Cons.IH [OF b(2)] by blast
    then show ?thesis using b(1) x by (intro exI [of _ "Suc k"]) auto
  qed
qed auto

lemma takeWhile_True: "takeWhile (\<lambda>_. True) xs = xs"
  by (induction xs) auto

lemma deliver_canceled: "\<not> srPending r \<Longrightarrow> deliver A rs r = Some r"
  by (induction rs) (auto simp: runner_processResponse_def)

lemma gather_enough: "sgHasReceivedSufficientResponses A a \<Longrightarrow> gather A rs a = Some a"
  by (cases rs) auto

subsection \<open>The contract of an algorithm\<close>

text \<open>
  \<open>ready\<close> holds for a new algorithm, \<open>ok reqs k\<close> after \<open>k\<close> responses to the requests \<open>reqs\<close>: an algorithm accepts
  every valid response to one of its requests, and does not ask for more than one response to each request.
\<close>

locale scatter_gather =
  fixes A :: "('s, 'c, 'r) ScatterGatherAlgorithm" and valid :: "'r ResponseStatus \<Rightarrow> bool" and ready :: "'s \<Rightarrow> bool"
    and ok :: "'c RemoteCommandRequest list \<Rightarrow> nat \<Rightarrow> 's \<Rightarrow> bool"
  assumes requests: "ready a \<Longrightarrow> \<exists>reqs. sgGetRequests A a = Some reqs \<and> ok reqs 0 a"
    and process: "ok reqs k a \<Longrightarrow> \<not> sgHasReceivedSufficientResponses A a \<Longrightarrow> req \<in> set reqs \<Longrightarrow> valid resp \<Longrightarrow>
      \<exists>a'. sgProcessResponse A req resp a = Some a' \<and> ok reqs (Suc k) a'"
    and enough: "ok reqs (length reqs) a \<Longrightarrow> sgHasReceivedSufficientResponses A a"
begin

lemma gather_run:
  assumes "ok reqs k a" and "\<forall>(req, resp)\<in>set rs. req \<in> set reqs \<and> valid resp" and "k + length rs \<le> length reqs"
  shows "\<exists>a'. gather A rs a = Some a' \<and>
    (sgHasReceivedSufficientResponses A a' \<or> ok reqs (k + length rs) a')"
  using assms
proof (induction rs arbitrary: a k)
  case (Cons x rs)
  obtain req resp where x: "x = (req, resp)" by (cases x)
  show ?case
  proof (cases "sgHasReceivedSufficientResponses A a")
    case False
    obtain a1 where "sgProcessResponse A req resp a = Some a1" "ok reqs (Suc k) a1"
      using process [OF Cons.prems(1) False] Cons.prems(2) x by fastforce
    then show ?thesis using Cons.IH [of "Suc k" a1] Cons.prems x False by simp
  qed (use x in simp)
qed simp

lemma deliver_run:
  assumes "ok (srCallbacks r) (srActualResponses r) (srAlgorithm r)" and "\<forall>(req, resp)\<in>set rs. req \<in> set (srCallbacks r) \<and> valid resp"
    and "srActualResponses r + length rs \<le> length (srCallbacks r)" and "\<forall>(req, resp)\<in>set rs. resp \<noteq> Inl CallbackCanceled"
    and "srPending r" and "\<not> sgHasReceivedSufficientResponses A (srAlgorithm r)"
  shows "\<exists>r'. deliver A rs r = Some r' \<and> gather A rs (srAlgorithm r) = Some (srAlgorithm r') \<and>
    srPending r' = (\<not> sgHasReceivedSufficientResponses A (srAlgorithm r')) \<and>
    srCompletions r' = srCompletions r + (if srPending r' then 0 else 1)"
  using assms
proof (induction rs arbitrary: r)
  case (Cons x rs)
  obtain req resp where x: "x = (req, resp)" by (cases x)
  let ?r = "r\<lparr>srActualResponses := Suc (srActualResponses r)\<rparr>"
  obtain a where a: "sgProcessResponse A req resp (srAlgorithm r) = Some a" "ok (srCallbacks r) (Suc (srActualResponses r)) a"
    using process [OF Cons.prems(1,6)] Cons.prems(2) x by fastforce
  have split: "runner_processResponse A req resp r = do {
      let r = ?r\<lparr>srAlgorithm := a\<rparr>;
      if sgHasReceivedSufficientResponses A a then Some (signalSufficientResponsesReceived r)
      else do { invariant (srActualResponses r < length (srCallbacks r)); Some r } }"
    using Cons.prems(4) x a(1) by (auto simp: runner_processResponse_def Let_def split: sum.split ErrorCode.split)
  show ?case
  proof (cases "sgHasReceivedSufficientResponses A a")
    case True
    show ?thesis using True split x Cons.prems(5,6) a(1)
      by (simp add: signalSufficientResponsesReceived_def Let_def deliver_canceled gather_enough)
  next
    case False
    then have "Suc (srActualResponses r) \<noteq> length (srCallbacks r)" using enough [of "srCallbacks r" a] a(2) by auto
    then have "Suc (srActualResponses r) < length (srCallbacks r)" using Cons.prems(3) by simp
    then show ?thesis
      using Cons.IH [of "?r\<lparr>srAlgorithm := a\<rparr>"] Cons.prems a False split x by (simp add: Let_def)
  qed
qed simp

text \<open>The requests answered once each, in any order.\<close>

theorem completes:
  assumes "ready a" and "\<forall>(req, resp)\<in>set rs. resp \<noteq> Inl CallbackCanceled \<and> valid resp"
    and reqs: "sgGetRequests A a = Some reqs" and "mset (map fst rs) = mset reqs"
  shows "\<exists>r r'. runner_start A True (\<lambda>_. True) (newRunner a) = Some (StatusOK, r) \<and> deliver A rs r = Some r' \<and>
    \<not> srPending r' \<and> srCompletions r' = 1 \<and> gather A rs a = Some (srAlgorithm r') \<and>
    sgHasReceivedSufficientResponses A (srAlgorithm r')"
proof -
  have ok: "ok reqs 0 a" using requests [OF assms(1)] reqs by auto
  have len: "length rs = length reqs" using arg_cong [OF assms(4), of size] by simp
  have "fst ` set rs = set reqs" using arg_cong [OF assms(4), of set_mset] by simp
  then have mem: "\<forall>(req, resp)\<in>set rs. req \<in> set reqs \<and> valid resp" using assms(2) by force
  have uncanceled: "\<forall>(req, resp)\<in>set rs. resp \<noteq> Inl CallbackCanceled" using assms(2) by auto
  show ?thesis
  proof (cases "sgHasReceivedSufficientResponses A a")
    case True
    then show ?thesis using reqs
      by (simp add: runner_start_def newRunner_def signalSufficientResponsesReceived_def Let_def deliver_canceled gather_enough takeWhile_True)
  next
    case False
    then have nonempty: "reqs \<noteq> []" using ok enough [of reqs a] by (cases reqs) auto
    let ?r = "(newRunner a)\<lparr>srStarted := True, srPending := True, srCallbacks := reqs\<rparr>"
    have start: "runner_start A True (\<lambda>_. True) (newRunner a) = Some (StatusOK, ?r)"
      using False reqs nonempty by (simp add: runner_start_def newRunner_def Let_def takeWhile_True)
    obtain r' where r': "deliver A rs ?r = Some r'" "gather A rs a = Some (srAlgorithm r')"
      "srPending r' = (\<not> sgHasReceivedSufficientResponses A (srAlgorithm r'))" "srCompletions r' = (if srPending r' then 0 else 1)"
      using deliver_run [of ?r rs] ok mem len uncanceled False by (auto simp: newRunner_def)
    have "sgHasReceivedSufficientResponses A (srAlgorithm r')"
      using gather_run [OF ok mem] r'(2) len enough by auto
    then show ?thesis using start r' by auto
  qed
qed

end

end
