(* ===== verification/QuorumCheck.thy ===== *)
theory QuorumCheck
  imports ScatterGather TopologyCoord WriteConcern
begin

text \<open>
  The quorum check of a new configuration, \<^verbatim>\<open>src/src/mongo/db/repl/check_quorum_for_config_change.cpp\<close>: before
  \<open>replSetInitiate\<close> and \<open>replSetReconfig\<close> install a configuration, its members are asked whether they accept it. It
  interprets the contract of \<open>ScatterGather\<close>; the lemmas say which members must have accepted for the check to succeed.
\<close>

subsection \<open>The checker\<close>

record QuorumChecker =
  qcConfig :: ReplicaSetConfig
  qcMyIndex :: int
  qcVoters :: "HostAndPort list"
  qcBadResponses :: "(HostAndPort \<times> Status) list"
  qcNumResponses :: int
  qcNumElectable :: int
  qcVetoStatus :: Status
  qcFinalStatus :: Status

text \<open>What \<open>ReplSetHeartbeatResponse::initialize\<close> makes of the answer: its status, and the object with its \<open>_hasData\<close>.\<close>

record QuorumResponse =
  qrStatus :: Status
  qrResponse :: ReplSetHeartbeatResponse
  qrHasData :: bool

definition quorum_hasReceivedSufficientResponses :: "QuorumChecker \<Rightarrow> bool" where
  "quorum_hasReceivedSufficientResponses q \<longleftrightarrow>
     (if qcVetoStatus q \<noteq> StatusOK \<or> qcNumResponses q = getNumMembers (qcConfig q) then True
      else if cfgVersion (qcConfig q) = 1 then False
      else if qcNumElectable q = 0 then False
      else if int (length (qcVoters q)) < majorityVoteCount (qcConfig q) then False
      else True)"

definition onQuorumCheckComplete :: "QuorumChecker \<Rightarrow> QuorumChecker" where
  "onQuorumCheckComplete q =
     (if qcVetoStatus q \<noteq> StatusOK then q\<lparr>qcFinalStatus := qcVetoStatus q\<rparr>
      else if cfgVersion (qcConfig q) = 1 \<and> qcBadResponses q \<noteq> [] then q\<lparr>qcFinalStatus := StatusError NodeNotFound\<rparr>
      else if qcNumElectable q = 0 then q\<lparr>qcFinalStatus := StatusError NodeNotFound\<rparr>
      else if int (length (qcVoters q)) < majorityVoteCount (qcConfig q) then q\<lparr>qcFinalStatus := StatusError NodeNotFound\<rparr>
      else q\<lparr>qcFinalStatus := StatusOK\<rparr>)"

definition newQuorumChecker :: "ReplicaSetConfig \<Rightarrow> int \<Rightarrow> QuorumChecker option" where
  "newQuorumChecker rsConfig myIndex = do {
     invariant (myIndex < getNumMembers rsConfig);
     myConfig \<leftarrow> getMemberAt rsConfig myIndex;
     let q = \<lparr>qcConfig = rsConfig, qcMyIndex = myIndex, qcVoters = if isVoter myConfig then [mcHost myConfig] else [],
                qcBadResponses = [], qcNumResponses = 1, qcNumElectable = if isElectable myConfig then 1 else 0,
                qcVetoStatus = StatusOK, qcFinalStatus = StatusError CallbackCanceled\<rparr>;
     Some (if quorum_hasReceivedSufficientResponses q then onQuorumCheckComplete q else q)
   }"

definition quorum_getRequests :: "QuorumChecker \<Rightarrow> ReplSetHeartbeatArgs RemoteCommandRequest list option" where
  "quorum_getRequests q = do {
     let isInitialConfig = (cfgVersion (qcConfig q) = 1);
     myConfig \<leftarrow> getMemberAt (qcConfig q) (qcMyIndex q);
     if quorum_hasReceivedSufficientResponses q then Some []
     else do {
       let hbArgs = newHeartbeatArgs\<lparr>haSetName := replSetName (qcConfig q), haProtocolVersion := 1,
             haConfigVersion := cfgVersion (qcConfig q), haCheckEmpty := isInitialConfig,
             haSenderHost := mcHost myConfig, haSenderId := mcId myConfig\<rparr>;
       Some (map (\<lambda>i. \<lparr>rqTarget = mcHost (members (qcConfig q) ! i), rqCommand = hbArgs,
                        rqTimeout = heartbeatTimeoutPeriod (qcConfig q)\<rparr>)
               (filter (\<lambda>i. qcMyIndex q \<noteq> int i) [0..<length (members (qcConfig q))]))
     }
   }"

definition tabulateHeartbeatResponse ::
  "ReplSetHeartbeatArgs RemoteCommandRequest \<Rightarrow> QuorumResponse ResponseStatus \<Rightarrow> QuorumChecker \<Rightarrow> QuorumChecker option" where
  "tabulateHeartbeatResponse request response q =
     (let q = q\<lparr>qcNumResponses := qcNumResponses q + 1\<rparr> in
      case response of
        Inl e \<Rightarrow> Some (q\<lparr>qcBadResponses := qcBadResponses q @ [(rqTarget request, StatusError e)]\<rparr>)
      | Inr r \<Rightarrow>
          if qrStatus r = StatusError InconsistentReplicaSetNames
          then Some (q\<lparr>qcVetoStatus := StatusError NewReplicaSetConfigurationIncompatible\<rparr>)
          else if qrStatus r \<noteq> StatusOK \<and> qrStatus r \<noteq> StatusError InvalidReplicaSetConfig
          then Some (q\<lparr>qcBadResponses := qcBadResponses q @ [(rqTarget request, qrStatus r)]\<rparr>)
          else if rspSetName (qrResponse r) \<noteq> '''' \<and> rspConfigVersion (qrResponse r) \<ge> cfgVersion (qcConfig q)
          then Some (q\<lparr>qcVetoStatus := StatusError NewReplicaSetConfigurationIncompatible\<rparr>)
          else if cfgVersion (qcConfig q) = 1 \<and> qrHasData r
          then Some (q\<lparr>qcVetoStatus := StatusError CannotInitializeNodeWithData\<rparr>)
          else do {
            memberConfig \<leftarrow> find (\<lambda>m. HostAndPort_eq (mcHost m) (rqTarget request)) (members (qcConfig q));
            Some (q\<lparr>qcNumElectable := qcNumElectable q + (if isElectable memberConfig then 1 else 0),
                    qcVoters := qcVoters q @ (if isVoter memberConfig then [rqTarget request] else [])\<rparr>)
          })"

definition quorum_processResponse ::
  "ReplSetHeartbeatArgs RemoteCommandRequest \<Rightarrow> QuorumResponse ResponseStatus \<Rightarrow> QuorumChecker \<Rightarrow> QuorumChecker option" where
  "quorum_processResponse request response q = do {
     q \<leftarrow> tabulateHeartbeatResponse request response q;
     Some (if quorum_hasReceivedSufficientResponses q then onQuorumCheckComplete q else q)
   }"

definition quorumAlgorithm :: "(QuorumChecker, ReplSetHeartbeatArgs, QuorumResponse) ScatterGatherAlgorithm" where
  "quorumAlgorithm = \<lparr>sgGetRequests = quorum_getRequests, sgProcessResponse = quorum_processResponse,
     sgHasReceivedSufficientResponses = quorum_hasReceivedSufficientResponses\<rparr>"

text \<open>
  The runner is run to its end: the responses arrive in the order of \<open>rs\<close>, and the caller waits for the event.
\<close>

definition checkQuorumGeneral ::
  "(ReplSetHeartbeatArgs RemoteCommandRequest \<times> QuorumResponse ResponseStatus) list \<Rightarrow> bool \<Rightarrow>
     (ReplSetHeartbeatArgs RemoteCommandRequest \<Rightarrow> bool) \<Rightarrow> ReplicaSetConfig \<Rightarrow> int \<Rightarrow> Status option" where
  "checkQuorumGeneral rs makesEvent accepts rsConfig myIndex = do {
     checker \<leftarrow> newQuorumChecker rsConfig myIndex;
     (status, runner) \<leftarrow> runner_start quorumAlgorithm makesEvent accepts (newRunner checker);
     if status \<noteq> StatusOK then Some status
     else do {
       runner \<leftarrow> deliver quorumAlgorithm rs runner;
       Some (qcFinalStatus (srAlgorithm runner))
     }
   }"

definition checkQuorumForInitiate ::
  "(ReplSetHeartbeatArgs RemoteCommandRequest \<times> QuorumResponse ResponseStatus) list \<Rightarrow> bool \<Rightarrow>
     (ReplSetHeartbeatArgs RemoteCommandRequest \<Rightarrow> bool) \<Rightarrow> ReplicaSetConfig \<Rightarrow> int \<Rightarrow> Status option" where
  "checkQuorumForInitiate rs makesEvent accepts rsConfig myIndex = do {
     invariant (cfgVersion rsConfig = 1);
     checkQuorumGeneral rs makesEvent accepts rsConfig myIndex
   }"

definition checkQuorumForReconfig ::
  "(ReplSetHeartbeatArgs RemoteCommandRequest \<times> QuorumResponse ResponseStatus) list \<Rightarrow> bool \<Rightarrow>
     (ReplSetHeartbeatArgs RemoteCommandRequest \<Rightarrow> bool) \<Rightarrow> ReplicaSetConfig \<Rightarrow> int \<Rightarrow> Status option" where
  "checkQuorumForReconfig rs makesEvent accepts rsConfig myIndex = do {
     invariant (cfgVersion rsConfig > 1);
     checkQuorumGeneral rs makesEvent accepts rsConfig myIndex
   }"

subsection \<open>Answers\<close>

definition affirms :: "ReplicaSetConfig \<Rightarrow> QuorumResponse ResponseStatus \<Rightarrow> bool" where
  "affirms c response \<longleftrightarrow> (case response of Inl _ \<Rightarrow> False | Inr r \<Rightarrow>
     (qrStatus r = StatusOK \<or> qrStatus r = StatusError InvalidReplicaSetConfig) \<and>
     (rspSetName (qrResponse r) = '''' \<or> rspConfigVersion (qrResponse r) < cfgVersion c) \<and>
     \<not> (cfgVersion c = 1 \<and> qrHasData r))"

definition vetoes :: "ReplicaSetConfig \<Rightarrow> QuorumResponse ResponseStatus \<Rightarrow> bool" where
  "vetoes c response \<longleftrightarrow> (case response of Inl _ \<Rightarrow> False | Inr r \<Rightarrow>
     qrStatus r = StatusError InconsistentReplicaSetNames \<or>
     (qrStatus r = StatusOK \<or> qrStatus r = StatusError InvalidReplicaSetConfig) \<and>
     (rspSetName (qrResponse r) \<noteq> '''' \<and> rspConfigVersion (qrResponse r) \<ge> cfgVersion c \<or> cfgVersion c = 1 \<and> qrHasData r))"

lemma affirms_not_vetoes: "affirms c r \<Longrightarrow> \<not> vetoes c r"
  by (auto simp: affirms_def vetoes_def split: sum.splits)

text \<open>A checker that has enough answers has computed its final status from them.\<close>

definition settled :: "QuorumChecker \<Rightarrow> bool" where
  "settled q \<longleftrightarrow> (quorum_hasReceivedSufficientResponses q \<longrightarrow> qcFinalStatus q = qcFinalStatus (onQuorumCheckComplete q))"

definition tallies :: "QuorumChecker \<Rightarrow> QuorumChecker \<Rightarrow> (MemberConfig \<times> QuorumResponse ResponseStatus) list \<Rightarrow> bool" where
  "tallies q q' rs \<longleftrightarrow> qcConfig q' = qcConfig q \<and> qcMyIndex q' = qcMyIndex q \<and> qcNumResponses q' = qcNumResponses q + int (length rs) \<and>
     (qcVetoStatus q' = StatusOK \<longleftrightarrow> qcVetoStatus q = StatusOK \<and> (\<forall>x\<in>set rs. \<not> vetoes (qcConfig q) (snd x))) \<and>
     (qcBadResponses q' = [] \<longleftrightarrow> qcBadResponses q = [] \<and> (\<forall>x\<in>set rs. affirms (qcConfig q) (snd x) \<or> vetoes (qcConfig q) (snd x))) \<and>
     qcNumElectable q' = qcNumElectable q + int (length (filter (\<lambda>x. affirms (qcConfig q) (snd x) \<and> isElectable (fst x)) rs)) \<and>
     length (qcVoters q') = length (qcVoters q) + length (filter (\<lambda>x. affirms (qcConfig q) (snd x) \<and> isVoter (fst x)) rs)"

lemma tabulate_tallies:
  assumes "find (\<lambda>m. HostAndPort_eq (mcHost m) (rqTarget req)) (members (qcConfig q)) = Some m"
  shows "\<exists>q'. tabulateHeartbeatResponse req resp q = Some q' \<and> tallies q q' [(m, resp)]"
  using assms
  by (cases resp) (simp_all add: tabulateHeartbeatResponse_def tallies_def affirms_def vetoes_def Let_def)

lemma complete_frame [simp]:
  "qcConfig (onQuorumCheckComplete q) = qcConfig q" "qcMyIndex (onQuorumCheckComplete q) = qcMyIndex q"
  "qcVoters (onQuorumCheckComplete q) = qcVoters q" "qcBadResponses (onQuorumCheckComplete q) = qcBadResponses q"
  "qcNumResponses (onQuorumCheckComplete q) = qcNumResponses q" "qcNumElectable (onQuorumCheckComplete q) = qcNumElectable q"
  "qcVetoStatus (onQuorumCheckComplete q) = qcVetoStatus q"
  by (simp_all add: onQuorumCheckComplete_def)

lemma complete_sufficient:
  "quorum_hasReceivedSufficientResponses (onQuorumCheckComplete q) \<longleftrightarrow> quorum_hasReceivedSufficientResponses q"
  "tallies p (onQuorumCheckComplete q) rs \<longleftrightarrow> tallies p q rs"
  "qcFinalStatus (onQuorumCheckComplete (onQuorumCheckComplete q)) = qcFinalStatus (onQuorumCheckComplete q)"
  by (simp_all add: quorum_hasReceivedSufficientResponses_def tallies_def) (simp add: onQuorumCheckComplete_def)

lemma newQuorumChecker_fields:
  assumes "newQuorumChecker c i = Some q"
  shows "0 \<le> i" "i < int (length (members c))" "qcConfig q = c" "qcMyIndex q = i" "qcNumResponses q = 1" "qcVetoStatus q = StatusOK"
    "qcBadResponses q = []" "qcNumElectable q = of_bool (isElectable (members c ! nat i))"
    "length (qcVoters q) = of_bool (isVoter (members c ! nat i))" "settled q"
proof -
  let ?m = "members c ! nat i"
  define q0 where "q0 = \<lparr>qcConfig = c, qcMyIndex = i, qcVoters = if isVoter ?m then [mcHost ?m] else [], qcBadResponses = [],
    qcNumResponses = 1, qcNumElectable = if isElectable ?m then 1 else 0, qcVetoStatus = StatusOK,
    qcFinalStatus = StatusError CallbackCanceled\<rparr>"
  have q: "0 \<le> i" "i < int (length (members c))" "q = (if quorum_hasReceivedSufficientResponses q0 then onQuorumCheckComplete q0 else q0)"
    using assms by (auto simp: newQuorumChecker_def getMemberAt_def run_simps Let_def q0_def)
  show "0 \<le> i" "i < int (length (members c))" "qcConfig q = c" "qcMyIndex q = i" "qcNumResponses q = 1" "qcVetoStatus q = StatusOK"
    "qcBadResponses q = []" "qcNumElectable q = of_bool (isElectable ?m)" "length (qcVoters q) = of_bool (isVoter ?m)"
    using q by (auto simp: q0_def)
  show "settled q" using q(3) by (simp add: settled_def complete_sufficient)
qed

lemma process_tallies:
  assumes "find (\<lambda>m. HostAndPort_eq (mcHost m) (rqTarget req)) (members (qcConfig q)) = Some m"
  shows "\<exists>q'. quorum_processResponse req resp q = Some q' \<and> tallies q q' [(m, resp)] \<and> settled q'"
proof -
  obtain q' where "tabulateHeartbeatResponse req resp q = Some q'" "tallies q q' [(m, resp)]"
    using tabulate_tallies [OF assms] by blast
  then show ?thesis
    by (cases "quorum_hasReceivedSufficientResponses q'") (simp_all add: quorum_processResponse_def settled_def complete_sufficient)
qed

lemma tallies_step: "tallies q q1 [x] \<Longrightarrow> tallies q1 q2 rs \<Longrightarrow> tallies q q2 (x # rs)"
  by (auto simp: tallies_def)

definition targetMember :: "ReplicaSetConfig \<Rightarrow> 'c RemoteCommandRequest \<Rightarrow> MemberConfig option" where
  "targetMember c req = find (\<lambda>m. HostAndPort_eq (mcHost m) (rqTarget req)) (members c)"

lemma all_responded: "qcNumResponses q = getNumMembers (qcConfig q) \<Longrightarrow> quorum_hasReceivedSufficientResponses q"
  by (simp add: quorum_hasReceivedSufficientResponses_def)

lemma mset_eq_add_filter:
  assumes "0 \<le> i" and "i < int n"
  shows "mset [0..<n] = add_mset (nat i) (mset (filter (\<lambda>k. i \<noteq> int k) [0..<n]))"
proof -
  have "filter (\<lambda>k. i \<noteq> int k) [0..<n] = remove1 (nat i) [0..<n]"
    using assms by (auto simp: distinct_remove1_removeAll removeAll_filter_not_eq intro!: filter_cong)
  then show ?thesis using assms by simp
qed

lemma others_length: "0 \<le> i \<Longrightarrow> i < int n \<Longrightarrow> length (filter (\<lambda>k. i \<noteq> int k) [0..<n]) = n - 1"
  by (metis diff_Suc_1 length_upt minus_nat.diff_0 mset_eq_add_filter size_add_mset size_mset)

interpretation qr: scatter_gather quorumAlgorithm "\<lambda>_. True"
  "\<lambda>q. (\<exists>i. newQuorumChecker (qcConfig q) i = Some q)"
  "\<lambda>reqs k q. (\<forall>req\<in>set reqs. targetMember (qcConfig q) req \<noteq> None) \<and>
     (quorum_hasReceivedSufficientResponses q \<or> qcNumResponses q = int k + 1 \<and> int (length reqs) + 1 = getNumMembers (qcConfig q))"
proof
  fix q :: QuorumChecker
  assume "\<exists>i. newQuorumChecker (qcConfig q) i = Some q"
  then obtain i where i: "newQuorumChecker (qcConfig q) i = Some q" by blast
  note fields = newQuorumChecker_fields [OF i]
  have get: "getMemberAt (qcConfig q) (qcMyIndex q) = Some (members (qcConfig q) ! nat i)"
    using fields(1,2,4) by (simp add: getMemberAt_def)
  have len: "int (length (filter (\<lambda>k. i \<noteq> int k) [0..<length (members (qcConfig q))])) + 1 = getNumMembers (qcConfig q)"
    using others_length [OF fields(1,2)] fields(1,2) by (simp add: getNumMembers_def)
  have mem: "targetMember (qcConfig q) req \<noteq> None" if "rqTarget req = mcHost (members (qcConfig q) ! k)" "k < length (members (qcConfig q))"
    for req :: "ReplSetHeartbeatArgs RemoteCommandRequest" and k
    using that by (auto simp: targetMember_def find_None_iff HostAndPort_eq_def)
  show "\<exists>reqs. sgGetRequests quorumAlgorithm q = Some reqs \<and> (\<forall>req\<in>set reqs. targetMember (qcConfig q) req \<noteq> None) \<and>
      (quorum_hasReceivedSufficientResponses q \<or> qcNumResponses q = int 0 + 1 \<and> int (length reqs) + 1 = getNumMembers (qcConfig q))"
  proof (cases "quorum_hasReceivedSufficientResponses q")
    case True
    then show ?thesis using get by (simp add: quorumAlgorithm_def quorum_getRequests_def)
  next
    case False
    then show ?thesis using get len mem fields(4,5) by (auto simp: quorumAlgorithm_def quorum_getRequests_def Let_def)
  qed
next
  fix reqs :: "ReplSetHeartbeatArgs RemoteCommandRequest list" and k q req resp
  assume ok: "(\<forall>req\<in>set reqs. targetMember (qcConfig q) req \<noteq> None) \<and>
     (quorum_hasReceivedSufficientResponses q \<or> qcNumResponses q = int k + 1 \<and> int (length reqs) + 1 = getNumMembers (qcConfig q))"
    and "\<not> sgHasReceivedSufficientResponses quorumAlgorithm q" and req: "req \<in> set reqs"
  then have more: "qcNumResponses q = int k + 1" "int (length reqs) + 1 = getNumMembers (qcConfig q)" by (auto simp: quorumAlgorithm_def)
  obtain m where "targetMember (qcConfig q) req = Some m" using ok req by auto
  then obtain q' where "quorum_processResponse req resp q = Some q'" "tallies q q' [(m, resp)]"
    using process_tallies [of req q m resp] by (auto simp: targetMember_def)
  then show "\<exists>q'. sgProcessResponse quorumAlgorithm req resp q = Some q' \<and> (\<forall>req\<in>set reqs. targetMember (qcConfig q') req \<noteq> None) \<and>
     (quorum_hasReceivedSufficientResponses q' \<or> qcNumResponses q' = int (Suc k) + 1 \<and> int (length reqs) + 1 = getNumMembers (qcConfig q'))"
    using ok more by (auto simp: quorumAlgorithm_def tallies_def)
qed (auto simp: quorumAlgorithm_def all_responded)

subsection \<open>The outcome\<close>

definition answers :: "ReplicaSetConfig \<Rightarrow> (ReplSetHeartbeatArgs RemoteCommandRequest \<times> QuorumResponse ResponseStatus) list \<Rightarrow>
    (MemberConfig \<times> QuorumResponse ResponseStatus) list" where
  "answers c rs = map (\<lambda>(req, resp). (the (targetMember c req), resp)) rs"

lemma absorb_tallies:
  assumes "absorb quorumAlgorithm rs q = Some q'" and "\<forall>(req, resp)\<in>set rs. targetMember (qcConfig q) req \<noteq> None" and "settled q"
  shows "tallies q q' (answers (qcConfig q) rs) \<and> settled q'"
  using assms
proof (induction rs arbitrary: q)
  case Nil
  then show ?case by (simp add: tallies_def answers_def)
next
  case (Cons x rs)
  obtain req resp where x: "x = (req, resp)" by (cases x)
  obtain m where m: "targetMember (qcConfig q) req = Some m" using Cons.prems(2) x by auto
  obtain q1 where q1: "quorum_processResponse req resp q = Some q1" "tallies q q1 [(m, resp)]" "settled q1"
    using process_tallies [of req q m resp] m by (auto simp: targetMember_def)
  then have c: "qcConfig q1 = qcConfig q" by (simp add: tallies_def)
  have "tallies q1 q' (answers (qcConfig q) rs) \<and> settled q'"
    using Cons.IH [of q1] Cons.prems x q1(1,3) c by (simp add: quorumAlgorithm_def)
  then show ?case using tallies_step [OF q1(2)] m x by (simp add: answers_def)
qed

text \<open>How many of the asking member and of the members that accepted satisfy \<open>P\<close>.\<close>

definition accepting :: "(MemberConfig \<Rightarrow> bool) \<Rightarrow> ReplicaSetConfig \<Rightarrow> int \<Rightarrow>
    (ReplSetHeartbeatArgs RemoteCommandRequest \<times> QuorumResponse ResponseStatus) list \<Rightarrow> nat" where
  "accepting P c i rs = of_bool (P (members c ! nat i)) + length (filter (\<lambda>x. affirms c (snd x) \<and> P (fst x)) (answers c rs))"

lemma accepting_take: "accepting P c i (take k rs) \<le> accepting P c i rs"
proof -
  have "answers c rs = answers c (take k rs) @ answers c (drop k rs)"
    unfolding answers_def by (metis append_take_drop_id map_append)
  then show ?thesis by (simp add: accepting_def)
qed

lemma quorum_run:
  assumes q: "newQuorumChecker c i = Some q" and reqs: "quorum_getRequests q = Some reqs"
    and uncanceled: "\<forall>(req, resp)\<in>set rs. resp \<noteq> Inl CallbackCanceled" and rs: "mset (map fst rs) = mset reqs"
  obtains q' k where "checkQuorumGeneral rs True (\<lambda>_. True) c i = Some (qcFinalStatus (onQuorumCheckComplete q'))" "k \<le> length rs"
    "qcConfig q' = c" "qcNumResponses q' = 1 + int k" "qcVetoStatus q' = StatusOK \<longleftrightarrow> (\<forall>x\<in>set (take k rs). \<not> vetoes c (snd x))"
    "qcBadResponses q' = [] \<longleftrightarrow> (\<forall>x\<in>set (take k rs). affirms c (snd x) \<or> vetoes c (snd x))"
    "qcNumElectable q' = int (accepting isElectable c i (take k rs))" "length (qcVoters q') = accepting isVoter c i (take k rs)"
    "quorum_hasReceivedSufficientResponses q'"
proof -
  note new = newQuorumChecker_fields [OF q]
  have ready: "\<exists>i. newQuorumChecker (qcConfig q) i = Some q" using q new(3) by blast
  obtain r r' where run: "runner_start quorumAlgorithm True (\<lambda>_. True) (newRunner q) = Some (StatusOK, r)"
      "deliver quorumAlgorithm rs r = Some r'" "gather quorumAlgorithm rs q = Some (srAlgorithm r')"
      "quorum_hasReceivedSufficientResponses (srAlgorithm r')"
  proof -
    have "\<forall>(req, resp)\<in>set rs. resp \<noteq> Inl CallbackCanceled \<and> True" "sgGetRequests quorumAlgorithm q = Some reqs"
      using uncanceled reqs by (simp_all add: quorumAlgorithm_def)
    from qr.completes [OF ready this rs] show thesis using that by (auto simp: quorumAlgorithm_def)
  qed
  let ?q = "srAlgorithm r'"
  obtain k where k: "k \<le> length rs" "absorb quorumAlgorithm (take k rs) q = Some ?q"
    using gather_prefix [OF run(3)] by blast
  have "\<forall>req\<in>set reqs. targetMember c req \<noteq> None" using qr.requests [OF ready] reqs new(3) by (auto simp: quorumAlgorithm_def)
  moreover have "fst ` set rs = set reqs" using arg_cong [OF rs, of set_mset] by simp
  ultimately have "targetMember c (fst x) \<noteq> None" if "x \<in> set (take k rs)" for x using in_set_takeD [OF that] by blast
  then have "\<forall>(req, resp)\<in>set (take k rs). targetMember c req \<noteq> None" by (simp add: split_def)
  then have t: "tallies q ?q (answers c (take k rs))" "settled ?q"
    using absorb_tallies [OF k(2)] new(3,10) by auto
  have all: "(\<forall>x\<in>set (answers c xs). P (snd x)) \<longleftrightarrow> (\<forall>x\<in>set xs. P (snd x))" for P xs by (auto simp: answers_def split_def)
  have "checkQuorumGeneral rs True (\<lambda>_. True) c i = Some (qcFinalStatus (onQuorumCheckComplete ?q))"
    using q run(1,2,4) t(2) by (simp add: checkQuorumGeneral_def settled_def)
  moreover have "length (answers c (take k rs)) = k" using k(1) by (simp add: answers_def)
  then have "qcConfig ?q = c" "qcNumResponses ?q = 1 + int k" "qcVetoStatus ?q = StatusOK \<longleftrightarrow> (\<forall>x\<in>set (take k rs). \<not> vetoes c (snd x))"
    "qcBadResponses ?q = [] \<longleftrightarrow> (\<forall>x\<in>set (take k rs). affirms c (snd x) \<or> vetoes c (snd x))"
    "qcNumElectable ?q = int (accepting isElectable c i (take k rs))" "length (qcVoters ?q) = accepting isVoter c i (take k rs)"
    using t(1) new(3,5,6,7,8,9) all by (simp_all add: tallies_def accepting_def)
  ultimately show thesis using that k(1) run(4) by blast
qed

lemma targetMember_nth:
  assumes "config_wf c" and "j < length (members c)" and "rqTarget req = mcHost (members c ! j)"
  shows "targetMember c req = Some (members c ! j)"
proof -
  have "j' = j" if "j' < length (members c)" "HostAndPort_eq (mcHost (members c ! j')) (mcHost (members c ! j))" for j'
    using assms(1,2) that nth_eq_iff_index_eq [of "map (hostKey \<circ> mcHost) (members c)" j' j]
    by (simp add: config_wf_def HostAndPort_eq_iff)
  then have "find (\<lambda>m. HostAndPort_eq (mcHost m) (mcHost (members c ! j))) (members c) = Some (members c ! j)"
    using assms(2) by (auto simp: find_Some_iff HostAndPort_eq_iff intro!: exI [of _ j] dest: less_trans [of _ j "length (members c)"])
  then show ?thesis using assms(3) by (simp add: targetMember_def)
qed

text \<open>If everybody accepts, every member of the configuration is counted.\<close>

lemma accepting_everyone:
  assumes "config_wf c" and q: "newQuorumChecker c i = Some q" and reqs: "quorum_getRequests q = Some reqs"
    and more: "\<not> quorum_hasReceivedSufficientResponses q" and rs: "mset (map fst rs) = mset reqs" and all: "\<forall>x\<in>set rs. affirms c (snd x)"
  shows "accepting P c i rs = countMembers P c"
proof -
  note new = newQuorumChecker_fields [OF q]
  let ?others = "filter (\<lambda>k. i \<noteq> int k) [0..<length (members c)]" and ?m = "\<lambda>req. the (targetMember c req)"
  have "?m \<lparr>rqTarget = mcHost (members c ! j), rqCommand = a, rqTimeout = t\<rparr> = members c ! j"
    if "j < length (members c)" for j and a :: ReplSetHeartbeatArgs and t
    by (simp add: targetMember_nth [OF assms(1) that])
  then have "map ?m reqs = map (\<lambda>j. members c ! j) ?others"
    using reqs more by (auto simp: quorum_getRequests_def run_simps Let_def new(3,4))
  then have "mset (map ?m (map fst rs)) = mset (map (\<lambda>j. members c ! j) ?others)" using rs by (metis mset_map)
  moreover have "mset [0..<length (members c)] = add_mset (nat i) (mset ?others)"
    using new(1,2) by (intro mset_eq_add_filter) auto
  ultimately have "add_mset (members c ! nat i) (mset (map ?m (map fst rs))) = mset (members c)"
    by (metis image_mset_add_mset map_nth mset_map)
  then have "size (filter_mset P (add_mset (members c ! nat i) (mset (map ?m (map fst rs))))) = countMembers P c"
    by (metis countMembers_def mset_filter size_mset)
  moreover have "filter (\<lambda>x. affirms c (snd x) \<and> P (fst x)) (answers c rs) = filter (\<lambda>x. P (fst x)) (answers c rs)"
    using all by (intro filter_cong) (auto simp: answers_def)
  moreover have "length (filter (\<lambda>x. P (fst x)) (answers c rs)) = size (filter_mset P (mset (map ?m (map fst rs))))"
    by (induction rs) (auto simp: answers_def)
  ultimately show ?thesis by (cases "P (members c ! nat i)") (simp_all add: accepting_def)
qed

lemma requests_length:
  assumes "newQuorumChecker c i = Some q" and "quorum_getRequests q = Some reqs"
  shows "reqs = [] \<and> quorum_hasReceivedSufficientResponses q \<or>
    int (length reqs) + 1 = getNumMembers c \<and> \<not> quorum_hasReceivedSufficientResponses q"
  using assms(2) newQuorumChecker_fields(1-4) [OF assms(1)] others_length [of i "length (members c)"]
  by (auto simp: quorum_getRequests_def run_simps Let_def getNumMembers_def split: if_splits)

lemma accepting_all:
  assumes "config_wf c" and q: "newQuorumChecker c i = Some q" and reqs: "quorum_getRequests q = Some reqs"
    and rs: "mset (map fst rs) = mset reqs" and len: "int (length rs) + 1 = getNumMembers c" and all: "\<forall>x\<in>set rs. affirms c (snd x)"
  shows "accepting P c i rs = countMembers P c"
proof (cases "quorum_hasReceivedSufficientResponses q")
  case True
  then have "rs = []" using requests_length [OF q reqs] rs by auto
  moreover from this obtain m where "members c = [m]" using len by (auto simp: getNumMembers_def length_Suc_conv)
  ultimately show ?thesis using newQuorumChecker_fields(1,2) [OF q] by (simp add: accepting_def answers_def countMembers_def)
qed (rule accepting_everyone [OF assms(1) q reqs _ rs all])

lemma all_accept_quorum:
  assumes "config_wf c" and maj: "majorityVoteCount c = majorityVoteCount (calculateMajorities c)"
    and "newQuorumChecker c i = Some q" and "quorum_getRequests q = Some reqs" and "mset (map fst rs) = mset reqs"
    and "int (length rs) + 1 = getNumMembers c" and "\<forall>x\<in>set rs. affirms c (snd x)"
  shows "0 < accepting isElectable c i rs" "majorityVoteCount c \<le> int (accepting isVoter c i rs)"
proof -
  have "0 < countMembers isElectable c" "0 < countMembers isVoter c" using assms(1) by (simp_all add: config_wf_def)
  moreover from this have "int (countMembers isVoter c) div 2 + 1 \<le> int (countMembers isVoter c)" by linarith
  ultimately show "0 < accepting isElectable c i rs" "majorityVoteCount c \<le> int (accepting isVoter c i rs)"
    using accepting_all [OF assms(1,3-7)] maj by (simp_all add: calculateMajorities_count)
qed

text \<open>C16: The quorum check answers when every member asked has answered, in whatever order. A check of an initial configuration
  succeeds exactly if everybody accepted. A check of a later configuration succeeds only if a majority of the voters
  and somebody electable accepted, and succeeds if they did and nobody vetoed.\<close>

theorem quorum_check_spec:
  assumes wf: "config_wf c" and maj: "majorityVoteCount c = majorityVoteCount (calculateMajorities c)"
    and q: "newQuorumChecker c i = Some q" and reqs: "quorum_getRequests q = Some reqs"
    and uncanceled: "\<forall>(req, resp)\<in>set rs. resp \<noteq> Inl CallbackCanceled" and rs: "mset (map fst rs) = mset reqs"
  shows "\<exists>status. checkQuorumGeneral rs True (\<lambda>_. True) c i = Some status \<and>
    (cfgVersion c = 1 \<longrightarrow> (status = StatusOK \<longleftrightarrow> (\<forall>x\<in>set rs. affirms c (snd x)))) \<and>
    (status = StatusOK \<longrightarrow> majorityVoteCount c \<le> int (accepting isVoter c i rs) \<and> 0 < accepting isElectable c i rs) \<and>
    (cfgVersion c \<noteq> 1 \<and> majorityVoteCount c \<le> int (accepting isVoter c i rs) \<and> 0 < accepting isElectable c i rs \<and>
       (\<forall>x\<in>set rs. \<not> vetoes c (snd x)) \<longrightarrow> status = StatusOK)"
proof -
  obtain q' k where run: "checkQuorumGeneral rs True (\<lambda>_. True) c i = Some (qcFinalStatus (onQuorumCheckComplete q'))" "k \<le> length rs"
      "qcConfig q' = c" "qcNumResponses q' = 1 + int k" "qcVetoStatus q' = StatusOK \<longleftrightarrow> (\<forall>x\<in>set (take k rs). \<not> vetoes c (snd x))"
      "qcBadResponses q' = [] \<longleftrightarrow> (\<forall>x\<in>set (take k rs). affirms c (snd x) \<or> vetoes c (snd x))"
      "qcNumElectable q' = int (accepting isElectable c i (take k rs))" "length (qcVoters q') = accepting isVoter c i (take k rs)"
      "quorum_hasReceivedSufficientResponses q'"
    using quorum_run [OF q reqs uncanceled rs] by metis
  let ?st = "qcFinalStatus (onQuorumCheckComplete q')"
  have ok: "?st = StatusOK \<longleftrightarrow> (\<forall>x\<in>set (take k rs). \<not> vetoes c (snd x)) \<and>
      \<not> (cfgVersion c = 1 \<and> \<not> (\<forall>x\<in>set (take k rs). affirms c (snd x) \<or> vetoes c (snd x))) \<and>
      0 < accepting isElectable c i (take k rs) \<and> majorityVoteCount c \<le> int (accepting isVoter c i (take k rs))"
    using run(3,5-8) by (auto simp: onQuorumCheckComplete_def)
  note fewer = accepting_take [of isVoter c i k rs] accepting_take [of isElectable c i k rs]
  have prefix: "x \<in> set (take k rs) \<Longrightarrow> x \<in> set rs" for x by (rule in_set_takeD)
  have len: "k = length rs" if "1 + int k = getNumMembers c"
    using requests_length [OF q reqs] arg_cong [OF rs, of size] run(2) that by auto
  have initial: "?st = StatusOK \<longleftrightarrow> (\<forall>x\<in>set rs. affirms c (snd x))" if v: "cfgVersion c = 1"
  proof -
    have complete: "k = length rs" "1 + int k = getNumMembers c" if "\<forall>x\<in>set (take k rs). \<not> vetoes c (snd x)"
      using run(3,4,5,9) v that len by (auto simp: quorum_hasReceivedSufficientResponses_def split: if_splits)
    have "?st = StatusOK" if all: "\<forall>x\<in>set rs. affirms c (snd x)"
    proof -
      have none: "\<forall>x\<in>set (take k rs). affirms c (snd x) \<and> \<not> vetoes c (snd x)" using all prefix affirms_not_vetoes by blast
      then have k: "k = length rs" "1 + int k = getNumMembers c" using complete by blast+
      then show ?thesis using none all_accept_quorum [OF wf maj q reqs rs _ all] unfolding ok by auto
    qed
    moreover have "\<forall>x\<in>set rs. affirms c (snd x)" if "?st = StatusOK"
    proof -
      have none: "\<forall>x\<in>set (take k rs). \<not> vetoes c (snd x)" "\<forall>x\<in>set (take k rs). affirms c (snd x) \<or> vetoes c (snd x)"
        using that v unfolding ok by blast+
      then show ?thesis using complete(1) [OF none(1)] by auto
    qed
    ultimately show ?thesis by blast
  qed
  have later: "?st = StatusOK" if "cfgVersion c \<noteq> 1" "majorityVoteCount c \<le> int (accepting isVoter c i rs)" "0 < accepting isElectable c i rs"
    "\<forall>x\<in>set rs. \<not> vetoes c (snd x)"
  proof -
    have "\<forall>x\<in>set (take k rs). \<not> vetoes c (snd x)" using that(4) prefix by blast
    moreover from this have "1 + int k = getNumMembers c \<or>
        0 < accepting isElectable c i (take k rs) \<and> majorityVoteCount c \<le> int (accepting isVoter c i (take k rs))"
      using run(3-5,7-9) that(1) by (auto simp: quorum_hasReceivedSufficientResponses_def split: if_splits)
    ultimately show ?thesis unfolding ok using len that(1-3) by auto
  qed
  have "majorityVoteCount c \<le> int (accepting isVoter c i rs) \<and> 0 < accepting isElectable c i rs" if "?st = StatusOK"
    using that fewer unfolding ok by linarith
  then show ?thesis using run(1) initial later by (intro exI [of _ ?st]) blast
qed

text \<open>The members \<open>b\<close> and \<open>c\<close> are asked by \<open>a\<close> and accept; they answer in the reverse order.\<close>

definition sampleAnswers :: "(ReplSetHeartbeatArgs RemoteCommandRequest \<times> QuorumResponse ResponseStatus) list" where
  "sampleAnswers = map (\<lambda>req. (req, Inr \<lparr>qrStatus = StatusOK, qrResponse = newHeartbeatResponse, qrHasData = False\<rparr>))
     (rev (the (quorum_getRequests (the (newQuorumChecker sampleSet 0)))))"

lemma sampleQuorum_run:
  "case newQuorumChecker sampleSet 0 of None \<Rightarrow> False | Some q \<Rightarrow> quorum_getRequests q \<noteq> None"
  "majorityVoteCount sampleSet = majorityVoteCount (calculateMajorities sampleSet) \<and> cfgVersion sampleSet = 1 \<and>
   list_all (\<lambda>x. affirms sampleSet (snd x)) sampleAnswers \<and> length sampleAnswers = 2"
  by code_simp+

theorem quorum_check_spec_witness:
  "config_wf sampleSet \<and> newQuorumChecker sampleSet 0 \<noteq> None \<and> length sampleAnswers = 2 \<and>
   checkQuorumGeneral sampleAnswers True (\<lambda>_. True) sampleSet 0 = Some StatusOK"
proof -
  obtain q reqs where run: "newQuorumChecker sampleSet 0 = Some q" "quorum_getRequests q = Some reqs"
    using sampleQuorum_run(1) by (auto split: option.splits)
  have wf: "config_wf sampleSet"
    unfolding sampleSet_def using sampleConfig_ok by (intro validate_config_wf [of False]) simp
  have rs: "mset (map fst sampleAnswers) = mset reqs" using run by (simp add: sampleAnswers_def comp_def)
  have "\<forall>(req, resp)\<in>set sampleAnswers. resp \<noteq> Inl CallbackCanceled" by (auto simp: sampleAnswers_def)
  from quorum_check_spec [OF wf _ run this rs] show ?thesis
    using sampleQuorum_run(2) wf run(1) by (auto simp: list_all_iff)
qed

end
