(* ===== verification/ElectionCommands.thy ===== *)
theory ElectionCommands
  imports ScatterGather TopologyCoord WriteConcern
begin

text \<open>
  The other commands that a candidate sends to the members of the set: the freshness check and the votes of protocol
  version 0, \<^verbatim>\<open>src/src/mongo/db/repl/freshness_checker.cpp\<close> and \<^verbatim>\<open>elect_cmd_runner.cpp\<close>, and the announcement of the
  winner of protocol version 1, \<^verbatim>\<open>election_winner_declarer.cpp\<close>. Each interprets the contract of \<open>ScatterGather\<close>.
\<close>

subsection \<open>Freshness\<close>

datatype ElectionAbortReason = AbortNone | FresherNodeFound | FreshnessTie | QuorumUnavailable | QuorumUnreachable

record FreshnessAlgorithm =
  fcResponsesProcessed :: int
  fcFailedVoterResponses :: int
  fcLastOpTimeApplied :: Timestamp
  fcConfig :: ReplicaSetConfig
  fcSelfIndex :: int
  fcTargets :: "HostAndPort list"
  fcVotingTargets :: int
  fcLosableVoters :: int
  fcMyVote :: int
  fcAbortReason :: ElectionAbortReason

text \<open>The fields of the command and of its reply; the optime of the reply is \<open>None\<close> if it is no date.\<close>

record FreshCommand =
  fqSetName :: string
  fqOpTime :: Timestamp
  fqWho :: string
  fqCfgver :: int
  fqId :: int

record FreshReply =
  fyStatus :: Status
  fyFresher :: bool
  fyOpTime :: "Timestamp option"
  fyVeto :: bool

definition isVotingTarget :: "ReplicaSetConfig \<Rightarrow> HostAndPort \<Rightarrow> bool" where
  "isVotingTarget c h = (case findMemberByHostAndPort c h of None \<Rightarrow> False | Some m \<Rightarrow> isVoter m)"

definition newFreshnessAlgorithm :: "Timestamp \<Rightarrow> ReplicaSetConfig \<Rightarrow> int \<Rightarrow> HostAndPort list \<Rightarrow> FreshnessAlgorithm option" where
  "newFreshnessAlgorithm lastOpTimeApplied rsConfig selfIndex targets = do {
     let votingTargets = int (length (filter (isVotingTarget rsConfig) targets));
     self \<leftarrow> getMemberAt rsConfig selfIndex;
     let myVote = (if isVoter self then 1 else 0);
     Some \<lparr>fcResponsesProcessed = 0, fcFailedVoterResponses = 0, fcLastOpTimeApplied = lastOpTimeApplied, fcConfig = rsConfig,
       fcSelfIndex = selfIndex, fcTargets = targets, fcVotingTargets = votingTargets,
       fcLosableVoters = max 0 ((votingTargets + myVote) - majorityVoteCount rsConfig), fcMyVote = myVote, fcAbortReason = AbortNone\<rparr>
   }"

definition fresh_getRequests :: "FreshnessAlgorithm \<Rightarrow> FreshCommand RemoteCommandRequest list option" where
  "fresh_getRequests a = do {
     self \<leftarrow> getMemberAt (fcConfig a) (fcSelfIndex a);
     let replSetFreshCmd = \<lparr>fqSetName = replSetName (fcConfig a), fqOpTime = fcLastOpTimeApplied a,
           fqWho = HostAndPort_toString (mcHost self), fqCfgver = cfgVersion (fcConfig a), fqId = mcId self\<rparr>;
     invariant (list_all (\<lambda>h. \<not> HostAndPort_eq h (mcHost self)) (fcTargets a));
     Some (map (\<lambda>h. \<lparr>rqTarget = h, rqCommand = replSetFreshCmd, rqTimeout = 30 * 1000\<rparr>) (fcTargets a))
   }"

definition hadTooManyFailedVoterResponses :: "FreshnessAlgorithm \<Rightarrow> bool" where
  "hadTooManyFailedVoterResponses a \<longleftrightarrow> fcFailedVoterResponses a > fcLosableVoters a"

definition isVotingMember :: "HostAndPort \<Rightarrow> FreshnessAlgorithm \<Rightarrow> bool option" where
  "isVotingMember hap a = map_option isVoter (findMemberByHostAndPort (fcConfig a) hap)"

definition fresh_processResponse ::
  "FreshCommand RemoteCommandRequest \<Rightarrow> FreshReply ResponseStatus \<Rightarrow> FreshnessAlgorithm \<Rightarrow> FreshnessAlgorithm option" where
  "fresh_processResponse request response a = do {
     let a = a\<lparr>fcResponsesProcessed := fcResponsesProcessed a + 1\<rparr>;
     votingMember \<leftarrow> isVotingMember (rqTarget request) a;
     let failed = (if votingMember
       then let a = a\<lparr>fcFailedVoterResponses := fcFailedVoterResponses a + 1\<rparr>
            in if hadTooManyFailedVoterResponses a then a\<lparr>fcAbortReason := QuorumUnreachable\<rparr> else a
       else a);
     Some (case response of
       Inl _ \<Rightarrow> failed
     | Inr res \<Rightarrow>
         if fyStatus res \<noteq> StatusOK then failed
         else if fyFresher res then a\<lparr>fcAbortReason := FresherNodeFound\<rparr>
         else case fyOpTime res of
                None \<Rightarrow> a\<lparr>fcAbortReason := FresherNodeFound\<rparr>
              | Some remoteTime \<Rightarrow>
                  let a = (if remoteTime = fcLastOpTimeApplied a then a\<lparr>fcAbortReason := FreshnessTie\<rparr> else a)
                  in if remoteTime > fcLastOpTimeApplied a then a\<lparr>fcAbortReason := FresherNodeFound\<rparr>
                     else if fyVeto res then a\<lparr>fcAbortReason := FresherNodeFound\<rparr>
                     else a)
   }"

definition fresh_hasReceivedSufficientResponses :: "FreshnessAlgorithm \<Rightarrow> bool" where
  "fresh_hasReceivedSufficientResponses a \<longleftrightarrow>
     (fcAbortReason a \<noteq> AbortNone \<and> fcAbortReason a \<noteq> FreshnessTie) \<or> fcResponsesProcessed a = int (length (fcTargets a))"

definition freshAlgorithm :: "(FreshnessAlgorithm, FreshCommand, FreshReply) ScatterGatherAlgorithm" where
  "freshAlgorithm = \<lparr>sgGetRequests = fresh_getRequests, sgProcessResponse = fresh_processResponse,
     sgHasReceivedSufficientResponses = fresh_hasReceivedSufficientResponses\<rparr>"

subsection \<open>Votes of protocol version 0\<close>

record ElectAlgorithm =
  ecReceivedVotes :: int
  ecActualResponses :: nat
  ecSufficientResponsesReceived :: bool
  ecConfig :: ReplicaSetConfig
  ecSelfIndex :: int
  ecTargets :: "HostAndPort list"
  ecRound :: OID

record ElectCommand =
  eqSetName :: string
  eqWho :: string
  eqWhoid :: int
  eqCfgver :: int
  eqRound :: OID

text \<open>The vote of a reply, \<open>None\<close> if it is no 32-bit integer.\<close>

type_synonym ElectReply = "int option"

definition newElectAlgorithm :: "ReplicaSetConfig \<Rightarrow> int \<Rightarrow> HostAndPort list \<Rightarrow> OID \<Rightarrow> ElectAlgorithm option" where
  "newElectAlgorithm rsConfig selfIndex targets rnd = do {
     self \<leftarrow> getMemberAt rsConfig selfIndex;
     Some \<lparr>ecReceivedVotes = getNumVotes self, ecActualResponses = 0, ecSufficientResponsesReceived = False,
       ecConfig = rsConfig, ecSelfIndex = selfIndex, ecTargets = targets, ecRound = rnd\<rparr>
   }"

definition elect_getRequests :: "ElectAlgorithm \<Rightarrow> ElectCommand RemoteCommandRequest list option" where
  "elect_getRequests a = do {
     self \<leftarrow> getMemberAt (ecConfig a) (ecSelfIndex a);
     let replSetElectCmd = \<lparr>eqSetName = replSetName (ecConfig a), eqWho = HostAndPort_toString (mcHost self), eqWhoid = mcId self,
           eqCfgver = cfgVersion (ecConfig a), eqRound = ecRound a\<rparr>;
     invariant (list_all (\<lambda>h. \<not> HostAndPort_eq h (mcHost self)) (ecTargets a));
     Some (map (\<lambda>h. \<lparr>rqTarget = h, rqCommand = replSetElectCmd, rqTimeout = 30 * 1000\<rparr>) (ecTargets a))
   }"

definition elect_hasReceivedSufficientResponses :: "ElectAlgorithm \<Rightarrow> bool" where
  "elect_hasReceivedSufficientResponses a \<longleftrightarrow>
     (if ecSufficientResponsesReceived a then True
      else if ecReceivedVotes a \<ge> majorityVoteCount (ecConfig a) then True
      else if ecReceivedVotes a < 0 then True
      else if ecActualResponses a = length (ecTargets a) then True
      else False)"

text \<open>The addition of two \<open>int\<close>s; an overflow is undefined behaviour.\<close>

definition addInt :: "int \<Rightarrow> int \<Rightarrow> int option" where
  "addInt x y = (if - INT_MAX - 1 \<le> x + y \<and> x + y \<le> INT_MAX then Some (x + y) else None)"

definition elect_processResponse ::
  "ElectCommand RemoteCommandRequest \<Rightarrow> ElectReply ResponseStatus \<Rightarrow> ElectAlgorithm \<Rightarrow> ElectAlgorithm option" where
  "elect_processResponse request response a =
     (let a = a\<lparr>ecActualResponses := Suc (ecActualResponses a)\<rparr> in
      case response of
        Inl _ \<Rightarrow> Some a
      | Inr None \<Rightarrow> Some (a\<lparr>ecSufficientResponsesReceived := True\<rparr>)
      | Inr (Some vote) \<Rightarrow> map_option (\<lambda>v. a\<lparr>ecReceivedVotes := v\<rparr>) (addInt (ecReceivedVotes a) vote))"

definition electAlgorithm :: "(ElectAlgorithm, ElectCommand, ElectReply) ScatterGatherAlgorithm" where
  "electAlgorithm = \<lparr>sgGetRequests = elect_getRequests, sgProcessResponse = elect_processResponse,
     sgHasReceivedSufficientResponses = elect_hasReceivedSufficientResponses\<rparr>"

subsection \<open>Announcing the winner\<close>

record DeclareAlgorithm =
  daSetName :: string
  daWinnerId :: int
  daTerm :: Term
  daTargets :: "HostAndPort list"
  daFailed :: bool
  daResponsesProcessed :: nat
  daStatus :: Status

text \<open>The status of a reply, and its term if that is a number.\<close>

type_synonym DeclareReply = "Status \<times> Term option"

definition newDeclareAlgorithm :: "string \<Rightarrow> int \<Rightarrow> Term \<Rightarrow> HostAndPort list \<Rightarrow> DeclareAlgorithm" where
  "newDeclareAlgorithm setName winnerId newTerm targets =
     \<lparr>daSetName = setName, daWinnerId = winnerId, daTerm = newTerm, daTargets = targets, daFailed = False,
      daResponsesProcessed = 0, daStatus = StatusOK\<rparr>"

definition declare_getRequests :: "DeclareAlgorithm \<Rightarrow> ReplSetDeclareElectionWinnerArgs RemoteCommandRequest list option" where
  "declare_getRequests a =
     (let cmd = \<lparr>dwSetName = daSetName a, dwTerm = daTerm a, dwWinnerId = daWinnerId a\<rparr>
      in Some (map (\<lambda>target. \<lparr>rqTarget = target, rqCommand = cmd, rqTimeout = 30 * 1000\<rparr>) (daTargets a)))"

text \<open>The log message reads the term of an error reply as a number, which throws if it is none.\<close>

definition declare_processResponse ::
  "ReplSetDeclareElectionWinnerArgs RemoteCommandRequest \<Rightarrow> DeclareReply ResponseStatus \<Rightarrow> DeclareAlgorithm \<Rightarrow> DeclareAlgorithm option" where
  "declare_processResponse request response a =
     (let a = a\<lparr>daResponsesProcessed := Suc (daResponsesProcessed a)\<rparr> in
      case response of
        Inl _ \<Rightarrow> Some a
      | Inr (cmdResponseStatus, t) \<Rightarrow>
          if cmdResponseStatus \<noteq> StatusOK
          then map_option (\<lambda>_. a\<lparr>daFailed := True, daStatus := cmdResponseStatus\<rparr>) t
          else Some a)"

definition declare_hasReceivedSufficientResponses :: "DeclareAlgorithm \<Rightarrow> bool" where
  "declare_hasReceivedSufficientResponses a \<longleftrightarrow> daFailed a \<or> daResponsesProcessed a = length (daTargets a)"

definition declareAlgorithm :: "(DeclareAlgorithm, ReplSetDeclareElectionWinnerArgs, DeclareReply) ScatterGatherAlgorithm" where
  "declareAlgorithm = \<lparr>sgGetRequests = declare_getRequests, sgProcessResponse = declare_processResponse,
     sgHasReceivedSufficientResponses = declare_hasReceivedSufficientResponses\<rparr>"

subsection \<open>The contracts\<close>

text \<open>An announcement is only answered with errors that carry a term, and a vote is small.\<close>

definition declareValid :: "DeclareReply ResponseStatus \<Rightarrow> bool" where
  "declareValid response \<longleftrightarrow> (case response of Inr (st, None) \<Rightarrow> st = StatusOK | _ \<Rightarrow> True)"

interpretation dw: scatter_gather declareAlgorithm declareValid "\<lambda>a. daResponsesProcessed a = 0"
  "\<lambda>reqs k a. daResponsesProcessed a = k \<and> length reqs = length (daTargets a)"
proof
  fix reqs :: "ReplSetDeclareElectionWinnerArgs RemoteCommandRequest list" and k and a :: DeclareAlgorithm and req resp
  assume "daResponsesProcessed a = k \<and> length reqs = length (daTargets a)" and "declareValid resp"
  then show "\<exists>a'. sgProcessResponse declareAlgorithm req resp a = Some a' \<and>
      daResponsesProcessed a' = Suc k \<and> length reqs = length (daTargets a')"
    by (auto simp: declareAlgorithm_def declare_processResponse_def declareValid_def Let_def split: sum.splits option.splits)
qed (auto simp: declareAlgorithm_def declare_getRequests_def declare_hasReceivedSufficientResponses_def Let_def)

definition electValid :: "ElectReply ResponseStatus \<Rightarrow> bool" where
  "electValid response \<longleftrightarrow> (case response of Inr (Some vote) \<Rightarrow> - INT_MAX - 1 \<le> vote \<and> vote \<le> 1 | _ \<Rightarrow> True)"

text \<open>The members asked are other members.\<close>

definition otherHosts :: "ReplicaSetConfig \<Rightarrow> int \<Rightarrow> HostAndPort list \<Rightarrow> bool" where
  "otherHosts c i hosts \<longleftrightarrow> 0 \<le> i \<and> i < getNumMembers c \<and> list_all (\<lambda>h. \<not> HostAndPort_eq h (mcHost (members c ! nat i)) \<and>
     findMemberIndexByHostAndPort c h \<noteq> - 1) hosts"

interpretation el: scatter_gather electAlgorithm electValid
  "\<lambda>a. ecActualResponses a = 0 \<and> otherHosts (ecConfig a) (ecSelfIndex a) (ecTargets a) \<and> majorityVoteCount (ecConfig a) \<le> INT_MAX"
  "\<lambda>reqs k a. ecActualResponses a = k \<and> length reqs = length (ecTargets a) \<and> majorityVoteCount (ecConfig a) \<le> INT_MAX"
proof
  fix a :: ElectAlgorithm
  assume a: "ecActualResponses a = 0 \<and> otherHosts (ecConfig a) (ecSelfIndex a) (ecTargets a) \<and> majorityVoteCount (ecConfig a) \<le> INT_MAX"
  then show "\<exists>reqs. sgGetRequests electAlgorithm a = Some reqs \<and> ecActualResponses a = 0 \<and> length reqs = length (ecTargets a) \<and>
      majorityVoteCount (ecConfig a) \<le> INT_MAX"
    by (simp add: electAlgorithm_def elect_getRequests_def otherHosts_def getMemberAt_def getNumMembers_def list_all_iff)
next
  fix reqs :: "ElectCommand RemoteCommandRequest list" and k and a :: ElectAlgorithm and req resp
  assume "ecActualResponses a = k \<and> length reqs = length (ecTargets a) \<and> majorityVoteCount (ecConfig a) \<le> INT_MAX"
    and "\<not> sgHasReceivedSufficientResponses electAlgorithm a" and "electValid resp"
  then show "\<exists>a'. sgProcessResponse electAlgorithm req resp a = Some a' \<and> ecActualResponses a' = Suc k \<and>
      length reqs = length (ecTargets a') \<and> majorityVoteCount (ecConfig a') \<le> INT_MAX"
    by (auto simp: electAlgorithm_def elect_hasReceivedSufficientResponses_def elect_processResponse_def electValid_def addInt_def
        Let_def split: sum.splits option.splits if_splits)
qed (auto simp: electAlgorithm_def elect_hasReceivedSufficientResponses_def)

lemma isVotingMember_Some:
  "findMemberIndexByHostAndPort (fcConfig a) h \<noteq> - 1 \<Longrightarrow> isVotingMember h a = Some (isVotingTarget (fcConfig a) h)"
  using indexOrNone_bounds [of "\<lambda>m. HostAndPort_eq (mcHost m) h" "members (fcConfig a)"]
  by (auto simp: isVotingMember_def isVotingTarget_def findMemberByHostAndPort_def getMemberAt_def findMemberIndexByHostAndPort_def Let_def)

subsection \<open>The outcome of the freshness check\<close>

definition freshFailed :: "FreshReply ResponseStatus \<Rightarrow> bool" where
  "freshFailed response \<longleftrightarrow> (case response of Inl _ \<Rightarrow> True | Inr r \<Rightarrow> fyStatus r \<noteq> StatusOK)"

text \<open>The reply is fresher, malformed, or a veto.\<close>

definition freshBad :: "Timestamp \<Rightarrow> FreshReply ResponseStatus \<Rightarrow> bool" where
  "freshBad t response \<longleftrightarrow> \<not> freshFailed response \<and> (case response of Inl _ \<Rightarrow> False | Inr r \<Rightarrow>
     fyFresher r \<or> fyVeto r \<or> (case fyOpTime r of None \<Rightarrow> True | Some t' \<Rightarrow> t' > t))"

definition freshTie :: "Timestamp \<Rightarrow> FreshReply ResponseStatus \<Rightarrow> bool" where
  "freshTie t response \<longleftrightarrow> \<not> freshFailed response \<and> (case response of Inl _ \<Rightarrow> False | Inr r \<Rightarrow> fyOpTime r = Some t)"

definition undecided :: "FreshnessAlgorithm \<Rightarrow> bool" where
  "undecided a \<longleftrightarrow> fcAbortReason a = AbortNone \<or> fcAbortReason a = FreshnessTie"

definition lostVoter :: "ReplicaSetConfig \<Rightarrow> (FreshCommand RemoteCommandRequest \<times> FreshReply ResponseStatus) \<Rightarrow> bool" where
  "lostVoter c x \<longleftrightarrow> freshFailed (snd x) \<and> isVotingTarget c (rqTarget (fst x))"

lemma fresh_step:
  assumes "findMemberIndexByHostAndPort (fcConfig a) (rqTarget req) \<noteq> - 1"
  shows "\<exists>a'. fresh_processResponse req resp a = Some a' \<and> fcConfig a' = fcConfig a \<and> fcTargets a' = fcTargets a \<and>
    fcResponsesProcessed a' = fcResponsesProcessed a + 1 \<and> fcLosableVoters a' = fcLosableVoters a \<and>
    fcLastOpTimeApplied a' = fcLastOpTimeApplied a \<and>
    fcFailedVoterResponses a' = fcFailedVoterResponses a + of_bool (lostVoter (fcConfig a) (req, resp)) \<and>
    (undecided a \<longrightarrow> (undecided a' \<longleftrightarrow> \<not> freshBad (fcLastOpTimeApplied a) resp \<and>
       \<not> (lostVoter (fcConfig a) (req, resp) \<and> fcFailedVoterResponses a' > fcLosableVoters a))) \<and>
    (undecided a' \<longrightarrow> fcAbortReason a' = (if freshTie (fcLastOpTimeApplied a) resp then FreshnessTie else fcAbortReason a))"
proof (cases resp)
  case (Inl e)
  then show ?thesis using isVotingMember_Some [of "a\<lparr>fcResponsesProcessed := fcResponsesProcessed a + 1\<rparr>" "rqTarget req"] assms
    by (auto simp: fresh_processResponse_def undecided_def lostVoter_def freshFailed_def freshBad_def freshTie_def hadTooManyFailedVoterResponses_def Let_def)
next
  case (Inr r)
  then show ?thesis using isVotingMember_Some [of "a\<lparr>fcResponsesProcessed := fcResponsesProcessed a + 1\<rparr>" "rqTarget req"] assms
    by (cases "fyOpTime r")
      (auto simp: fresh_processResponse_def undecided_def lostVoter_def freshFailed_def freshBad_def freshTie_def hadTooManyFailedVoterResponses_def Let_def)
qed

interpretation fr: scatter_gather freshAlgorithm "\<lambda>_. True"
  "\<lambda>a. fcResponsesProcessed a = 0 \<and> otherHosts (fcConfig a) (fcSelfIndex a) (fcTargets a)"
  "\<lambda>reqs k a. fcResponsesProcessed a = int k \<and> length reqs = length (fcTargets a) \<and>
     (\<forall>req\<in>set reqs. findMemberIndexByHostAndPort (fcConfig a) (rqTarget req) \<noteq> - 1)"
proof
  fix a :: FreshnessAlgorithm
  assume "fcResponsesProcessed a = 0 \<and> otherHosts (fcConfig a) (fcSelfIndex a) (fcTargets a)"
  then show "\<exists>reqs. sgGetRequests freshAlgorithm a = Some reqs \<and> fcResponsesProcessed a = int 0 \<and> length reqs = length (fcTargets a) \<and>
      (\<forall>req\<in>set reqs. findMemberIndexByHostAndPort (fcConfig a) (rqTarget req) \<noteq> - 1)"
    by (auto simp: freshAlgorithm_def fresh_getRequests_def otherHosts_def getMemberAt_def getNumMembers_def list_all_iff)
next
  fix reqs :: "FreshCommand RemoteCommandRequest list" and k and a :: FreshnessAlgorithm and req resp
  assume ok: "fcResponsesProcessed a = int k \<and> length reqs = length (fcTargets a) \<and>
     (\<forall>req\<in>set reqs. findMemberIndexByHostAndPort (fcConfig a) (rqTarget req) \<noteq> - 1)" and "req \<in> set reqs"
  then obtain a' where "fresh_processResponse req resp a = Some a'" "fcConfig a' = fcConfig a" "fcTargets a' = fcTargets a"
      "fcResponsesProcessed a' = fcResponsesProcessed a + 1"
    using fresh_step [of a req resp] by auto
  then show "\<exists>a'. sgProcessResponse freshAlgorithm req resp a = Some a' \<and> fcResponsesProcessed a' = int (Suc k) \<and>
      length reqs = length (fcTargets a') \<and> (\<forall>req\<in>set reqs. findMemberIndexByHostAndPort (fcConfig a') (rqTarget req) \<noteq> - 1)"
    using ok by (simp add: freshAlgorithm_def)
qed (auto simp: freshAlgorithm_def fresh_hasReceivedSufficientResponses_def)

lemma gather_fresh:
  assumes "gather freshAlgorithm rs a = Some a'" and "\<forall>x\<in>set rs. findMemberIndexByHostAndPort (fcConfig a) (rqTarget (fst x)) \<noteq> - 1"
    and "undecided a" and "fcFailedVoterResponses a \<le> fcLosableVoters a"
    and "fcResponsesProcessed a + int (length rs) = int (length (fcTargets a))"
  shows "(undecided a' \<longleftrightarrow> (\<forall>x\<in>set rs. \<not> freshBad (fcLastOpTimeApplied a) (snd x)) \<and>
      fcFailedVoterResponses a + int (length (filter (lostVoter (fcConfig a)) rs)) \<le> fcLosableVoters a) \<and>
    (undecided a' \<longrightarrow> fcAbortReason a' = (if \<exists>x\<in>set rs. freshTie (fcLastOpTimeApplied a) (snd x) then FreshnessTie else fcAbortReason a))"
  using assms
proof (induction rs arbitrary: a)
  case (Cons x rs)
  obtain req resp where x: "x = (req, resp)" by (cases x)
  obtain b where b: "fresh_processResponse req resp a = Some b" "fcConfig b = fcConfig a" "fcTargets b = fcTargets a"
      "fcResponsesProcessed b = fcResponsesProcessed a + 1" "fcLosableVoters b = fcLosableVoters a"
      "fcLastOpTimeApplied b = fcLastOpTimeApplied a"
      "fcFailedVoterResponses b = fcFailedVoterResponses a + of_bool (lostVoter (fcConfig a) x)"
      "undecided b \<longleftrightarrow> \<not> freshBad (fcLastOpTimeApplied a) resp \<and>
         \<not> (lostVoter (fcConfig a) x \<and> fcFailedVoterResponses b > fcLosableVoters a)"
      "undecided b \<longrightarrow> fcAbortReason b = (if freshTie (fcLastOpTimeApplied a) resp then FreshnessTie else fcAbortReason a)"
  proof -
    have "findMemberIndexByHostAndPort (fcConfig a) (rqTarget req) \<noteq> - 1" using Cons.prems(2) x by simp
    from fresh_step [OF this, of resp] show thesis using that Cons.prems(3) unfolding x by blast
  qed
  have "\<not> fresh_hasReceivedSufficientResponses a"
    using Cons.prems(3,5) by (auto simp: fresh_hasReceivedSufficientResponses_def undecided_def)
  then have rest: "gather freshAlgorithm rs b = Some a'" using Cons.prems(1) x b(1) by (simp add: freshAlgorithm_def)
  show ?case
  proof (cases "undecided b")
    case True
    then have "fcFailedVoterResponses b \<le> fcLosableVoters a" using b(7,8) Cons.prems(4) by auto
    then show ?thesis using Cons.IH [OF rest _ True] b Cons.prems(2,5) True x by auto
  next
    case False
    then have "fresh_hasReceivedSufficientResponses b" by (simp add: fresh_hasReceivedSufficientResponses_def undecided_def)
    then have "a' = b" using rest gather_enough [of freshAlgorithm b rs] by (simp add: freshAlgorithm_def)
    then show ?thesis using False b(7,8) x by auto
  qed
qed simp

text \<open>C17: When every member asked has answered, the freshness check is complete. It lets the election go on exactly if nobody
  is fresher, vetoes, or sends a malformed answer, nobody ties, and no more voters failed to answer than may be lost
  without losing the majority; it reports a tie exactly if only a tie speaks against it. The order of the answers does not matter.\<close>

theorem freshness_spec:
  assumes new: "newFreshnessAlgorithm t c i targets = Some a" and other: "otherHosts c i targets"
    and reqs: "fresh_getRequests a = Some reqs"
    and ans: "\<forall>(req, resp)\<in>set rs. resp \<noteq> Inl CallbackCanceled" and rs: "mset (map fst rs) = mset reqs"
  defines "clear \<equiv> (\<forall>x\<in>set rs. \<not> freshBad t (snd x)) \<and> int (length (filter (lostVoter c) rs)) \<le>
      max 0 (int (length (filter (isVotingTarget c) targets)) + of_bool (isVoter (members c ! nat i)) - majorityVoteCount c)"
  shows "\<exists>r r'. runner_start freshAlgorithm True (\<lambda>_. True) (newRunner a) = Some (StatusOK, r) \<and>
    deliver freshAlgorithm rs r = Some r' \<and> srCompletions r' = 1 \<and>
    (fcAbortReason (srAlgorithm r') = AbortNone \<longleftrightarrow> clear \<and> (\<forall>x\<in>set rs. \<not> freshTie t (snd x))) \<and>
    (fcAbortReason (srAlgorithm r') = FreshnessTie \<longleftrightarrow> clear \<and> (\<exists>x\<in>set rs. freshTie t (snd x)))"
proof -
  have a: "fcResponsesProcessed a = 0" "fcFailedVoterResponses a = 0" "fcLastOpTimeApplied a = t" "fcConfig a = c" "fcSelfIndex a = i"
      "fcTargets a = targets" "fcAbortReason a = AbortNone"
      "fcLosableVoters a = max 0 (int (length (filter (isVotingTarget c) targets)) + of_bool (isVoter (members c ! nat i)) - majorityVoteCount c)"
    using new other by (auto simp: newFreshnessAlgorithm_def getMemberAt_def otherHosts_def getNumMembers_def run_simps Let_def)
  have ready: "fcResponsesProcessed a = 0 \<and> otherHosts (fcConfig a) (fcSelfIndex a) (fcTargets a)" using a other by simp
  have "\<forall>(req, resp)\<in>set rs. resp \<noteq> Inl CallbackCanceled \<and> True" "sgGetRequests freshAlgorithm a = Some reqs"
    using ans reqs by (simp_all add: freshAlgorithm_def)
  from fr.completes [OF ready this rs] obtain r r' where
    run: "runner_start freshAlgorithm True (\<lambda>_. True) (newRunner a) = Some (StatusOK, r)"
      "deliver freshAlgorithm rs r = Some r'" "srCompletions r' = 1" "gather freshAlgorithm rs a = Some (srAlgorithm r')"
    by blast
  have req: "length reqs = length targets" "\<forall>req\<in>set reqs. findMemberIndexByHostAndPort c (rqTarget req) \<noteq> - 1"
    using fr.requests [OF ready] reqs a by (auto simp: freshAlgorithm_def)
  have "fst ` set rs = set reqs" "length rs = length reqs" using arg_cong [OF rs, of set_mset] arg_cong [OF rs, of size] by simp_all
  then have mem: "\<forall>x\<in>set rs. findMemberIndexByHostAndPort c (rqTarget (fst x)) \<noteq> - 1" "length rs = length targets" using req by auto
  let ?b = "srAlgorithm r'"
  have "undecided a" using a by (simp add: undecided_def)
  from gather_fresh [OF run(4), unfolded a, OF mem(1) this] mem(2)
  have "undecided ?b \<longleftrightarrow> clear" "undecided ?b \<longrightarrow> fcAbortReason ?b = (if \<exists>x\<in>set rs. freshTie t (snd x) then FreshnessTie else AbortNone)"
    unfolding clear_def by simp_all
  then have "(fcAbortReason ?b = AbortNone \<longleftrightarrow> clear \<and> (\<forall>x\<in>set rs. \<not> freshTie t (snd x))) \<and>
      (fcAbortReason ?b = FreshnessTie \<longleftrightarrow> clear \<and> (\<exists>x\<in>set rs. freshTie t (snd x)))"
    by (cases "\<exists>x\<in>set rs. freshTie t (snd x)"; cases "fcAbortReason ?b") (simp_all add: undecided_def)
  then show ?thesis using run(1-3) by blast
qed

definition sampleTargets :: "HostAndPort list" where
  "sampleTargets = [HostAndPort ''b'' 1, HostAndPort ''c'' 1]"

definition sampleFresh :: "(FreshCommand RemoteCommandRequest \<times> FreshReply ResponseStatus) list" where
  "sampleFresh = zip (the (fresh_getRequests (the (newFreshnessAlgorithm (Timestamp 5 0) sampleSet 0 sampleTargets))))
     [Inr \<lparr>fyStatus = StatusOK, fyFresher = False, fyOpTime = Some (Timestamp 4 0), fyVeto = False\<rparr>, Inl HostUnreachable]"

lemma sampleFresh_run:
  "case newFreshnessAlgorithm (Timestamp 5 0) sampleSet 0 sampleTargets of None \<Rightarrow> False | Some a \<Rightarrow>
     (case fresh_getRequests a of None \<Rightarrow> False | Some reqs \<Rightarrow> length reqs = 2 \<and> otherHosts sampleSet 0 sampleTargets \<and>
        list_all (\<lambda>x. \<not> freshBad (Timestamp 5 0) (snd x) \<and> \<not> freshTie (Timestamp 5 0) (snd x) \<and> snd x \<noteq> Inl CallbackCanceled) sampleFresh \<and>
        int (length (filter (lostVoter sampleSet) sampleFresh)) \<le> max 0 (int (length (filter (isVotingTarget sampleSet) sampleTargets)) +
          of_bool (isVoter (members sampleSet ! nat 0)) - majorityVoteCount sampleSet))"
  by code_simp

theorem freshness_spec_witness:
  "\<exists>a r r'. newFreshnessAlgorithm (Timestamp 5 0) sampleSet 0 sampleTargets = Some a \<and>
     runner_start freshAlgorithm True (\<lambda>_. True) (newRunner a) = Some (StatusOK, r) \<and>
     deliver freshAlgorithm sampleFresh r = Some r' \<and> fcAbortReason (srAlgorithm r') = AbortNone"
proof -
  obtain a reqs where run: "newFreshnessAlgorithm (Timestamp 5 0) sampleSet 0 sampleTargets = Some a" "fresh_getRequests a = Some reqs"
      "length reqs = 2" and other: "otherHosts sampleSet 0 sampleTargets"
    using sampleFresh_run by (auto split: option.splits)
  have clear: "\<forall>x\<in>set sampleFresh. \<not> freshBad (Timestamp 5 0) (snd x) \<and> \<not> freshTie (Timestamp 5 0) (snd x) \<and> snd x \<noteq> Inl CallbackCanceled"
      "int (length (filter (lostVoter sampleSet) sampleFresh)) \<le> max 0 (int (length (filter (isVotingTarget sampleSet) sampleTargets)) +
        of_bool (isVoter (members sampleSet ! nat 0)) - majorityVoteCount sampleSet)"
    using sampleFresh_run run(1,2) by (simp_all add: list_all_iff)
  then have ans: "\<forall>(req, resp)\<in>set sampleFresh. resp \<noteq> Inl CallbackCanceled" by auto
  have "mset (map fst sampleFresh) = mset reqs" using run by (simp add: sampleFresh_def)
  from freshness_spec [OF run(1) other run(2) ans this] obtain r r' where
    "runner_start freshAlgorithm True (\<lambda>_. True) (newRunner a) = Some (StatusOK, r)" "deliver freshAlgorithm sampleFresh r = Some r'"
    "fcAbortReason (srAlgorithm r') = AbortNone"
    using clear by blast
  then show ?thesis using run(1) by blast
qed

end
