(* ===== verification/VoteRequester.thy ===== *)
theory VoteRequester
  imports ScatterGather TopologyCoord WriteConcern
begin

text \<open>
  The collection of votes of \<^verbatim>\<open>src/src/mongo/db/repl/vote_requester.cpp\<close>: the candidate asks every other voter and
  stops as soon as a majority granted its vote, a newer term is seen, or every voter has answered. It interprets the
  contract of \<open>ScatterGather\<close>; the votes it counts are the granting answers of different voters, and its own.
\<close>

datatype VoteResult = kSuccessfullyElected | kStaleTerm | kInsufficientVotes

record VoteAlgorithm =
  vaConfig :: ReplicaSetConfig
  vaCandidateIndex :: int
  vaTerm :: Term
  vaDryRun :: bool
  vaLastOplogEntry :: OpTime
  vaTargets :: "HostAndPort list"
  vaResponders :: "HostKey set"
  vaStaleTerm :: bool
  vaResponsesProcessed :: nat
  vaVotes :: int

text \<open>The positions of the voting members other than the candidate.\<close>

definition otherVoters :: "ReplicaSetConfig \<Rightarrow> int \<Rightarrow> nat list" where
  "otherVoters c candidateIndex =
     filter (\<lambda>i. isVoter (members c ! i) \<and> int i \<noteq> candidateIndex) [0..<length (members c)]"

definition newVoteAlgorithm :: "ReplicaSetConfig \<Rightarrow> int \<Rightarrow> Term \<Rightarrow> bool \<Rightarrow> OpTime \<Rightarrow> VoteAlgorithm" where
  "newVoteAlgorithm rsConfig candidateIndex newTerm dryRun lastOplogEntry =
     \<lparr>vaConfig = rsConfig, vaCandidateIndex = candidateIndex, vaTerm = newTerm, vaDryRun = dryRun,
      vaLastOplogEntry = lastOplogEntry,
      vaTargets = map (\<lambda>i. mcHost (members rsConfig ! i)) (otherVoters rsConfig candidateIndex),
      vaResponders = {}, vaStaleTerm = False, vaResponsesProcessed = 0, vaVotes = 1\<rparr>"

definition vote_getRequests :: "VoteAlgorithm \<Rightarrow> ReplSetRequestVotesArgs RemoteCommandRequest list option" where
  "vote_getRequests a =
     (let requestVotesCmd = \<lparr>rvSetName = replSetName (vaConfig a), rvDryRun = vaDryRun a, rvTerm = vaTerm a,
            rvCandidateIndex = vaCandidateIndex a, rvConfigVersion = cfgVersion (vaConfig a),
            rvLastCommittedOp = vaLastOplogEntry a\<rparr>
      in Some (map (\<lambda>target. \<lparr>rqTarget = target, rqCommand = requestVotesCmd,
                      rqTimeout = electionTimeoutPeriod (vaConfig a)\<rparr>) (vaTargets a)))"

text \<open>The response is the object that \<open>initialize\<close> leaves; the fields it has not read keep their defaults.\<close>

definition vote_processResponse ::
  "ReplSetRequestVotesArgs RemoteCommandRequest \<Rightarrow> ReplSetRequestVotesResponse ResponseStatus \<Rightarrow> VoteAlgorithm \<Rightarrow> VoteAlgorithm option" where
  "vote_processResponse request response a =
     (let a = a\<lparr>vaResponsesProcessed := Suc (vaResponsesProcessed a)\<rparr>
      in case response of
           Inl _ \<Rightarrow> Some a
         | Inr voteResponse \<Rightarrow>
             let a = a\<lparr>vaResponders := insert (hostKey (rqTarget request)) (vaResponders a)\<rparr>;
                 a = (if rrVoteGranted voteResponse then a\<lparr>vaVotes := vaVotes a + 1\<rparr> else a)
             in Some (if rrTerm voteResponse > vaTerm a then a\<lparr>vaStaleTerm := True\<rparr> else a))"

definition vote_hasReceivedSufficientResponses :: "VoteAlgorithm \<Rightarrow> bool" where
  "vote_hasReceivedSufficientResponses a \<longleftrightarrow>
     vaStaleTerm a \<or> vaVotes a = majorityVoteCount (vaConfig a) \<or> vaResponsesProcessed a = length (vaTargets a)"

definition vote_getResult :: "VoteAlgorithm \<Rightarrow> VoteResult" where
  "vote_getResult a =
     (if vaStaleTerm a then kStaleTerm
      else if vaVotes a \<ge> majorityVoteCount (vaConfig a) then kSuccessfullyElected
      else kInsufficientVotes)"

definition voteAlgorithm :: "(VoteAlgorithm, ReplSetRequestVotesArgs, ReplSetRequestVotesResponse) ScatterGatherAlgorithm" where
  "voteAlgorithm = \<lparr>sgGetRequests = vote_getRequests, sgProcessResponse = vote_processResponse,
     sgHasReceivedSufficientResponses = vote_hasReceivedSufficientResponses\<rparr>"

subsection \<open>The contract\<close>

lemma vote_processResponse_Some: "\<exists>a'. vote_processResponse req resp a = Some a'"
  by (cases resp) (simp_all add: vote_processResponse_def Let_def)

lemma vote_processResponse_frame:
  "vote_processResponse req resp a = Some a' \<Longrightarrow> vaResponsesProcessed a' = Suc (vaResponsesProcessed a) \<and>
     vaTargets a' = vaTargets a \<and> vaConfig a' = vaConfig a \<and> vaTerm a' = vaTerm a \<and> vaCandidateIndex a' = vaCandidateIndex a \<and>
     vaDryRun a' = vaDryRun a"
  by (cases resp) (auto simp: vote_processResponse_def Let_def split: if_splits)

interpretation vr: scatter_gather voteAlgorithm "\<lambda>_. True" "\<lambda>a. vaResponsesProcessed a = 0"
  "\<lambda>reqs k a. vaResponsesProcessed a = k \<and> length reqs = length (vaTargets a)"
proof
  fix reqs k a req resp
  obtain a' where "vote_processResponse req resp a = Some a'" using vote_processResponse_Some by blast
  moreover assume "vaResponsesProcessed a = k \<and> length reqs = length (vaTargets a)"
  ultimately show "\<exists>a'. sgProcessResponse voteAlgorithm req resp a = Some a' \<and>
      vaResponsesProcessed a' = Suc k \<and> length reqs = length (vaTargets a')"
    using vote_processResponse_frame [of req resp a a'] by (simp add: voteAlgorithm_def)
qed (auto simp: voteAlgorithm_def vote_getRequests_def vote_hasReceivedSufficientResponses_def Let_def)

subsection \<open>The votes counted\<close>

definition granted :: "(ReplSetRequestVotesArgs RemoteCommandRequest \<times> ReplSetRequestVotesResponse ResponseStatus) \<Rightarrow> bool" where
  "granted x \<longleftrightarrow> (case snd x of Inl _ \<Rightarrow> False | Inr v \<Rightarrow> rrVoteGranted v)"

definition stale :: "Term \<Rightarrow> (ReplSetRequestVotesArgs RemoteCommandRequest \<times> ReplSetRequestVotesResponse ResponseStatus) \<Rightarrow> bool" where
  "stale t x \<longleftrightarrow> (case snd x of Inl _ \<Rightarrow> False | Inr v \<Rightarrow> rrTerm v > t)"

lemma vote_processResponse_votes:
  "vote_processResponse req resp a = Some a' \<Longrightarrow> vaVotes a' = vaVotes a + of_bool (granted (req, resp)) \<and>
     (vaStaleTerm a' \<longleftrightarrow> vaStaleTerm a \<or> stale (vaTerm a) (req, resp)) \<and>
     vaResponders a' = vaResponders a \<union> (if isl resp then {} else {hostKey (rqTarget req)})"
  by (cases resp) (auto simp: vote_processResponse_def granted_def stale_def Let_def split: if_splits)

lemma absorb_votes:
  "absorb voteAlgorithm rs a = Some a' \<Longrightarrow> vaVotes a' = vaVotes a + int (length (filter granted rs)) \<and>
     (vaStaleTerm a' \<longleftrightarrow> vaStaleTerm a \<or> (\<exists>x\<in>set rs. stale (vaTerm a) x)) \<and>
     vaConfig a' = vaConfig a \<and> vaTargets a' = vaTargets a \<and> vaResponsesProcessed a' = vaResponsesProcessed a + length rs"
proof (induction rs arbitrary: a)
  case (Cons x rs)
  obtain req resp where x: "x = (req, resp)" by (cases x)
  obtain b where b: "vote_processResponse req resp a = Some b" "absorb voteAlgorithm rs b = Some a'"
    using Cons.prems x by (auto simp: voteAlgorithm_def bind_eq_Some_conv)
  show ?case
    using Cons.IH [OF b(2)] x vote_processResponse_frame [OF b(1)] vote_processResponse_votes [OF b(1)] by auto
qed simp

text \<open>C15: When every voter asked has answered, the vote request is complete, and has signalled so exactly once. The candidate is
  elected only with the granted votes of a majority; if no answer shows a newer term, a majority of granted votes does
  elect it, whatever the order of the answers; and it gives up for a newer term only if an answer showed one.\<close>

theorem vote_requester_spec:
  assumes "\<forall>(req, resp)\<in>set rs. resp \<noteq> Inl CallbackCanceled" and reqs: "vote_getRequests (newVoteAlgorithm c i t d op) = Some reqs"
    and rs: "mset (map fst rs) = mset reqs"
  shows "\<exists>r r'. runner_start voteAlgorithm True (\<lambda>_. True) (newRunner (newVoteAlgorithm c i t d op)) = Some (StatusOK, r) \<and>
    deliver voteAlgorithm rs r = Some r' \<and> srCompletions r' = 1 \<and>
    (vote_getResult (srAlgorithm r') = kSuccessfullyElected \<longrightarrow> majorityVoteCount c \<le> 1 + int (length (filter granted rs))) \<and>
    (vote_getResult (srAlgorithm r') = kStaleTerm \<longrightarrow> (\<exists>x\<in>set rs. stale t x)) \<and>
    ((\<forall>x\<in>set rs. \<not> stale t x) \<longrightarrow> majorityVoteCount c \<le> 1 + int (length (filter granted rs)) \<longrightarrow>
       vote_getResult (srAlgorithm r') = kSuccessfullyElected)"
proof -
  let ?a = "newVoteAlgorithm c i t d op"
  have len: "length rs = length (vaTargets ?a)"
    using arg_cong [OF rs, of size] reqs by (auto simp: vote_getRequests_def Let_def)
  have new: "vaResponsesProcessed ?a = 0" "vaVotes ?a = 1" "\<not> vaStaleTerm ?a" "vaConfig ?a = c" "vaTerm ?a = t"
    by (simp_all add: newVoteAlgorithm_def)
  obtain r r' where run: "runner_start voteAlgorithm True (\<lambda>_. True) (newRunner ?a) = Some (StatusOK, r)"
      "deliver voteAlgorithm rs r = Some r'" "srCompletions r' = 1" "gather voteAlgorithm rs ?a = Some (srAlgorithm r')"
    using vr.completes [of ?a rs reqs] assms new(1) by (auto simp: voteAlgorithm_def)
  let ?b = "srAlgorithm r'"
  obtain k where pre: "k \<le> length rs" "absorb voteAlgorithm (take k rs) ?a = Some ?b"
      "k < length rs \<longrightarrow> vote_hasReceivedSufficientResponses ?b"
    using gather_prefix [OF run(4)] by (auto simp: voteAlgorithm_def)
  then have k: "vaVotes ?b = 1 + int (length (filter granted (take k rs)))" "vaStaleTerm ?b \<longleftrightarrow> (\<exists>x\<in>set (take k rs). stale t x)"
      "vaConfig ?b = c" "vaTargets ?b = vaTargets ?a" "vaResponsesProcessed ?b = k"
    using absorb_votes [OF pre(2)] new by simp_all
  have "filter granted rs = filter granted (take k rs) @ filter granted (drop k rs)"
    by (metis append_take_drop_id filter_append)
  then have more: "vaVotes ?b \<le> 1 + int (length (filter granted rs))" using k(1) by simp
  have prefix: "x \<in> set (take k rs) \<Longrightarrow> x \<in> set rs" for x by (rule in_set_takeD)
  have "vaVotes ?b \<ge> majorityVoteCount c"
    if "\<forall>x\<in>set rs. \<not> stale t x" "majorityVoteCount c \<le> 1 + int (length (filter granted rs))"
  proof (cases "k = length rs")
    case False
    then show ?thesis using pre k that(1) len prefix by (auto simp: vote_hasReceivedSufficientResponses_def)
  qed (use k(1) that(2) in simp)
  moreover have "vaStaleTerm ?b \<Longrightarrow> \<exists>x\<in>set rs. stale t x" using k(2) prefix by blast
  ultimately show ?thesis using run more k(3) by (auto simp: vote_getResult_def)
qed

definition sampleVotes :: "(ReplSetRequestVotesArgs RemoteCommandRequest \<times> ReplSetRequestVotesResponse ResponseStatus) list" where
  "sampleVotes = zip (the (vote_getRequests (newVoteAlgorithm sampleSet 0 7 False nullOpTime)))
     [Inr \<lparr>rrTerm = 7, rrVoteGranted = False, rrReason = DataStale\<rparr>, Inr \<lparr>rrTerm = 7, rrVoteGranted = True, rrReason = NoReason\<rparr>]"

lemma sampleVotes_run:
  "case vote_getRequests (newVoteAlgorithm sampleSet 0 7 False nullOpTime) of None \<Rightarrow> False | Some reqs \<Rightarrow>
     length reqs = 2 \<and> majorityVoteCount sampleSet \<le> 1 + int (length (filter granted sampleVotes)) \<and>
     list_all (\<lambda>x. \<not> stale 7 x) sampleVotes"
  by code_simp

theorem vote_requester_spec_witness:
  "\<exists>r r'. runner_start voteAlgorithm True (\<lambda>_. True) (newRunner (newVoteAlgorithm sampleSet 0 7 False nullOpTime)) = Some (StatusOK, r) \<and>
     deliver voteAlgorithm sampleVotes r = Some r' \<and> srCompletions r' = 1 \<and> vote_getResult (srAlgorithm r') = kSuccessfullyElected"
proof -
  obtain reqs where reqs: "vote_getRequests (newVoteAlgorithm sampleSet 0 7 False nullOpTime) = Some reqs" "length reqs = 2"
    using sampleVotes_run by (auto split: option.splits)
  have ans: "\<forall>(req, resp)\<in>set sampleVotes. resp \<noteq> Inl CallbackCanceled" by (auto simp: sampleVotes_def dest!: set_zip_rightD)
  have "mset (map fst sampleVotes) = mset reqs" using reqs by (simp add: sampleVotes_def)
  from vote_requester_spec [OF ans reqs(1) this] show ?thesis using sampleVotes_run by (auto simp: list_all_iff split: option.splits)
qed

end
