(* ===== verification/ElectionFrame.thy ===== *)
theory ElectionFrame
  imports TopologySystem
begin

text \<open>
  What the events of the topology coordinator leave alone: the configuration, the own position in it, the last vote and the
  term change only when a configuration is installed, a term is learnt, a vote is cast, or a stored vote is loaded.
\<close>

subsection \<open>Runs that keep a property\<close>

definition yields :: "'a option \<Rightarrow> ('a \<Rightarrow> bool) \<Rightarrow> bool" where
  "yields m P \<longleftrightarrow> (\<forall>x. m = Some x \<longrightarrow> P x)"

lemma yields_Some: "P x \<Longrightarrow> yields (Some x) P"
  by (simp add: yields_def)

lemma yields_None: "yields None P"
  by (simp add: yields_def)

lemma yields_bind: "(\<And>x. m = Some x \<Longrightarrow> yields (f x) P) \<Longrightarrow> yields (m \<bind> f) P"
  by (auto simp: yields_def bind_eq_Some_conv)

lemma yields_if: "(b \<Longrightarrow> yields m P) \<Longrightarrow> (\<not> b \<Longrightarrow> yields n P) \<Longrightarrow> yields (if b then m else n) P"
  by simp

lemma yieldsD: "yields m P \<Longrightarrow> m = Some x \<Longrightarrow> P x"
  by (simp add: yields_def)

lemmas yields_intros = yields_Some yields_None yields_bind yields_if

subsection \<open>The ballot\<close>

definition ballot :: "TopologyCoordinator \<Rightarrow> ReplicaSetConfig \<times> int \<times> LastVote \<times> Term" where
  "ballot s = (tcConfig s, tcSelfIndex s, tcLastVote s, tcTerm s)"

definition kept :: "TopologyCoordinator \<Rightarrow> 'a \<times> TopologyCoordinator \<Rightarrow> bool" where
  "kept s x \<longleftrightarrow> ballot (snd x) = ballot s"

lemma kept_Pair [simp]: "kept s (r, s') \<longleftrightarrow> ballot s' = ballot s"
  by (simp add: kept_def)

lemma ballot_simps [simp]:
  "ballot (s\<lparr>tcCurrentPrimaryIndex := i\<rparr>) = ballot s" "ballot (s\<lparr>tcRole := r\<rparr>) = ballot s" "ballot (s\<lparr>tcStepDownPending := b\<rparr>) = ballot s"
  "ballot (s\<lparr>tcStepDownUntil := d\<rparr>) = ballot s" "ballot (s\<lparr>tcSyncSource := h\<rparr>) = ballot s" "ballot (s\<lparr>tcHbdata := x\<rparr>) = ballot s"
  "ballot (s\<lparr>tcForceSyncSourceIndex := i\<rparr>) = ballot s" "ballot (s\<lparr>tcElectionTime := t\<rparr>) = ballot s" "ballot (s\<lparr>tcElectionId := o'\<rparr>) = ballot s"
  "ballot (s\<lparr>tcVoteWhen := d\<rparr>) = ballot s" "ballot (s\<lparr>tcVoteWhoId := i\<rparr>) = ballot s" "ballot (s\<lparr>tcVoteWhoHost := h\<rparr>) = ballot s"
  "ballot (s\<lparr>tcFollowerMode := m\<rparr>) = ballot s" "ballot (s\<lparr>tcMaintenanceModeCalls := i\<rparr>) = ballot s"
  "ballot (s\<lparr>tcElectionSleepUntil := d\<rparr>) = ballot s" "ballot (setMyHeartbeatMessage now msg s) = ballot s" "ballot (setPing h p s) = ballot s"
  "ballot (setElectionSleepUntil d s) = ballot s"
  by (simp_all add: ballot_def setMyHeartbeatMessage_def setPing_def setElectionSleepUntil_def)

lemma kept_bind: "yields m (kept s) \<Longrightarrow> (\<And>r s'. m = Some (r, s') \<Longrightarrow> ballot s' = ballot s \<Longrightarrow> yields (f (r, s')) P) \<Longrightarrow> yields (m \<bind> f) P"
  by (cases m) (auto simp: yields_def)

lemma kept_bind1: "yields m (\<lambda>s'. ballot s' = ballot s) \<Longrightarrow> (\<And>s'. ballot s' = ballot s \<Longrightarrow> yields (f s') P) \<Longrightarrow> yields (m \<bind> f) P"
  by (cases m) (auto simp: yields_def)

lemma kept_from: "yields m (kept s1) \<Longrightarrow> ballot s1 = ballot s \<Longrightarrow> yields m (kept s)"
  by (simp add: yields_def kept_def)

lemma stepDownSelfAndReplaceWith_kept: "yields (stepDownSelfAndReplaceWith i s) (\<lambda>s'. ballot s' = ballot s)"
  unfolding stepDownSelfAndReplaceWith_def by (intro yields_intros) simp

lemma stepDown_kept: "yields (stepDown until force lastOp s) (kept s)"
  unfolding stepDown_def
  by (intro yields_intros kept_bind1 [OF stepDownSelfAndReplaceWith_kept]) simp_all

lemma stepDownIfPending_kept: "yields (stepDownIfPending s) (kept s)"
  unfolding stepDownIfPending_def Let_def
  by (intro yields_intros kept_bind1 [OF stepDownSelfAndReplaceWith_kept]) simp_all

lemma syncFrom_kept: "yields (syncFrom now p q i s) (kept s)"
  unfolding syncFrom_def Let_def by (intro yields_intros) simp

lemma chooseNewSyncSource_kept: "yields (chooseNewSyncSource now ts s) (kept s)"
  unfolding chooseNewSyncSource_def
  by (auto split: option.split intro!: yields_bind yields_Some yields_if kept_from [OF syncFrom_kept])

lemma setForceSyncSourceIndex_kept: "yields (setForceSyncSourceIndex i s) (\<lambda>s'. ballot s' = ballot s)"
  unfolding setForceSyncSourceIndex_def by (intro yields_intros) simp

lemma prepareSyncFromResponse_kept: "yields (prepareSyncFromResponse canceled target lastOp s) (kept s)"
  unfolding prepareSyncFromResponse_def Let_def
  by (intro yields_Some yields_if kept_bind1 [OF setForceSyncSourceIndex_kept] yields_bind [where m = "selfConfig s"]
      yields_bind [where m = "getMemberAt c i" for c i] yields_bind [where m = "hbdataAt s i" for i]) simp_all

lemma prepareElectResponse_kept: "yields (prepareElectResponse args now lastOp s) (kept s)"
  unfolding prepareElectResponse_def Let_def
  by (auto split: option.split intro!: yields_bind yields_Some yields_if)

lemma election_kept:
  "yields (performWinElection ts s) (\<lambda>s'. ballot s' = ballot s)" "yields (processLoseElection s) (\<lambda>s'. ballot s' = ballot s)"
  unfolding performWinElection_def processWinElection_def processLoseElection_def Let_def
  by (auto intro!: yields_bind yields_Some yields_if)

lemma noteHeartbeatFrom_kept: "yields (noteHeartbeatFrom now i s) (kept s)"
  unfolding noteHeartbeatFrom_def by (intro yields_intros) simp

lemma prepareHeartbeatResponse_kept: "yields (prepareHeartbeatResponse now args n lastOp rsp s) (kept s)"
  unfolding prepareHeartbeatResponse_def Let_def
  by (auto intro!: yields_Some yields_if kept_bind [OF noteHeartbeatFrom_kept] yields_bind [where m = "getMemberState s"]
      yields_bind [where m = "invariant b" for b] yields_bind [where m = "heartbeatError x y s" for x y]
      yields_bind [where m = "getMyUnelectableReason x y s" for x y])

lemma prepareHeartbeatResponseV1_kept: "yields (prepareHeartbeatResponseV1 now args n lastOp rsp s) (kept s)"
  unfolding prepareHeartbeatResponseV1_def Let_def
  by (auto intro!: yields_Some yields_if kept_bind [OF noteHeartbeatFrom_kept] yields_bind [where m = "getMemberState s"]
      yields_bind [where m = "currentPrimaryMember s"] yields_bind [where m = "heartbeatError x y s" for x y])

lemma prepareHeartbeatRequest_kept:
  "yields (prepareHeartbeatRequest now n target s) (kept s)" "yields (prepareHeartbeatRequestV1 now n target s) (kept s)"
  unfolding prepareHeartbeatRequest_def prepareHeartbeatRequestV1_def Let_def
  by (auto split: prod.split intro!: yields_bind yields_Some yields_if)

lemma stepDownWithoutMajority_kept: "yields (stepDownWithoutMajority now lastOp s) (kept s)"
  unfolding stepDownWithoutMajority_def stepDownSelfOnce_def by (intro yields_intros) auto

lemma confirmPrimary_kept: "yields (confirmPrimary i s) (\<lambda>s'. ballot s' = ballot s)"
  unfolding confirmPrimary_def by (intro yields_intros) simp_all

lemma updatePrimaryFromHBDataV1_kept: "yields (updatePrimaryFromHBDataV1 i st now lastOp s) (kept s)"
  unfolding updatePrimaryFromHBDataV1_def Let_def
  apply (rule yields_bind)
  apply (rule yields_if, simp add: yields_Some)
  apply (rule kept_bind1 [OF confirmPrimary_kept])
  by (auto intro!: yields_bind yields_Some yields_if kept_from [OF stepDownWithoutMajority_kept])

lemma checkPriorities_kept: "yields (checkPriorities now lastOp s) (kept s)"
  unfolding checkPriorities_def by (intro yields_intros) simp_all

lemma becomeCandidateIfElectable_kept: "yields (becomeCandidateIfElectable now lastOp s) (kept s)"
  unfolding becomeCandidateIfElectable_def by (auto intro!: yields_bind yields_Some yields_if)

lemma updatePrimaryFromHBData_kept: "yields (updatePrimaryFromHBData i st now lastOp s) (kept s)"
  unfolding updatePrimaryFromHBData_def Let_def
  apply (rule yields_bind)
  apply (rule yields_if, simp add: yields_Some)
  apply (rule kept_bind1 [OF confirmPrimary_kept])
  apply (rule kept_bind [OF checkPriorities_kept])
  apply (simp split: option.split list.split)
  by (auto simp: stepDownSelfOnce_def intro!: yields_Some yields_if kept_from [OF stepDownWithoutMajority_kept] yields_bind [where m = "iAmPrimary x" for x]
    yields_bind [where m = "hbdataAt x y" for x y] yields_bind [where m = "considerElection x y z w" for x y z w] yields_bind [where m = "invariant x" for x]
      kept_bind [OF becomeCandidateIfElectable_kept])

lemma updateMemberData_kept: "yields (updateMemberData now rsp st i s) (\<lambda>s'. ballot s' = ballot s)"
  unfolding updateMemberData_def Let_def by (intro yields_intros) simp

lemma setMemberAsDown_kept: "yields (setMemberAsDown now i lastOp s) (kept s)"
  unfolding setMemberAsDown_def by (intro yields_intros kept_from [OF stepDownWithoutMajority_kept]) simp

lemma processHeartbeatResponse_kept: "yields (processHeartbeatResponse now rtt target rsp lastOp s) (kept s)"
  unfolding processHeartbeatResponse_def Let_def
  apply (rule yields_bind)+
  apply (rule yields_if, simp add: yields_Some)
  apply (rule yields_if, simp add: yields_Some)
  apply (rule yields_if, simp add: yields_Some)
  apply (rule yields_bind)
  apply (rule kept_bind1 [OF updateMemberData_kept])
  by (auto intro!: kept_bind yields_Some yields_if kept_from [OF updatePrimaryFromHBData_kept] kept_from [OF updatePrimaryFromHBDataV1_kept])

lemma prepareFreezeResponse_kept: "yields (prepareFreezeResponse now secs s) (kept s)"
  unfolding prepareFreezeResponse_def Let_def by (auto intro!: yields_bind yields_Some yields_if)

lemma freeze_kept: "yields (processReplSetFreeze_finish canceled now secs ts s) (kept s)"
  unfolding processReplSetFreeze_finish_def
  apply (rule yields_if, simp add: yields_Some)
  apply (rule kept_bind [OF prepareFreezeResponse_kept])
  by (auto simp: yields_def bind_eq_Some_conv split: if_splits dest: yieldsD [OF election_kept(1)])

lemma handleTimePassing_kept: "yields (handleTimePassing now ts s) (\<lambda>s'. ballot s' = ballot s)"
proof -
  have "yields (becomeCandidateIfStepdownPeriodOverAndSingleNodeSet now s) (kept s)"
    unfolding becomeCandidateIfStepdownPeriodOverAndSingleNodeSet_def by (auto intro!: yields_bind yields_Some yields_if)
  then show ?thesis unfolding handleTimePassing_def
    by (rule kept_bind) (auto simp: yields_def split: if_splits dest: yieldsD [OF election_kept(1)])
qed

lemma setFollowerModeFinish_kept: "yields (setFollowerModeFinish canceled m s) (kept s)"
proof -
  have "yields (setFollowerMode m s) (\<lambda>s'. ballot s' = ballot s)"
    unfolding setFollowerMode_def Let_def by (auto intro!: yields_bind yields_Some yields_if)
  then show ?thesis unfolding setFollowerModeFinish_def
    by (intro yields_Some yields_if kept_bind1 yields_bind [where m = "getMemberState s"]) simp_all
qed

lemma setMaintenanceMode_kept: "yields (setMaintenanceMode_helper canceled activate isPrimary s) (kept s)"
proof -
  have "yields (adjustMaintenanceCountBy n s) (\<lambda>s'. ballot s' = ballot s)" for n
    unfolding adjustMaintenanceCountBy_def Let_def by (auto intro!: yields_bind yields_Some yields_if)
  then show ?thesis unfolding setMaintenanceMode_helper_def
    by (intro yields_Some yields_if kept_bind1 yields_bind [where m = "invariant b" for b]) simp_all
qed

lemma voteForMyself_kept: "yields (voteForMyself now s) (kept s)"
  unfolding voteForMyself_def Let_def by (auto intro!: yields_bind yields_Some yields_if)

lemma stepDownContinue_kept: "yields (stepDownContinue cb interrupted resched now waitUntil until force lastOp s) (kept s)"
  unfolding stepDownContinue_def
  by (intro yields_Some yields_if kept_bind [OF stepDown_kept]) (auto intro!: yields_Some yields_if)

lemma setters_kept:
  "ballot (setMyHeartbeatMessage now msg s) = ballot s" "ballot (blacklistSyncSource h d s) = ballot s"
  "ballot (unblacklistSyncSource h d s) = ballot s" "ballot (clearSyncSourceBlacklist s) = ballot s"
  "ballot (setStorageEngineSupportsReadCommitted b s) = ballot s"
  by (simp_all add: ballot_def setMyHeartbeatMessage_def blacklistSyncSource_def unblacklistSyncSource_def clearSyncSourceBlacklist_def
      setStorageEngineSupportsReadCommitted_def split: option.split)

subsection \<open>Events\<close>

text \<open>The events that concern the ballot.\<close>

fun concernsBallot :: "TopologyEvent \<Rightarrow> bool" where
  "concernsBallot (UpdateConfig c self) = True"
| "concernsBallot (LoadLastVote vote) = True"
| "concernsBallot VoteForMyselfV1 = True"
| "concernsBallot (RequestVotes args lastOp) = True"
| "concernsBallot (UpdateTerm t now isPrimary) = True"
| "concernsBallot _ = False"

lemma reply_kept: "yields m (kept s) \<Longrightarrow> reply m = Some s' \<Longrightarrow> ballot s' = ballot s"
  by (cases m) (auto simp: yields_def reply_def)

theorem handle_keeps_ballot:
  assumes "handle isoDate e s = Some s'" and "\<not> concernsBallot e"
  shows "ballot s' = ballot s"
  using assms
  by (cases e) (auto simp: setters_kept dest: reply_kept [OF chooseNewSyncSource_kept] reply_kept [OF prepareSyncFromResponse_kept]
      reply_kept [OF prepareElectResponse_kept] reply_kept [OF prepareHeartbeatResponse_kept] reply_kept [OF prepareHeartbeatResponseV1_kept]
      reply_kept [OF prepareHeartbeatRequest_kept(1)] reply_kept [OF prepareHeartbeatRequest_kept(2)] reply_kept [OF processHeartbeatResponse_kept]
      reply_kept [OF setMemberAsDown_kept] reply_kept [OF freeze_kept] reply_kept [OF setFollowerModeFinish_kept]
      reply_kept [OF setMaintenanceMode_kept] reply_kept [OF becomeCandidateIfElectable_kept] reply_kept [OF voteForMyself_kept]
      reply_kept [OF stepDownContinue_kept] reply_kept [OF stepDownIfPending_kept] yieldsD [OF handleTimePassing_kept]
      yieldsD [OF election_kept(1)] yieldsD [OF election_kept(2)])

end
