(* ===== verification/ElectionV1.thy ===== *)
theory ElectionV1
  imports VoteRequester ElectionFrame
begin

text \<open>
  An election of protocol version 1 on one member, \<^verbatim>\<open>src/src/mongo/db/repl/replication_coordinator_impl_elect_v1.cpp\<close>: a dry
  run that asks for votes without casting any, the vote of the candidate for itself in a new term, and the request for
  the votes of the others. The vote requester runs the callback of the phase when it has enough answers, also from
  within its \<open>start\<close>.
\<close>

subsection \<open>State\<close>

datatype ConfigState = kConfigPreStart | kConfigStartingUp | kConfigReplicationDisabled | kConfigUninitialized | kConfigSteady
  | kConfigInitiating | kConfigReconfiguring | kConfigHBReconfiguring

text \<open>The callback that the vote requester is started with, and the work that is scheduled on the executor.\<close>

datatype VoteCallback = OnDryRunComplete Term | OnVoteRequestComplete Term
datatype ElectionWork = NoWork | WriteLastVote LastVote | StartVoteRequester Term

type_synonym VoteRunner = "(VoteAlgorithm, ReplSetRequestVotesArgs) ScatterGatherRunner"

record ElectionState =
  esTopology :: TopologyCoordinator
  esConfigState :: ConfigState
  esVoteRequester :: "VoteRunner option"
  esCallback :: VoteCallback
  esWork :: ElectionWork
  esElectionWinnerDeclarer :: bool
  esFreshnessChecker :: bool

text \<open>
  What the environment answers: the clock, whether the executor makes the events of the election and of the requester, accepts requests
  and schedules work (it refuses at shutdown), the global timestamp, whether the cached member state is PRIMARY, and the last optime.
\<close>

record Environment =
  envNow :: Date_t
  envMakesEvents :: bool
  envStarts :: bool
  envAccepts :: "ReplSetRequestVotesArgs RemoteCommandRequest \<Rightarrow> bool"
  envSchedules :: bool
  envTimestamp :: Timestamp
  envIsPrimary :: bool
  envLastOpTime :: OpTime

subsection \<open>Losing\<close>

definition loseElection :: "ElectionState \<Rightarrow> ElectionState option" where
  "loseElection n = do {
     s \<leftarrow> processLoseElection (esTopology n);
     Some (n\<lparr>esTopology := s, esElectionWinnerDeclarer := False, esVoteRequester := None\<rparr>)
   }"

subsection \<open>Callbacks\<close>

definition onDryRunComplete :: "Environment \<Rightarrow> Term \<Rightarrow> ElectionState \<Rightarrow> ElectionState option" where
  "onDryRunComplete env originalTerm n = do {
     requester \<leftarrow> esVoteRequester n;
     invariant (\<not> esElectionWinnerDeclarer n);
     if tcTerm (esTopology n) \<noteq> originalTerm then loseElection n
     else case vote_getResult (srAlgorithm requester) of
         kInsufficientVotes \<Rightarrow> loseElection n
       | kStaleTerm \<Rightarrow> loseElection n
       | kSuccessfullyElected \<Rightarrow>
           let s = snd (updateTerm_incallback (originalTerm + 1) (envNow env) (envIsPrimary env) (esTopology n));
               n = n\<lparr>esTopology := voteForMyselfV1 s\<rparr>;
               lastVote = \<lparr>lvTerm = originalTerm + 1, lvCandidateIndex = tcSelfIndex s\<rparr>
           in if \<not> envSchedules env then loseElection n
              else Some (n\<lparr>esWork := WriteLastVote lastVote\<rparr>)
   }"

definition writeLastVoteForMyElection :: "bool \<Rightarrow> bool \<Rightarrow> Environment \<Rightarrow> LastVote \<Rightarrow> ElectionState \<Rightarrow> ElectionState option" where
  "writeLastVoteForMyElection canceled stored env lastVote n = do {
     invariant (esVoteRequester n \<noteq> None);
     invariant (\<not> esElectionWinnerDeclarer n);
     let n = n\<lparr>esWork := NoWork\<rparr>;
     if canceled then loseElection n
     else if \<not> stored then loseElection n
     else if \<not> envSchedules env then loseElection n
     else Some (n\<lparr>esWork := StartVoteRequester (lvTerm lastVote)\<rparr>)
   }"

definition onVoteRequestComplete :: "Environment \<Rightarrow> Term \<Rightarrow> ElectionState \<Rightarrow> ElectionState option" where
  "onVoteRequestComplete env originalTerm n = do {
     requester \<leftarrow> esVoteRequester n;
     invariant (\<not> esElectionWinnerDeclarer n);
     if tcTerm (esTopology n) \<noteq> originalTerm then loseElection n
     else case vote_getResult (srAlgorithm requester) of
         kInsufficientVotes \<Rightarrow> loseElection n
       | kStaleTerm \<Rightarrow> loseElection n
       | kSuccessfullyElected \<Rightarrow> do {
           s \<leftarrow> performWinElection (envTimestamp env) (esTopology n);
           Some (n\<lparr>esTopology := s, esVoteRequester := None\<rparr>)
         }
   }"

definition runCallback :: "Environment \<Rightarrow> ElectionState \<Rightarrow> ElectionState option" where
  "runCallback env n =
     (case esCallback n of OnDryRunComplete t \<Rightarrow> onDryRunComplete env t n | OnVoteRequestComplete t \<Rightarrow> onVoteRequestComplete env t n)"

subsection \<open>Starting the vote requester\<close>

text \<open>The callback runs within \<open>start\<close> if no vote is missing, or if the executor refuses a request.\<close>

definition startRequester :: "Environment \<Rightarrow> bool \<Rightarrow> VoteCallback \<Rightarrow> ElectionState \<Rightarrow> (Status \<times> ElectionState) option" where
  "startRequester env dryRun callback n = do {
     let s = esTopology n;
     (status, r) \<leftarrow> runner_start voteAlgorithm (envStarts env) (envAccepts env)
       (newRunner (newVoteAlgorithm (tcConfig s) (tcSelfIndex s) (tcTerm s) dryRun (envLastOpTime env)));
     let n = n\<lparr>esVoteRequester := Some r, esCallback := callback\<rparr>;
     n \<leftarrow> (if srCompletions r > 0 then runCallback env n else Some n);
     Some (status, n)
   }"

definition startElectSelfV1 :: "Environment \<Rightarrow> ElectionState \<Rightarrow> ElectionState option" where
  "startElectSelfV1 env n = do {
     invariant (\<not> esElectionWinnerDeclarer n);
     invariant (esVoteRequester n = None);
     invariant (\<not> esFreshnessChecker n);
     if esConfigState n \<in> {kConfigInitiating, kConfigReconfiguring, kConfigHBReconfiguring}
     then map_option (\<lambda>s. n\<lparr>esTopology := s\<rparr>) (processLoseElection (esTopology n))
     else do {
       invariant (esConfigState n = kConfigSteady);
       if \<not> envMakesEvents env then Some n
       else do {
         me \<leftarrow> selfConfig (esTopology n);
         invariant (isElectable me);
         if OpTime_eq (envLastOpTime env) nullOpTime then loseElection n
         else do {
           (status, n) \<leftarrow> startRequester env True (OnDryRunComplete (tcTerm (esTopology n))) n;
           if status = StatusError ShutdownInProgress then loseElection n
           else do {
             invariant (status = StatusOK);
             Some n
           }
         }
       }
     }
   }"

definition startVoteRequester :: "Environment \<Rightarrow> Term \<Rightarrow> ElectionState \<Rightarrow> ElectionState option" where
  "startVoteRequester env newTerm n = do {
     invariant (esVoteRequester n \<noteq> None);
     invariant (\<not> esElectionWinnerDeclarer n);
     (status, n) \<leftarrow> startRequester env False (OnVoteRequestComplete newTerm) (n\<lparr>esWork := NoWork\<rparr>);
     if status = StatusError ShutdownInProgress then loseElection n
     else do {
       invariant (status = StatusOK);
       Some n
     }
   }"

subsection \<open>Answers\<close>

definition receiveVote ::
  "Environment \<Rightarrow> ReplSetRequestVotesArgs RemoteCommandRequest \<Rightarrow> ReplSetRequestVotesResponse ResponseStatus \<Rightarrow> ElectionState \<Rightarrow> ElectionState option" where
  "receiveVote env request response n = do {
     r \<leftarrow> esVoteRequester n;
     r' \<leftarrow> runner_processResponse voteAlgorithm request response r;
     let n = n\<lparr>esVoteRequester := Some r'\<rparr>;
     if srCompletions r' > srCompletions r then runCallback env n else Some n
   }"

end
