(* ===== verification/ElectionSafety.thy ===== *)
theory ElectionSafety
  imports ElectionV1
begin

text \<open>
  A replica set under one configuration of protocol version 1, as the composition of its members: each member has a topology
  coordinator and runs the election handlers of \<open>ElectionV1\<close>; the members exchange vote requests and responses, which may be
  delayed and reordered arbitrarily. The invariant of its runs gives that at most one member wins an election in each term.

  The model keeps a record of the votes cast, which no member can see. Restarts of a member are not part of it, and
  neither are the ways in which a set of a single member, or a member that is frozen during an election, becomes primary without
  asking for votes.
\<close>

subsection \<open>The cluster\<close>

record Cluster =
  clNodes :: "ElectionState list"
  clVotes :: "(nat \<times> Term \<times> int) set"
  clSent :: "(nat \<times> ReplSetRequestVotesArgs \<times> ReplSetRequestVotesResponse) set"
  clAnswered :: "(nat \<times> nat) set"
  clWins :: "(nat \<times> Term) set"

datatype ClusterEvent =
    NodeEvent nat TopologyEvent
  | CastVote nat ReplSetRequestVotesArgs OpTime
  | StartElection nat Environment
  | StoreVote nat bool bool Environment
  | RequestVotesOfOthers nat Environment
  | Answer nat nat Environment "ReplSetRequestVotesResponse ResponseStatus"

text \<open>The state after member \<open>i\<close> moved to \<open>n\<close>: its vote for itself and its victory are recorded.\<close>

definition selfVote :: "nat \<Rightarrow> ElectionState \<Rightarrow> (nat \<times> Term \<times> int) set" where
  "selfVote i n = (case esWork n of WriteLastVote v \<Rightarrow> {(i, lvTerm v, lvCandidateIndex v)} | _ \<Rightarrow> {})"

definition victory :: "nat \<Rightarrow> ElectionState \<Rightarrow> ElectionState \<Rightarrow> (nat \<times> Term) set" where
  "victory i n n' = (if tcRole (esTopology n) \<noteq> Leader \<and> tcRole (esTopology n') = Leader then {(i, tcTerm (esTopology n'))} else {})"

definition moveTo :: "nat \<Rightarrow> ElectionState \<Rightarrow> Cluster \<Rightarrow> Cluster" where
  "moveTo i n' cl = cl\<lparr>clNodes := (clNodes cl)[i := n'], clVotes := clVotes cl \<union> selfVote i n',
     clWins := clWins cl \<union> victory i (clNodes cl ! i) n'\<rparr>"

definition setTopology :: "nat \<Rightarrow> TopologyCoordinator \<Rightarrow> Cluster \<Rightarrow> Cluster" where
  "setTopology i s cl = cl\<lparr>clNodes := (clNodes cl)[i := (clNodes cl ! i)\<lparr>esTopology := s\<rparr>]\<rparr>"

definition forgetAnswers :: "nat \<Rightarrow> Cluster \<Rightarrow> Cluster" where
  "forgetAnswers i cl = cl\<lparr>clAnswered := {(k, j) \<in> clAnswered cl. k \<noteq> i}\<rparr>"

text \<open>
  The events of the topology coordinator that belong to the protocol: a member learns of a term, or does something that
  does not concern its ballot. The three events that make a member primary without asking for votes are left out.
\<close>

fun ordinary :: "TopologyEvent \<Rightarrow> bool" where
  "ordinary (UpdateTerm t now isPrimary) = True"
| "ordinary (WinElection ts) = False"
| "ordinary (Freeze canceled now secs ts) = False"
| "ordinary (TimePassing now ts) = False"
| "ordinary e = (\<not> concernsBallot e)"

text \<open>
  \<open>processReplSetRequestVotes\<close> of the replication coordinator learns the term of the request before it votes. An answer
  is an error, or was sent by the voter to the same request; a voter answers a request once.
\<close>

fun clusterStep :: "(Date_t \<Rightarrow> string) \<Rightarrow> ClusterEvent \<Rightarrow> Cluster \<Rightarrow> Cluster option" where
  "clusterStep isoDate (NodeEvent i e) cl = do {
     let n = clNodes cl ! i;
     invariant (i < length (clNodes cl) \<and> ordinary e \<and> allowed e (esTopology n));
     s \<leftarrow> handle isoDate e (esTopology n);
     Some (setTopology i s cl)
   }"
| "clusterStep isoDate (CastVote j args lastOp) cl = do {
     let n = clNodes cl ! j;
     invariant (j < length (clNodes cl) \<and> rvTerm args \<le> tcTerm (esTopology n));
     let (response, s) = processReplSetRequestVotes args lastOp (esTopology n);
     let cl = setTopology j s cl;
     Some (cl\<lparr>clSent := insert (j, args, response) (clSent cl),
              clVotes := clVotes cl \<union> (if rrVoteGranted response \<and> \<not> rvDryRun args then {(j, rvTerm args, rvCandidateIndex args)} else {})\<rparr>)
   }"
| "clusterStep isoDate (StartElection i env) cl = do {
     invariant (i < length (clNodes cl));
     n \<leftarrow> startElectSelfV1 env (clNodes cl ! i);
     Some (moveTo i n (forgetAnswers i cl))
   }"
| "clusterStep isoDate (StoreVote i canceled stored env) cl = do {
     invariant (i < length (clNodes cl));
     n \<leftarrow> (case esWork (clNodes cl ! i) of
              WriteLastVote v \<Rightarrow> writeLastVoteForMyElection canceled stored env v (clNodes cl ! i) | _ \<Rightarrow> None);
     Some (moveTo i n cl)
   }"
| "clusterStep isoDate (RequestVotesOfOthers i env) cl = do {
     invariant (i < length (clNodes cl));
     n \<leftarrow> (case esWork (clNodes cl ! i) of StartVoteRequester t \<Rightarrow> startVoteRequester env t (clNodes cl ! i) | _ \<Rightarrow> None);
     Some (moveTo i n (forgetAnswers i cl))
   }"
| "clusterStep isoDate (Answer i j env response) cl = do {
     invariant (i < length (clNodes cl));
     let n = clNodes cl ! i;
     r \<leftarrow> esVoteRequester n;
     let a = srAlgorithm r;
     invariant (srPending r \<and> j \<in> set (otherVoters (vaConfig a) (vaCandidateIndex a)) \<and> (i, j) \<notin> clAnswered cl);
     request \<leftarrow> find (\<lambda>req. rqTarget req = mcHost (members (vaConfig a) ! j)) (srCallbacks r);
     invariant (case response of Inl e \<Rightarrow> True | Inr v \<Rightarrow> (j, rqCommand request, v) \<in> clSent cl);
     n \<leftarrow> receiveVote env request response n;
     Some (moveTo i n (cl\<lparr>clAnswered := insert (i, j) (clAnswered cl)\<rparr>))
   }"

text \<open>At first every member has loaded its last vote, knows a term that is not older, and runs no election.\<close>

definition initialNode :: "ReplicaSetConfig \<Rightarrow> nat \<Rightarrow> ElectionState \<Rightarrow> bool" where
  "initialNode c i n \<longleftrightarrow> tcConfig (esTopology n) = c \<and> tcSelfIndex (esTopology n) = int i \<and>
     lvTerm (tcLastVote (esTopology n)) \<le> tcTerm (esTopology n) \<and> esVoteRequester n = None \<and> esWork n = NoWork"

definition initialCluster :: "ReplicaSetConfig \<Rightarrow> Cluster \<Rightarrow> bool" where
  "initialCluster c cl \<longleftrightarrow> length (clNodes cl) = length (members c) \<and>
     list_all (\<lambda>i. initialNode c i (clNodes cl ! i)) [0..<length (clNodes cl)] \<and>
     clVotes cl = {} \<and> clSent cl = {} \<and> clAnswered cl = {} \<and> clWins cl = {}"

inductive cluster_reachable :: "(Date_t \<Rightarrow> string) \<Rightarrow> ReplicaSetConfig \<Rightarrow> Cluster \<Rightarrow> bool" for isoDate c where
  cluster_init: "initialCluster c cl \<Longrightarrow> cluster_reachable isoDate c cl"
| cluster_step: "cluster_reachable isoDate c cl \<Longrightarrow> clusterStep isoDate e cl = Some cl' \<Longrightarrow> cluster_reachable isoDate c cl'"

subsection \<open>One member\<close>

text \<open>What an election handler may do to a ballot: nothing, or move to the next term and vote for itself there.\<close>

definition votesForItself :: "TopologyCoordinator \<Rightarrow> TopologyCoordinator \<Rightarrow> bool" where
  "votesForItself s s' \<longleftrightarrow> ballot s' = (tcConfig s, tcSelfIndex s, \<lparr>lvTerm = tcTerm s + 1, lvCandidateIndex = tcSelfIndex s\<rparr>, tcTerm s + 1)"

lemma processLoseElection_role: "yields (processLoseElection s) (\<lambda>s'. tcRole s' = Follower)"
  unfolding processLoseElection_def Let_def by (intro yields_intros) simp_all

lemma performWinElection_role: "yields (performWinElection ts s) (\<lambda>s'. tcRole s' = Leader)"
  unfolding performWinElection_def processWinElection_def by (intro yields_intros) simp

lemma loseElection_run:
  assumes "loseElection n = Some n'"
  shows "ballot (esTopology n') = ballot (esTopology n) \<and> tcRole (esTopology n') = Follower \<and> esVoteRequester n' = None \<and> esWork n' = esWork n"
proof -
  obtain s where s: "processLoseElection (esTopology n) = Some s" and n': "n' = n\<lparr>esTopology := s, esElectionWinnerDeclarer := False, esVoteRequester := None\<rparr>"
    using assms by (auto simp: loseElection_def bind_eq_Some_conv)
  have "ballot s = ballot (esTopology n)" using yieldsD [OF election_kept(2) s] .
  moreover have "tcRole s = Follower" using yieldsD [OF processLoseElection_role s] .
  ultimately show ?thesis using n' by simp
qed

lemma performWinElection_run:
  "performWinElection ts s = Some s' \<Longrightarrow> ballot s' = ballot s \<and> tcRole s' = Leader"
  using yieldsD [OF election_kept(1), of ts s s'] yieldsD [OF performWinElection_role, of ts s s'] by simp

text \<open>The outcome of a callback: the election is lost, it is won with enough votes, or the dry run has succeeded.\<close>

lemma runCallback_cases:
  assumes "runCallback env n = Some n'" and r: "esVoteRequester n = Some r" and pv: "protocolVersion (tcConfig (esTopology n)) = 1"
  obtains
    (lost) "ballot (esTopology n') = ballot (esTopology n) \<or> votesForItself (esTopology n) (esTopology n')"
      "tcRole (esTopology n') = Follower" "esVoteRequester n' = None" "esWork n' = esWork n"
  | (won) t where "esCallback n = OnVoteRequestComplete t" "tcTerm (esTopology n) = t" "vaVotes (srAlgorithm r) \<ge> majorityVoteCount (vaConfig (srAlgorithm r))"
      "ballot (esTopology n') = ballot (esTopology n)" "esVoteRequester n' = None" "esWork n' = esWork n"
  | (runs) t where "esCallback n = OnDryRunComplete t" "votesForItself (esTopology n) (esTopology n')" "tcRole (esTopology n') = tcRole (esTopology n)"
      "esVoteRequester n' = Some r" "esCallback n' = esCallback n"
      "esWork n' = WriteLastVote \<lparr>lvTerm = tcTerm (esTopology n) + 1, lvCandidateIndex = tcSelfIndex (esTopology n)\<rparr>"
proof (cases "esCallback n")
  case (OnVoteRequestComplete t)
  then have run: "onVoteRequestComplete env t n = Some n'" using assms(1) by (simp add: runCallback_def)
  show thesis
  proof (cases "tcTerm (esTopology n) = t \<and> vote_getResult (srAlgorithm r) = kSuccessfullyElected")
    case True
    then obtain s where "performWinElection (envTimestamp env) (esTopology n) = Some s" "n' = n\<lparr>esTopology := s, esVoteRequester := None\<rparr>"
      using run r by (auto simp: onVoteRequestComplete_def run_simps)
    moreover have "vaVotes (srAlgorithm r) \<ge> majorityVoteCount (vaConfig (srAlgorithm r))"
      using True by (auto simp: vote_getResult_def split: if_splits)
    ultimately show thesis using OnVoteRequestComplete True performWinElection_run by (intro won [of t]) auto
  next
    case False
    then have "loseElection n = Some n'" using run r
      by (auto simp: onVoteRequestComplete_def run_simps split: if_splits VoteResult.splits)
    then show thesis using loseElection_run [of n n'] by (intro lost) auto
  qed
next
  case (OnDryRunComplete t)
  then have run: "onDryRunComplete env t n = Some n'" using assms(1) by (simp add: runCallback_def)
  let ?s = "snd (updateTerm_incallback (t + 1) (envNow env) (envIsPrimary env) (esTopology n))"
  show thesis
  proof (cases "tcTerm (esTopology n) = t \<and> vote_getResult (srAlgorithm r) = kSuccessfullyElected")
    case True
    have s: "tcSelfIndex ?s = tcSelfIndex (esTopology n)" "tcRole (voteForMyselfV1 ?s) = tcRole (esTopology n)"
      "votesForItself (esTopology n) (voteForMyselfV1 ?s)"
      using True pv by (auto simp: updateTerm_incallback_def updateTerm_def prepareForStepDown_def voteForMyselfV1_def votesForItself_def ballot_def)
    let ?n = "n\<lparr>esTopology := voteForMyselfV1 ?s\<rparr>"
    have "if \<not> envSchedules env then loseElection ?n = Some n'
        else n' = ?n\<lparr>esWork := WriteLastVote \<lparr>lvTerm = t + 1, lvCandidateIndex = tcSelfIndex ?s\<rparr>\<rparr>"
      using run r True by (auto simp: onDryRunComplete_def run_simps Let_def split: if_splits)
    then show thesis
    proof (cases "envSchedules env")
      case False
      then have "loseElection ?n = Some n'" using \<open>if _ then _ else _\<close> by simp
      then show thesis using loseElection_run [of ?n n'] s(3) by (intro lost) (auto simp: votesForItself_def)
    next
      case sched: True
      then show thesis using \<open>if _ then _ else _\<close> s True r OnDryRunComplete by (intro runs [of t]) auto
    qed
  next
    case False
    then have "loseElection n = Some n'" using run r
      by (auto simp: onDryRunComplete_def run_simps split: if_splits VoteResult.splits)
    then show thesis using loseElection_run [of n n'] by (intro lost) auto
  qed
qed

subsection \<open>The invariant\<close>

definition ballot_ok :: "ReplicaSetConfig \<Rightarrow> nat \<Rightarrow> TopologyCoordinator \<Rightarrow> bool" where
  "ballot_ok c i s \<longleftrightarrow> tcConfig s = c \<and> tcSelfIndex s = int i \<and> lvTerm (tcLastVote s) \<le> tcTerm s"

text \<open>The voters whose granted votes in term \<open>t\<close> the candidate \<open>i\<close> has heard of.\<close>

definition heard :: "(nat \<times> Term \<times> int) set \<Rightarrow> (nat \<times> nat) set \<Rightarrow> nat \<Rightarrow> Term \<Rightarrow> nat set" where
  "heard votes answered i t = {j. (i, j) \<in> answered \<and> (j, t, int i) \<in> votes}"

definition collecting :: "(nat \<times> Term \<times> int) set \<Rightarrow> (nat \<times> nat) set \<Rightarrow> nat \<Rightarrow> Term \<Rightarrow> VoteRunner \<Rightarrow> bool" where
  "collecting votes answered i t r \<longleftrightarrow> (let a = srAlgorithm r in
     (i, t, int i) \<in> votes \<and> t \<le> vaTerm a \<and> vaVotes a \<le> 1 + int (card (heard votes answered i (vaTerm a))) \<and>
     (\<forall>req\<in>set (srCallbacks r). rvTerm (rqCommand req) = vaTerm a \<and> \<not> rvDryRun (rqCommand req) \<and> rvCandidateIndex (rqCommand req) = int i))"

definition requester_ok :: "ReplicaSetConfig \<Rightarrow> (nat \<times> Term \<times> int) set \<Rightarrow> (nat \<times> nat) set \<Rightarrow> nat \<Rightarrow> ElectionState \<Rightarrow> bool" where
  "requester_ok c votes answered i n \<longleftrightarrow> (\<forall>r. esVoteRequester n = Some r \<longrightarrow>
     i \<in> voters c \<and> vaConfig (srAlgorithm r) = c \<and> vaCandidateIndex (srAlgorithm r) = int i \<and>
     vaTerm (srAlgorithm r) \<le> tcTerm (esTopology n) \<and>
     (\<forall>t. esCallback n = OnVoteRequestComplete t \<longrightarrow> collecting votes answered i t r))"

definition work_ok :: "(nat \<times> Term \<times> int) set \<Rightarrow> nat \<Rightarrow> ElectionState \<Rightarrow> bool" where
  "work_ok votes i n \<longleftrightarrow> selfVote i n \<subseteq> votes \<and>
     (case esWork n of WriteLastVote v \<Rightarrow> lvCandidateIndex v = int i | StartVoteRequester t \<Rightarrow> (i, t, int i) \<in> votes | NoWork \<Rightarrow> True)"

definition elected :: "ReplicaSetConfig \<Rightarrow> (nat \<times> Term \<times> int) set \<Rightarrow> nat \<times> Term \<Rightarrow> bool" where
  "elected c votes w \<longleftrightarrow> (\<exists>Q. voteMajority c Q \<and> (\<forall>v\<in>Q. (v, snd w, int (fst w)) \<in> votes))"

definition cluster_inv :: "ReplicaSetConfig \<Rightarrow> Cluster \<Rightarrow> bool" where
  "cluster_inv c cl \<longleftrightarrow> length (clNodes cl) = length (members c) \<and>
     (\<forall>i<length (clNodes cl). ballot_ok c i (esTopology (clNodes cl ! i)) \<and>
        requester_ok c (clVotes cl) (clAnswered cl) i (clNodes cl ! i) \<and> work_ok (clVotes cl) i (clNodes cl ! i)) \<and>
     (\<forall>(v, t, x)\<in>clVotes cl. v < length (clNodes cl) \<and> t \<le> lvTerm (tcLastVote (esTopology (clNodes cl ! v)))) \<and>
     (\<forall>v t x y. (v, t, x) \<in> clVotes cl \<longrightarrow> (v, t, y) \<in> clVotes cl \<longrightarrow> x = y) \<and>
     (\<forall>(j, args, v)\<in>clSent cl. rrVoteGranted v \<and> \<not> rvDryRun args \<longrightarrow> (j, rvTerm args, rvCandidateIndex args) \<in> clVotes cl) \<and>
     (\<forall>(i, j)\<in>clAnswered cl. j \<in> set (otherVoters c (int i))) \<and>
     (\<forall>w\<in>clWins cl. elected c (clVotes cl) w)"

lemma otherVoters_iff: "j \<in> set (otherVoters c i) \<longleftrightarrow> j \<in> voters c \<and> int j \<noteq> i"
  by (auto simp: otherVoters_def voters_def)

lemma heard_finite: "\<forall>(i, j)\<in>answered. j \<in> set (otherVoters c (int i)) \<Longrightarrow> finite (heard votes answered i t)"
  by (rule finite_subset [of _ "voters c"]) (auto simp: heard_def otherVoters_iff)

lemma heard_mono: "votes \<subseteq> votes' \<Longrightarrow> heard votes answered i t \<subseteq> heard votes' answered i t"
  by (auto simp: heard_def)

lemma collecting_mono:
  assumes "collecting votes answered i t r" and "votes \<subseteq> votes'" and "\<forall>(i, j)\<in>answered. j \<in> set (otherVoters c (int i))"
  shows "collecting votes' answered i t r"
proof -
  have "card (heard votes answered i (vaTerm (srAlgorithm r))) \<le> card (heard votes' answered i (vaTerm (srAlgorithm r)))"
    using assms(2,3) by (intro card_mono heard_finite [of _ c] heard_mono)
  then show ?thesis using assms(1,2) unfolding collecting_def Let_def by fastforce
qed

lemma requester_ok_mono:
  assumes "requester_ok c votes answered i n" and "votes \<subseteq> votes'" and "\<forall>(i, j)\<in>answered. j \<in> set (otherVoters c (int i))"
  shows "requester_ok c votes' answered i n"
  using assms collecting_mono [OF _ assms(2,3)] unfolding requester_ok_def by blast

lemma work_ok_mono: "work_ok votes i n \<Longrightarrow> votes \<subseteq> votes' \<Longrightarrow> work_ok votes' i n"
  by (auto simp: work_ok_def split: ElectionWork.splits)

lemma elected_mono: "elected c votes w \<Longrightarrow> votes \<subseteq> votes' \<Longrightarrow> elected c votes' w"
  by (auto simp: elected_def)

text \<open>A step of member \<open>i\<close> keeps the invariant if its own state is in order and it casts at most one vote, in a new term.\<close>

lemma cluster_inv_step:
  assumes inv: "cluster_inv c cl" and i: "i < length (clNodes cl)" and nodes: "clNodes cl' = (clNodes cl)[i := n']"
    and votes: "clVotes cl' = clVotes cl \<union> V"
    and new: "V \<subseteq> clVotes cl \<or> (\<exists>x. V = {(i, lvTerm (tcLastVote (esTopology n')), x)}) \<and>
      lvTerm (tcLastVote (esTopology (clNodes cl ! i))) < lvTerm (tcLastVote (esTopology n'))"
    and own: "ballot_ok c i (esTopology n')" "requester_ok c (clVotes cl') (clAnswered cl') i n'" "work_ok (clVotes cl') i n'"
    and mono: "lvTerm (tcLastVote (esTopology (clNodes cl ! i))) \<le> lvTerm (tcLastVote (esTopology n'))"
    and answered: "\<forall>(k, j)\<in>clAnswered cl'. j \<in> set (otherVoters c (int k))" "\<And>k j. k \<noteq> i \<Longrightarrow> (k, j) \<in> clAnswered cl' \<longleftrightarrow> (k, j) \<in> clAnswered cl"
    and sent: "\<forall>(j, args, v)\<in>clSent cl' - clSent cl. rrVoteGranted v \<and> \<not> rvDryRun args \<longrightarrow> (j, rvTerm args, rvCandidateIndex args) \<in> clVotes cl'"
    and wins: "\<forall>w\<in>clWins cl' - clWins cl. elected c (clVotes cl') w"
  shows "cluster_inv c cl'"
proof -
  have sub: "clVotes cl \<subseteq> clVotes cl'" using votes by simp
  have old: "v < length (clNodes cl) \<and> t \<le> lvTerm (tcLastVote (esTopology (clNodes cl ! v)))" if "(v, t, x) \<in> clVotes cl" for v t x
    using inv that by (auto simp: cluster_inv_def)
  have others: "ballot_ok c k (esTopology (clNodes cl ! k)) \<and> requester_ok c (clVotes cl') (clAnswered cl') k (clNodes cl ! k) \<and>
      work_ok (clVotes cl') k (clNodes cl ! k)" if "k < length (clNodes cl)" "k \<noteq> i" for k
  proof -
    have k: "ballot_ok c k (esTopology (clNodes cl ! k))" "requester_ok c (clVotes cl) (clAnswered cl) k (clNodes cl ! k)"
      "work_ok (clVotes cl) k (clNodes cl ! k)" using inv that(1) by (simp_all add: cluster_inv_def)
    have "heard W (clAnswered cl') k t = heard W (clAnswered cl) k t" for W t using answered(2) [OF that(2)] by (simp add: heard_def)
    then have "requester_ok c (clVotes cl) (clAnswered cl') k (clNodes cl ! k)" using k(2) by (simp add: requester_ok_def collecting_def)
    then have "requester_ok c (clVotes cl') (clAnswered cl') k (clNodes cl ! k)" using sub answered(1) by (rule requester_ok_mono)
    then show ?thesis using k(1) work_ok_mono [OF k(3) sub] by blast
  qed
  have nodes_ok: "ballot_ok c k (esTopology (clNodes cl' ! k)) \<and>
      requester_ok c (clVotes cl') (clAnswered cl') k (clNodes cl' ! k) \<and> work_ok (clVotes cl') k (clNodes cl' ! k)"
    if "k < length (clNodes cl')" for k
    using others [of k] own that i unfolding nodes by (cases "k = i") simp_all
  have terms: "v < length (clNodes cl') \<and> t \<le> lvTerm (tcLastVote (esTopology (clNodes cl' ! v)))" if w: "(v, t, x) \<in> clVotes cl'" for v t x
    using old [of v t x] new mono w i unfolding nodes votes by (cases "v = i") auto
  have unique: "x = y" if "(v, t, x) \<in> clVotes cl'" "(v, t, y) \<in> clVotes cl'" for v t x y
  proof -
    have "(v, t, x) \<in> clVotes cl \<longleftrightarrow> (v, t, y) \<in> clVotes cl" using new old [of v t] that unfolding votes by fastforce
    then show ?thesis using inv new that unfolding cluster_inv_def votes by blast
  qed
  have sent_ok: "(j, rvTerm args, rvCandidateIndex args) \<in> clVotes cl'" if "(j, args, v) \<in> clSent cl'" "rrVoteGranted v" "\<not> rvDryRun args" for j args v
  proof (cases "(j, args, v) \<in> clSent cl")
    case True
    then have "(j, rvTerm args, rvCandidateIndex args) \<in> clVotes cl" using inv that(2,3) unfolding cluster_inv_def by blast
    then show ?thesis using sub by blast
  qed (use sent that in blast)
  have wins_ok: "elected c (clVotes cl') w" if "w \<in> clWins cl'" for w
  proof (cases "w \<in> clWins cl")
    case True
    then have "elected c (clVotes cl) w" using inv unfolding cluster_inv_def by blast
    then show ?thesis using sub by (rule elected_mono)
  qed (use wins that in blast)
  have "length (clNodes cl') = length (members c)" using inv by (simp add: cluster_inv_def nodes)
  then show ?thesis unfolding cluster_inv_def using nodes_ok terms unique sent_ok answered(1) wins_ok by blast
qed

subsection \<open>What the handlers do\<close>

definition progress :: "ReplicaSetConfig \<Rightarrow> (nat \<times> Term \<times> int) set \<Rightarrow> (nat \<times> nat) set \<Rightarrow> nat \<Rightarrow> ElectionState \<Rightarrow> ElectionState \<Rightarrow> bool" where
  "progress c votes answered i n n' \<longleftrightarrow> ballot_ok c i (esTopology n') \<and>
     lvTerm (tcLastVote (esTopology n)) \<le> lvTerm (tcLastVote (esTopology n')) \<and>
     (selfVote i n' \<subseteq> votes \<or> selfVote i n' = {(i, lvTerm (tcLastVote (esTopology n')), int i)} \<and>
        lvTerm (tcLastVote (esTopology n)) < lvTerm (tcLastVote (esTopology n'))) \<and>
     requester_ok c (votes \<union> selfVote i n') answered i n' \<and> work_ok (votes \<union> selfVote i n') i n' \<and>
     (\<forall>w\<in>victory i n n'. elected c (votes \<union> selfVote i n') w)"

lemma moveTo_inv:
  assumes "cluster_inv c cl" and "i < length (clNodes cl)" and "progress c (clVotes cl) answered i (clNodes cl ! i) n'"
    and "\<forall>(k, j)\<in>answered. j \<in> set (otherVoters c (int k))" and "\<And>k j. k \<noteq> i \<Longrightarrow> (k, j) \<in> answered \<longleftrightarrow> (k, j) \<in> clAnswered cl"
  shows "cluster_inv c (moveTo i n' (cl\<lparr>clAnswered := answered\<rparr>))"
  using assms(3) by (intro cluster_inv_step [OF assms(1,2), where V = "selfVote i n'" and n' = n'])
    (use assms(4,5) in \<open>auto simp: moveTo_def progress_def\<close>)

lemma majority_elects:
  assumes "collecting votes answered i t r" and "vaTerm (srAlgorithm r) = t" and "majorityVoteCount c \<le> vaVotes (srAlgorithm r)"
    and "majorityVoteCount c = majorityVoteCount (calculateMajorities c)" and "i \<in> voters c"
    and ok: "\<forall>(k, j)\<in>answered. j \<in> set (otherVoters c (int k))"
  shows "elected c votes (i, t)"
proof -
  have "i \<notin> heard votes answered i t" "heard votes answered i t \<subseteq> voters c" using ok by (auto simp: heard_def otherVoters_iff)
  moreover have "finite (heard votes answered i t)" using ok by (rule heard_finite)
  ultimately have "voteMajority c (insert i (heard votes answered i t))"
    using assms by (simp add: voteMajority_def collecting_def Let_def)
  moreover have "\<forall>v\<in>insert i (heard votes answered i t). (v, t, int i) \<in> votes"
    using assms(1) by (auto simp: heard_def collecting_def Let_def)
  ultimately show ?thesis unfolding elected_def by auto
qed

text \<open>The configurations that the theorem is about.\<close>

definition cluster_config :: "ReplicaSetConfig \<Rightarrow> bool" where
  "cluster_config c \<longleftrightarrow> config_wf c \<and> protocolVersion c = 1 \<and> majorityVoteCount c = majorityVoteCount (calculateMajorities c)"

lemma ballot_eq: "ballot s' = ballot s \<Longrightarrow> ballot_ok c i s' = ballot_ok c i s \<and> tcLastVote s' = tcLastVote s \<and> tcTerm s' = tcTerm s"
  by (simp add: ballot_def ballot_ok_def)

lemma votesForItself_ok:
  "votesForItself s s' \<Longrightarrow> ballot_ok c i s \<Longrightarrow> ballot_ok c i s' \<and> tcLastVote s' = \<lparr>lvTerm = tcTerm s + 1, lvCandidateIndex = int i\<rparr> \<and> tcTerm s' = tcTerm s + 1"
  by (auto simp: votesForItself_def ballot_def ballot_ok_def)

lemma callback_progress:
  assumes c: "cluster_config c" and ok: "\<forall>(k, j)\<in>answered. j \<in> set (otherVoters c (int k))"
    and b: "ballot_ok c i (esTopology n)" and q: "requester_ok c votes answered i n" and w: "work_ok votes i n"
    and r: "esVoteRequester n = Some r" and run: "runCallback env n = Some n'"
  shows "progress c votes answered i n n'"
proof -
  have pv: "protocolVersion (tcConfig (esTopology n)) = 1" using b c by (simp add: ballot_ok_def cluster_config_def)
  have le: "lvTerm (tcLastVote (esTopology n)) \<le> tcTerm (esTopology n)" using b by (simp add: ballot_ok_def)
  have sv: "selfVote i n \<subseteq> votes" using w by (simp add: work_ok_def)
  from run r pv show ?thesis
  proof (cases rule: runCallback_cases)
    case lost
    then have "ballot_ok c i (esTopology n') \<and> lvTerm (tcLastVote (esTopology n)) \<le> lvTerm (tcLastVote (esTopology n'))"
      using ballot_eq [of "esTopology n'" "esTopology n"] votesForItself_ok b le by fastforce
    moreover have "selfVote i n' = selfVote i n" "work_ok votes i n'" "victory i n n' = {}"
      using lost(2,4) w by (simp_all add: selfVote_def work_ok_def victory_def)
    ultimately show ?thesis using sv lost(3) by (simp add: progress_def requester_ok_def Un_absorb2)
  next
    case (won t)
    have same: "ballot_ok c i (esTopology n')" "tcLastVote (esTopology n') = tcLastVote (esTopology n)" "tcTerm (esTopology n') = t"
      using ballot_eq [OF won(4), of c i] b won(2) by auto
    have "collecting votes answered i t r" "vaTerm (srAlgorithm r) \<le> t" "vaConfig (srAlgorithm r) = c" "i \<in> voters c"
      using q r won(1,2) by (auto simp: requester_ok_def)
    then have "elected c votes (i, t)"
      using won(3) c ok by (intro majority_elects [of votes answered i t r]) (auto simp: collecting_def Let_def cluster_config_def)
    moreover have "selfVote i n' = selfVote i n" "work_ok votes i n'" using won(6) w by (simp_all add: selfVote_def work_ok_def)
    ultimately show ?thesis using same sv won(5) by (simp add: progress_def requester_ok_def Un_absorb2 victory_def)
  next
    case (runs t)
    have self: "tcSelfIndex (esTopology n) = int i" using b by (simp add: ballot_ok_def)
    have moved: "ballot_ok c i (esTopology n')" "lvTerm (tcLastVote (esTopology n')) = tcTerm (esTopology n) + 1" "tcTerm (esTopology n') = tcTerm (esTopology n) + 1"
      using votesForItself_ok [OF runs(2) b] by auto
    moreover have sv': "selfVote i n' = {(i, tcTerm (esTopology n) + 1, int i)}" using runs(6) self by (simp add: selfVote_def)
    moreover have "requester_ok c (votes \<union> selfVote i n') answered i n'"
      using q r runs(1,4,5) moved(3) by (auto simp: requester_ok_def)
    moreover have "work_ok (votes \<union> selfVote i n') i n'" using runs(6) self by (simp add: work_ok_def)
    moreover have "victory i n n' = {}" using runs(3) by (simp add: victory_def)
    ultimately show ?thesis using le unfolding progress_def by auto
  qed
qed

lemma loseElection_progress:
  assumes "progress c votes answered i n n1" and "loseElection n1 = Some n'"
  shows "progress c votes answered i n n'"
proof -
  note lost = loseElection_run [OF assms(2)]
  have same: "ballot_ok c i (esTopology n') = ballot_ok c i (esTopology n1)" "tcLastVote (esTopology n') = tcLastVote (esTopology n1)"
    using ballot_eq [OF conjunct1 [OF lost], of c i] by simp_all
  have "selfVote i n' = selfVote i n1" "work_ok W i n' = work_ok W i n1" "victory i n n' = {}" for W
    using lost by (simp_all add: selfVote_def work_ok_def victory_def)
  then show ?thesis using assms(1) same lost by (simp add: progress_def requester_ok_def)
qed

lemma progress_cong: "esTopology m = esTopology n \<Longrightarrow> progress c votes answered i m n' = progress c votes answered i n n'"
  by (simp add: progress_def victory_def)

lemma idle_progress:
  assumes "esTopology n' = esTopology n" and "ballot_ok c i (esTopology n)" and "requester_ok c votes answered i n'" and "work_ok votes i n'"
  shows "progress c votes answered i n n'"
proof -
  have "selfVote i n' \<subseteq> votes" using assms(4) by (simp add: work_ok_def)
  then show ?thesis using assms by (simp add: progress_def victory_def Un_absorb2)
qed

lemma runner_start_votes:
  assumes "runner_start voteAlgorithm mk accepts (newRunner a) = Some (st, r)"
  shows "srAlgorithm r = a \<and> (\<forall>req\<in>set (srCallbacks r). rvTerm (rqCommand req) = vaTerm a \<and> rvDryRun (rqCommand req) = vaDryRun a \<and>
    rvCandidateIndex (rqCommand req) = vaCandidateIndex a)"
proof -
  let ?reqs = "the (vote_getRequests a)"
  have reqs: "sgGetRequests voteAlgorithm a = Some ?reqs" by (simp add: voteAlgorithm_def vote_getRequests_def Let_def)
  have "srAlgorithm r = a \<and> (srCallbacks r = [] \<or> srCallbacks r = takeWhile accepts ?reqs)"
    using assms by (auto simp: runner_start_def newRunner_def reqs signalSufficientResponsesReceived_def invariant_bind Let_def split: if_splits)
  moreover have "req \<in> set ?reqs" if "req \<in> set (takeWhile accepts ?reqs)" for req using set_takeWhileD [OF that] by simp
  ultimately have "srAlgorithm r = a" "set (srCallbacks r) \<subseteq> set ?reqs" by auto
  moreover have "\<forall>req\<in>set ?reqs. rvTerm (rqCommand req) = vaTerm a \<and> rvDryRun (rqCommand req) = vaDryRun a \<and>
      rvCandidateIndex (rqCommand req) = vaCandidateIndex a"
    by (auto simp: vote_getRequests_def Let_def)
  ultimately show ?thesis by blast
qed

lemma startRequester_progress:
  assumes c: "cluster_config c" and ok: "\<forall>(k, j)\<in>answered. j \<in> set (otherVoters c (int k))"
    and b: "ballot_ok c i (esTopology n)" and w: "work_ok votes i n" and i: "i \<in> voters c"
    and phase: "dry \<and> (\<exists>t. callback = OnDryRunComplete t) \<or>
      \<not> dry \<and> (\<exists>t. callback = OnVoteRequestComplete t \<and> (i, t, int i) \<in> votes \<and> t \<le> tcTerm (esTopology n))"
    and run: "startRequester env dry callback n = Some (st, n')"
  shows "progress c votes answered i n n'"
proof -
  let ?a = "newVoteAlgorithm (tcConfig (esTopology n)) (tcSelfIndex (esTopology n)) (tcTerm (esTopology n)) dry (envLastOpTime env)"
  obtain r where r: "runner_start voteAlgorithm (envStarts env) (envAccepts env) (newRunner ?a) = Some (st, r)"
      "(if srCompletions r > 0 then runCallback env (n\<lparr>esVoteRequester := Some r, esCallback := callback\<rparr>)
        else Some (n\<lparr>esVoteRequester := Some r, esCallback := callback\<rparr>)) = Some n'"
    using run by (auto simp: startRequester_def bind_eq_Some_conv Let_def)
  let ?n = "n\<lparr>esVoteRequester := Some r, esCallback := callback\<rparr>"
  have a: "vaTerm ?a = tcTerm (esTopology n)" "vaVotes ?a = 1" "vaDryRun ?a = dry" "vaConfig ?a = c" "vaCandidateIndex ?a = int i"
    using b by (simp_all add: newVoteAlgorithm_def ballot_ok_def)
  have q: "requester_ok c votes answered i ?n"
    using runner_start_votes [OF r(1)] a i phase by (auto simp: requester_ok_def collecting_def Let_def)
  have b': "ballot_ok c i (esTopology ?n)" and w': "work_ok votes i ?n" using b w by (simp_all add: work_ok_def selfVote_def)
  show ?thesis
  proof (cases "srCompletions r > 0")
    case True
    then have "progress c votes answered i ?n n'" using r(2) callback_progress [OF c ok b' q w', of r env n'] by simp
    then show ?thesis using progress_cong [of ?n n] by simp
  next
    case False
    then have "n' = ?n" using r(2) by simp
    then show ?thesis using idle_progress [of n' n c i votes answered] b q w' by simp
  qed
qed

lemma startVoteRequester_progress:
  assumes "cluster_config c" and "\<forall>(k, j)\<in>answered. j \<in> set (otherVoters c (int k))"
    and "ballot_ok c i (esTopology n)" and "i \<in> voters c" and "(i, t, int i) \<in> votes" and "t \<le> tcTerm (esTopology n)"
    and run: "startVoteRequester env t n = Some n'"
  shows "progress c votes answered i n n'"
proof -
  let ?n = "n\<lparr>esWork := NoWork\<rparr>"
  obtain st m where m: "startRequester env False (OnVoteRequestComplete t) ?n = Some (st, m)"
      "n' = m \<or> loseElection m = Some n'"
    using run by (auto simp: startVoteRequester_def run_simps split: if_splits)
  have "progress c votes answered i ?n m"
    using assms(3-6) by (intro startRequester_progress [OF assms(1,2) _ _ _ _ m(1)]) (auto simp: work_ok_def selfVote_def)
  then have "progress c votes answered i n m" using progress_cong [of ?n n] by simp
  then show ?thesis using m(2) loseElection_progress by blast
qed

lemma electable_voter: "cluster_config c \<Longrightarrow> i < length (members c) \<Longrightarrow> isElectable (members c ! i) \<Longrightarrow> i \<in> voters c"
  by (simp add: cluster_config_def config_wf_def voters_def)

lemma startElectSelfV1_progress:
  assumes c: "cluster_config c" and ok: "\<forall>(k, j)\<in>answered. j \<in> set (otherVoters c (int k))"
    and b: "ballot_ok c i (esTopology n)" and w: "work_ok votes i n" and i: "i < length (members c)"
    and run: "startElectSelfV1 env n = Some n'"
  shows "progress c votes answered i n n'"
proof -
  have none: "esVoteRequester n = None" using run by (simp add: startElectSelfV1_def run_simps)
  then have idle: "progress c votes answered i n n" using idle_progress b w by (simp add: requester_ok_def)
  show ?thesis
  proof (cases "esConfigState n \<in> {kConfigInitiating, kConfigReconfiguring, kConfigHBReconfiguring}")
    case True
    then obtain s where s: "processLoseElection (esTopology n) = Some s" "n' = n\<lparr>esTopology := s\<rparr>"
      using run by (simp add: startElectSelfV1_def invariant_bind) blast
    then have "loseElection n = Some (n'\<lparr>esElectionWinnerDeclarer := False, esVoteRequester := None\<rparr>)" by (simp add: loseElection_def)
    from loseElection_progress [OF idle this] show ?thesis using none s(2)
      by (simp add: progress_def requester_ok_def work_ok_def selfVote_def victory_def)
  next
    case False
    then have rest: "(if \<not> envMakesEvents env then Some n
       else do {
         me \<leftarrow> selfConfig (esTopology n);
         invariant (isElectable me);
         if OpTime_eq (envLastOpTime env) nullOpTime then loseElection n
         else do {
           (status, n) \<leftarrow> startRequester env True (OnDryRunComplete (tcTerm (esTopology n))) n;
           if status = StatusError ShutdownInProgress then loseElection n
           else do { invariant (status = StatusOK); Some n }
         }
       }) = Some n'"
      using run by (simp only: startElectSelfV1_def invariant_bind if_False)
    consider (idle) "n' = n" | (lose) "loseElection n = Some n'"
      | (start) st m me where "startRequester env True (OnDryRunComplete (tcTerm (esTopology n))) n = Some (st, m)" "n' = m \<or> loseElection m = Some n'"
          "selfConfig (esTopology n) = Some me" "isElectable me"
      using rest by (cases "envMakesEvents env"; cases "OpTime_eq (envLastOpTime env) nullOpTime")
        (auto simp: bind_eq_Some_conv split: if_splits)
    then show ?thesis
    proof cases
      case start
      have "me = members c ! i" using start(3) b i by (auto simp: selfConfig_def getMemberAt_def ballot_ok_def run_simps)
      then have "i \<in> voters c" using start(4) electable_voter [OF c i] by simp
      then have "progress c votes answered i n m" using startRequester_progress [OF c ok b w _ _ start(1)] by blast
      then show ?thesis using start(2) loseElection_progress by blast
    qed (use idle loseElection_progress [OF idle] in simp_all)
  qed
qed

lemma writeLastVote_progress:
  assumes b: "ballot_ok c i (esTopology n)" and q: "requester_ok c votes answered i n" and w: "work_ok votes i n"
    and v: "esWork n = WriteLastVote v" and run: "writeLastVoteForMyElection canceled stored env v n = Some n'"
  shows "progress c votes answered i n n'"
proof -
  have keep: "progress c votes answered i n (n\<lparr>esWork := x\<rparr>)" if "work_ok votes i (n\<lparr>esWork := x\<rparr>)" for x
    using b q that by (intro idle_progress) (simp_all add: requester_ok_def)
  have "work_ok votes i (n\<lparr>esWork := NoWork\<rparr>)" "work_ok votes i (n\<lparr>esWork := StartVoteRequester (lvTerm v)\<rparr>)"
    using w v by (auto simp: work_ok_def selfVote_def)
  note keeps = this [THEN keep]
  have "loseElection (n\<lparr>esWork := NoWork\<rparr>) = Some n' \<or> n' = n\<lparr>esWork := StartVoteRequester (lvTerm v)\<rparr>"
    using run by (auto simp: writeLastVoteForMyElection_def invariant_bind Let_def split: if_splits)
  then show ?thesis using keeps loseElection_progress [OF keeps(1)] by blast
qed

lemma runner_processResponse_votes:
  assumes "runner_processResponse voteAlgorithm req resp r = Some r'"
  shows "srCallbacks r' = srCallbacks r \<and> (srAlgorithm r' = srAlgorithm r \<or> vote_processResponse req resp (srAlgorithm r) = Some (srAlgorithm r'))"
proof (cases "resp = Inl CallbackCanceled")
  case False
  then have "do {
      let r = r\<lparr>srActualResponses := Suc (srActualResponses r)\<rparr>;
      a \<leftarrow> vote_processResponse req resp (srAlgorithm r);
      let r = r\<lparr>srAlgorithm := a\<rparr>;
      if vote_hasReceivedSufficientResponses a then Some (signalSufficientResponsesReceived r)
      else do { invariant (srActualResponses r < length (srCallbacks r)); Some r } } = Some r'"
    using assms by (auto simp: runner_processResponse_def voteAlgorithm_def split: sum.splits ErrorCode.splits)
  then show ?thesis by (auto simp: bind_eq_Some_conv signalSufficientResponsesReceived_def Let_def split: if_splits)
qed (use assms in \<open>simp add: runner_processResponse_def\<close>)

lemma collecting_answer:
  assumes "collecting votes answered i t r" and "runner_processResponse voteAlgorithm req resp r = Some r'" and "req \<in> set (srCallbacks r)"
    and "(i, j) \<notin> answered" and "granted (req, resp) \<Longrightarrow> (j, vaTerm (srAlgorithm r), int i) \<in> votes"
    and "\<forall>(k, j)\<in>answered. j \<in> set (otherVoters c (int k))"
  shows "collecting votes (insert (i, j) answered) i t r'"
proof -
  let ?a = "srAlgorithm r" and ?b = "srAlgorithm r'" and ?T = "vaTerm (srAlgorithm r)"
  have b: "vaTerm ?b = ?T" "vaVotes ?b \<le> vaVotes ?a + of_bool (granted (req, resp))" "srCallbacks r' = srCallbacks r"
    using runner_processResponse_votes [OF assms(2)] vote_processResponse_frame [of req resp ?a ?b] vote_processResponse_votes [of req resp ?a ?b]
    by auto
  have fin: "finite (heard votes answered i ?T)" using assms(6) by (rule heard_finite)
  have "heard votes (insert (i, j) answered) i ?T = heard votes answered i ?T \<union> (if (j, ?T, int i) \<in> votes then {j} else {})"
    by (auto simp: heard_def)
  moreover have "j \<notin> heard votes answered i ?T" using assms(4) by (simp add: heard_def)
  ultimately have "int (card (heard votes (insert (i, j) answered) i ?T)) \<ge> int (card (heard votes answered i ?T)) + of_bool (granted (req, resp))"
    using fin assms(5) by auto
  then show ?thesis using assms(1) b by (simp add: collecting_def Let_def)
qed

lemma receiveVote_progress:
  assumes c: "cluster_config c" and ok: "\<forall>(k, j)\<in>insert (i, j) answered. j \<in> set (otherVoters c (int k))"
    and b: "ballot_ok c i (esTopology n)" and q: "requester_ok c votes answered i n" and w: "work_ok votes i n"
    and r: "esVoteRequester n = Some r" and new: "(i, j) \<notin> answered" and req: "req \<in> set (srCallbacks r)"
    and granted: "granted (req, resp) \<Longrightarrow> \<not> rvDryRun (rqCommand req) \<Longrightarrow> (j, rvTerm (rqCommand req), rvCandidateIndex (rqCommand req)) \<in> votes"
    and run: "receiveVote env req resp n = Some n'"
  shows "progress c votes (insert (i, j) answered) i n n'"
proof -
  obtain r' where r': "runner_processResponse voteAlgorithm req resp r = Some r'"
      "(if srCompletions r' > srCompletions r then runCallback env (n\<lparr>esVoteRequester := Some r'\<rparr>) else Some (n\<lparr>esVoteRequester := Some r'\<rparr>)) = Some n'"
    using run r by (auto simp: receiveVote_def bind_eq_Some_conv Let_def)
  let ?n = "n\<lparr>esVoteRequester := Some r'\<rparr>"
  have frame: "vaConfig (srAlgorithm r') = vaConfig (srAlgorithm r)" "vaCandidateIndex (srAlgorithm r') = vaCandidateIndex (srAlgorithm r)"
      "vaTerm (srAlgorithm r') = vaTerm (srAlgorithm r)"
    using runner_processResponse_votes [OF r'(1)] vote_processResponse_frame [of req resp "srAlgorithm r" "srAlgorithm r'"] by auto
  have "collecting votes (insert (i, j) answered) i t r'" if "collecting votes answered i t r" for t
  proof (rule collecting_answer [OF that r'(1) req new, where c = c])
    show "granted (req, resp) \<Longrightarrow> (j, vaTerm (srAlgorithm r), int i) \<in> votes"
      using granted that req by (auto simp: collecting_def Let_def)
  qed (use ok in auto)
  then have q': "requester_ok c votes (insert (i, j) answered) i ?n" using q r frame by (simp add: requester_ok_def)
  have b': "ballot_ok c i (esTopology ?n)" and w': "work_ok votes i ?n" using b w by (simp_all add: work_ok_def selfVote_def)
  show ?thesis
  proof (cases "srCompletions r' > srCompletions r")
    case True
    then have "progress c votes (insert (i, j) answered) i ?n n'" using r'(2) callback_progress [OF c ok b' q' w', of r' env n'] by simp
    then show ?thesis using progress_cong [of ?n n] by simp
  next
    case False
    then have "n' = ?n" using r'(2) by simp
    then show ?thesis using idle_progress [of n' n c i votes] b q' w' by simp
  qed
qed

lemma updateTerm_ballot:
  assumes "ballot_ok c i s"
  shows "ballot_ok c i (snd (updateTerm_incallback t now p s)) \<and> tcLastVote (snd (updateTerm_incallback t now p s)) = tcLastVote s \<and>
    tcTerm s \<le> tcTerm (snd (updateTerm_incallback t now p s))"
  using assms by (auto simp: updateTerm_incallback_def updateTerm_def prepareForStepDown_def ballot_ok_def split: prod.splits)

subsection \<open>Every step keeps the invariant\<close>

lemma ordinary_ballot:
  assumes "handle isoDate e s = Some s'" and "ordinary e" and "ballot_ok c i s"
  shows "ballot_ok c i s' \<and> tcLastVote s' = tcLastVote s \<and> tcTerm s \<le> tcTerm s'"
proof (cases "concernsBallot e")
  case True
  then obtain t now p where "e = UpdateTerm t now p" using assms(2) by (cases e) auto
  then show ?thesis using assms(1,3) updateTerm_ballot by auto
next
  case False
  then show ?thesis using ballot_eq [OF handle_keeps_ballot [OF assms(1) False], of c i] assms(3) by simp
qed

lemma setTopology_inv:
  assumes inv: "cluster_inv c cl" and i: "i < length (clNodes cl)"
    and s: "ballot_ok c i s" "tcTerm (esTopology (clNodes cl ! i)) \<le> tcTerm s"
    and mono: "lvTerm (tcLastVote (esTopology (clNodes cl ! i))) \<le> lvTerm (tcLastVote s)"
    and new: "V = {} \<or> (\<exists>x. V = {(i, lvTerm (tcLastVote s), x)}) \<and> lvTerm (tcLastVote (esTopology (clNodes cl ! i))) < lvTerm (tcLastVote s)"
    and sent: "\<forall>(j, args, v)\<in>S. rrVoteGranted v \<and> \<not> rvDryRun args \<longrightarrow> (j, rvTerm args, rvCandidateIndex args) \<in> clVotes cl \<union> V"
  shows "cluster_inv c ((setTopology i s cl)\<lparr>clSent := clSent cl \<union> S, clVotes := clVotes cl \<union> V\<rparr>)"
proof -
  let ?n = "(clNodes cl ! i)\<lparr>esTopology := s\<rparr>"
  have old: "requester_ok c (clVotes cl) (clAnswered cl) i (clNodes cl ! i)" "work_ok (clVotes cl) i (clNodes cl ! i)"
    and answered: "\<forall>(k, j)\<in>clAnswered cl. j \<in> set (otherVoters c (int k))"
    using inv i by (auto simp: cluster_inv_def)
  have "requester_ok c (clVotes cl) (clAnswered cl) i ?n" "work_ok (clVotes cl) i ?n"
    using old s(2) by (auto simp: requester_ok_def work_ok_def selfVote_def)
  then have own: "requester_ok c (clVotes cl \<union> V) (clAnswered cl) i ?n" "work_ok (clVotes cl \<union> V) i ?n"
    using requester_ok_mono [OF _ _ answered] work_ok_mono by (metis sup_ge1)+
  show ?thesis
    by (rule cluster_inv_step [OF inv i, where n' = ?n and V = V])
      (use s own mono new sent answered in \<open>auto simp: setTopology_def\<close>)
qed

lemma castVote_ballot:
  assumes "processReplSetRequestVotes args lastOp s = (response, s')" and "ballot_ok c i s" and "rvTerm args \<le> tcTerm s"
  shows "ballot_ok c i s' \<and> tcTerm s' = tcTerm s \<and>
    (if rrVoteGranted response \<and> \<not> rvDryRun args
     then lvTerm (tcLastVote s) < rvTerm args \<and> tcLastVote s' = \<lparr>lvTerm = rvTerm args, lvCandidateIndex = rvCandidateIndex args\<rparr>
     else tcLastVote s' = tcLastVote s)"
  using assms by (auto simp: processReplSetRequestVotes_def Let_def ballot_ok_def split: if_splits)

lemma cluster_inv_node:
  assumes "cluster_inv c cl" and "i < length (clNodes cl)"
  shows "ballot_ok c i (esTopology (clNodes cl ! i))" "requester_ok c (clVotes cl) (clAnswered cl) i (clNodes cl ! i)"
    "work_ok (clVotes cl) i (clNodes cl ! i)" "i < length (members c)"
  using assms by (simp_all add: cluster_inv_def)

lemma cluster_inv_answered: "cluster_inv c cl \<Longrightarrow> \<forall>(k, j)\<in>clAnswered cl. j \<in> set (otherVoters c (int k))"
  by (simp add: cluster_inv_def)

lemma cluster_inv_forgot: "cluster_inv c cl \<Longrightarrow> \<forall>(k, j)\<in>{(k, j) \<in> clAnswered cl. k \<noteq> i}. j \<in> set (otherVoters c (int k))"
  using cluster_inv_answered [of c cl] by auto

lemma forgetAnswers_inv:
  assumes "cluster_inv c cl" and "i < length (clNodes cl)"
    and "progress c (clVotes cl) {(k, j) \<in> clAnswered cl. k \<noteq> i} i (clNodes cl ! i) n"
  shows "cluster_inv c (moveTo i n (forgetAnswers i cl))"
  unfolding forgetAnswers_def using cluster_inv_forgot [OF assms(1)] by (intro moveTo_inv [OF assms]) auto

lemma castVote_inv:
  assumes inv: "cluster_inv c cl" and step: "clusterStep isoDate (CastVote j args lastOp) cl = Some cl'"
  shows "cluster_inv c cl'"
proof -
  obtain response s where vote: "processReplSetRequestVotes args lastOp (esTopology (clNodes cl ! j)) = (response, s)"
    by (cases "processReplSetRequestVotes args lastOp (esTopology (clNodes cl ! j))")
  let ?V = "if rrVoteGranted response \<and> \<not> rvDryRun args then {(j, rvTerm args, rvCandidateIndex args)} else {}"
  have j: "j < length (clNodes cl)" "rvTerm args \<le> tcTerm (esTopology (clNodes cl ! j))"
    and cl': "cl' = (setTopology j s cl)\<lparr>clSent := clSent cl \<union> {(j, args, response)}, clVotes := clVotes cl \<union> ?V\<rparr>"
    using step vote by (auto simp: invariant_bind Let_def setTopology_def split: if_splits)
  show ?thesis unfolding cl' using castVote_ballot [OF vote cluster_inv_node(1) [OF inv j(1)] j(2)]
    by (intro setTopology_inv [OF inv j(1)]) (auto split: if_splits)
qed

lemma requestVotesOfOthers_inv:
  assumes inv: "cluster_inv c cl" and c: "cluster_config c" and step: "clusterStep isoDate (RequestVotesOfOthers i env) cl = Some cl'"
  shows "cluster_inv c cl'"
proof -
  obtain t n where n: "i < length (clNodes cl)" "esWork (clNodes cl ! i) = StartVoteRequester t"
      "startVoteRequester env t (clNodes cl ! i) = Some n" "cl' = moveTo i n (forgetAnswers i cl)"
    using step by (auto simp: invariant_bind bind_eq_Some_conv split: ElectionWork.splits)
  note node = cluster_inv_node [OF inv n(1)]
  have vote: "(i, t, int i) \<in> clVotes cl" using node(3) n(2) by (simp add: work_ok_def)
  then have "t \<le> lvTerm (tcLastVote (esTopology (clNodes cl ! i)))" using inv by (auto simp: cluster_inv_def)
  then have "t \<le> tcTerm (esTopology (clNodes cl ! i))" using node(1) by (simp add: ballot_ok_def)
  moreover have "i \<in> voters c" using n(3) node(2) by (auto simp: startVoteRequester_def invariant_bind requester_ok_def)
  ultimately show ?thesis unfolding n(4) using n(1,3) vote
    by (intro forgetAnswers_inv [OF inv] startVoteRequester_progress [OF c cluster_inv_forgot [OF inv] node(1)])
qed

lemma answer_inv:
  assumes inv: "cluster_inv c cl" and c: "cluster_config c" and step: "clusterStep isoDate (Answer i j env response) cl = Some cl'"
  shows "cluster_inv c cl'"
proof -
  obtain r req n where a: "i < length (clNodes cl)" "esVoteRequester (clNodes cl ! i) = Some r"
      "j \<in> set (otherVoters (vaConfig (srAlgorithm r)) (vaCandidateIndex (srAlgorithm r)))" "(i, j) \<notin> clAnswered cl"
      "find (\<lambda>req. rqTarget req = mcHost (members (vaConfig (srAlgorithm r)) ! j)) (srCallbacks r) = Some req"
      "case response of Inl e \<Rightarrow> True | Inr v \<Rightarrow> (j, rqCommand req, v) \<in> clSent cl"
      "receiveVote env req response (clNodes cl ! i) = Some n" "cl' = moveTo i n (cl\<lparr>clAnswered := insert (i, j) (clAnswered cl)\<rparr>)"
    using step by (auto simp: invariant_bind bind_eq_Some_conv Let_def)
  note node = cluster_inv_node [OF inv a(1)]
  have req: "req \<in> set (srCallbacks r)" using a(5) by (auto simp: find_Some_iff)
  have ok: "\<forall>(k, j)\<in>insert (i, j) (clAnswered cl). j \<in> set (otherVoters c (int k))"
    using cluster_inv_answered [OF inv] a(2,3) node(2) by (auto simp: requester_ok_def)
  have granted: "(j, rvTerm (rqCommand req), rvCandidateIndex (rqCommand req)) \<in> clVotes cl"
    if "granted (req, response)" "\<not> rvDryRun (rqCommand req)"
    using that a(6) inv by (cases response) (auto simp: granted_def cluster_inv_def)
  have "progress c (clVotes cl) (insert (i, j) (clAnswered cl)) i (clNodes cl ! i) n"
    by (rule receiveVote_progress [OF c ok node(1) node(2) node(3) a(2,4) req granted a(7)]) (use a(1) in simp_all)
  then show ?thesis unfolding a(8) using ok by (intro moveTo_inv [OF inv a(1)]) auto
qed

lemma clusterStep_inv:
  assumes inv: "cluster_inv c cl" and c: "cluster_config c" and step: "clusterStep isoDate e cl = Some cl'"
  shows "cluster_inv c cl'"
proof (cases e)
  case (NodeEvent i ev)
  then obtain s where s: "i < length (clNodes cl)" "ordinary ev" "handle isoDate ev (esTopology (clNodes cl ! i)) = Some s" "cl' = setTopology i s cl"
    using step by (auto simp: invariant_bind bind_eq_Some_conv Let_def)
  have "setTopology i s cl = (setTopology i s cl)\<lparr>clSent := clSent cl \<union> {}, clVotes := clVotes cl \<union> {}\<rparr>" by (simp add: setTopology_def)
  then show ?thesis using s ordinary_ballot [OF s(3,2) cluster_inv_node(1) [OF inv s(1)]] setTopology_inv [OF inv s(1), of s "{}" "{}"] by simp
next
  case (StartElection i env)
  then obtain n where n: "i < length (clNodes cl)" "startElectSelfV1 env (clNodes cl ! i) = Some n" "cl' = moveTo i n (forgetAnswers i cl)"
    using step by (auto simp: invariant_bind bind_eq_Some_conv)
  note node = cluster_inv_node [OF inv n(1)]
  show ?thesis unfolding n(3)
    using n(1,2) by (intro forgetAnswers_inv [OF inv] startElectSelfV1_progress [OF c cluster_inv_forgot [OF inv] node(1) node(3) node(4)])
next
  case (StoreVote i canceled stored env)
  then obtain v n where n: "i < length (clNodes cl)" "esWork (clNodes cl ! i) = WriteLastVote v"
      "writeLastVoteForMyElection canceled stored env v (clNodes cl ! i) = Some n" "cl' = moveTo i n cl"
    using step by (auto simp: invariant_bind bind_eq_Some_conv split: ElectionWork.splits)
  note node = cluster_inv_node [OF inv n(1)]
  have "cluster_inv c (moveTo i n (cl\<lparr>clAnswered := clAnswered cl\<rparr>))"
    using cluster_inv_answered [OF inv] n(1) by (intro moveTo_inv [OF inv n(1)] writeLastVote_progress [OF node(1) node(2) node(3) n(2,3)]) auto
  then show ?thesis using n(4) by simp
next
  case (Answer i j env response)
  then show ?thesis using answer_inv [OF inv c] step by (simp only:)
qed (use castVote_inv requestVotesOfOthers_inv assms in blast)+

lemma cluster_reachable_inv:
  assumes "cluster_reachable isoDate c cl" and "cluster_config c"
  shows "cluster_inv c cl"
  using assms(1)
proof (induction rule: cluster_reachable.induct)
  case (cluster_init cl)
  then show ?case
    by (auto simp: initialCluster_def initialNode_def cluster_inv_def ballot_ok_def requester_ok_def work_ok_def selfVote_def list_all_iff)
next
  case (cluster_step cl e cl')
  then show ?case using clusterStep_inv assms(2) by blast
qed

lemma elected_unique:
  assumes "cluster_inv c cl" and "elected c (clVotes cl) (i, t)" and "elected c (clVotes cl) (j, t)"
  shows "i = j"
proof -
  obtain Q Q' where "voteMajority c Q" "voteMajority c Q'" "\<And>v. v \<in> Q \<Longrightarrow> (v, t, int i) \<in> clVotes cl" "\<And>v. v \<in> Q' \<Longrightarrow> (v, t, int j) \<in> clVotes cl"
    using assms(2,3) by (auto simp: elected_def)
  moreover have "(v, t, x) \<in> clVotes cl \<Longrightarrow> (v, t, y) \<in> clVotes cl \<Longrightarrow> x = y" for v x y
    using assms(1) unfolding cluster_inv_def by blast
  ultimately have "int i = int j" by (rule maj.agreement [where voted = "\<lambda>v x. (v, t, x) \<in> clVotes cl"])
  then show ?thesis by simp
qed

end
