(* ===== verification/Spec2Isabelle.thy ===== *)
theory Spec2Isabelle
  imports LockRequestList LockSystem FastMap DeadlockDetector NetName Hex WriteConcern TopologyTheorems QuorumCheck ElectionCommands
    ElectionSafety
begin

text \<open>
  A verification library for two parts of the database server under \<^verbatim>\<open>src/src/mongo\<close>: the lock manager
  (\<^verbatim>\<open>db/concurrency\<close>) and the replica set core (\<^verbatim>\<open>db/repl\<close>), with the small pieces of \<^verbatim>\<open>base\<close>, \<^verbatim>\<open>util\<close> and
  \<^verbatim>\<open>bson\<close> that they use. Paths below are relative to \<^verbatim>\<open>src/src/mongo\<close>.

  \<^bold>\<open>Conventions.\<close> Objects are records with the data members of the source, enumerations are datatypes, a method is a function
  from the old state to the result and the new state. A failed \<open>invariant()\<close> or \<open>fassert\<close>, an access out of range and a null
  dereference are the value \<^const>\<open>None\<close> of the option monad (theory \<open>Prelude\<close>), so that a theorem which says that a run is
  \<^const>\<open>Some\<close> also says that the process does not abort. Errors that the source returns as a \<open>Status\<close> are values of a sum
  type. Masks of lock modes and of reasons, resource ids, timestamps and ping counts are machine words; counters of requests, dates
  and terms are unbounded numbers. Objects that several lists share (lock requests) live in a store indexed by their address. Log messages
  and the texts of most error messages are left out.

  \<^bold>\<open>The lock manager.\<close>
  \<^item> \<open>LockModes\<close>: modes, conflict table, coverage and the packed \<open>ResourceId\<close> of \<^verbatim>\<open>lock_manager_defs.h\<close>. The mask test agrees with
    the compatibility matrix.
  \<^item> \<open>LockRequestList\<close>: the intrusive linked list of \<^verbatim>\<open>lock_request_list.h\<close> on a store of pointers. Locale \<open>request_list\<close> is what
    the lock heads rely on; the list refines a sequence of requests, which justifies the use of plain lists afterwards.
  \<^item> \<open>LockHead\<close>: \<open>LockRequest\<close>, \<open>LockHead\<close> and \<open>_onLockModeChanged\<close> of \<^verbatim>\<open>lock_manager.cpp\<close>; locale \<open>mode_counter\<close> for the two
    counter arrays with their masks. Invariant: counters and masks describe the queues, granted modes are compatible, and no
    request waits that could be granted.
  \<^item> \<open>LockManager\<close>: buckets, partitions for intent locks, \<open>lock\<close> (with fast and slow path as two critical sections), \<open>convert\<close>,
    \<open>unlock\<close>, \<open>downgrade\<close>, migration of partitioned heads and \<open>cleanupUnusedLocks\<close>. \<open>LockRelease\<close>: what giving up modes does.
  \<^item> \<open>LockSystem\<close>: the inductive step relation of concurrent clients, one step for each critical section. In every reachable state
    no two lockers hold conflicting modes and no wakeup is lost; each operation is specified on each of its outcomes.
  \<^item> \<open>DeadlockDetector\<close>: the search of the wait-for graph; \<open>check\<close> is a partial function, and the theorem says that it returns, and
    then answers exactly whether there is a cycle, on a state of the lock manager that does not change meanwhile.
  \<^item> \<open>FastMap\<close>: \<open>FastMapNoAlloc\<close> of \<^verbatim>\<open>fast_map_noalloc.h\<close>; locale \<open>slot_map\<close>, insertion, lookup, removal and iteration.

  \<^bold>\<open>Values and configurations of a replica set.\<close>
  \<^item> \<open>BaseTypes\<close>, \<open>ParseNumber\<close> (\<^verbatim>\<open>base/parse_number.cpp\<close>), \<open>Hex\<close> (\<^verbatim>\<open>util/hex.cpp\<close>), \<open>NetName\<close> (\<^verbatim>\<open>util/net/hostandport.cpp\<close>): status
    codes, integers in any base and network names, with round trips and the equivalence of the overflow tests to one range check.
  \<^item> \<open>ReplTypes\<close>: timestamps, optimes, member states, votes. \<open>ReplicaSetTags\<close>: \<^verbatim>\<open>replica_set_tag.cpp\<close>, the tag table and the matcher.
  \<^item> \<open>ReplConfig\<close> and \<open>WriteConcern\<close>: \<^verbatim>\<open>member_config.cpp\<close> and \<^verbatim>\<open>replica_set_config.cpp\<close>: validation, majorities, internal tags and write
    concern modes. Locale \<open>quorum\<close>: two majorities share a voter, so that votes cannot elect two candidates.
  \<^item> \<open>HeartbeatData\<close>: \<^verbatim>\<open>member_heartbeat_data.cpp\<close>, ping statistics and heartbeat actions.

  \<^bold>\<open>The topology coordinator\<close>, \<^verbatim>\<open>topology_coordinator_impl.cpp\<close>.
  \<^item> \<open>TopologyState\<close> (data members and queries), \<open>TopologyCommands\<close> (replies to commands), \<open>TopologyCoord\<close> (the methods that change the
    state, and the callbacks of \<^verbatim>\<open>replication_coordinator_impl.cpp\<close> that combine them).
  \<^item> \<open>TopologyInvariant\<close>, \<open>TopologySteps\<close>, \<open>TopologyHeartbeat\<close>: the invariant, and that every method keeps it and does not abort.
  \<^item> \<open>TopologySystem\<close>: the coordinator as a state machine over the calls that the replication coordinator makes on it;
    \<open>allowed\<close> states what the caller guarantees of each call. \<open>TopologyTheorems\<close>: no reachable state aborts, roles agree with the
    notion of the primary, and the decisions on elections, sync sources, step down and reconfiguration.

  \<^bold>\<open>Elections.\<close>
  \<^item> \<open>ScatterGather\<close>: \<^verbatim>\<open>scatter_gather_runner.cpp\<close>. Locale \<open>scatter_gather\<close> states the contract between the runner and an algorithm;
    it is interpreted for the five algorithms of \<open>VoteRequester\<close> (\<^verbatim>\<open>vote_requester.cpp\<close>), \<open>QuorumCheck\<close>
    (\<^verbatim>\<open>check_quorum_for_config_change.cpp\<close>) and \<open>ElectionCommands\<close> (\<^verbatim>\<open>freshness_checker.cpp\<close>, \<^verbatim>\<open>elect_cmd_runner.cpp\<close>,
    \<^verbatim>\<open>election_winner_declarer.cpp\<close>), and gives that each of them completes once, whatever the order of the responses.
  \<^item> \<open>ElectionFrame\<close>: which events of the topology coordinator leave the last vote and the term alone.
  \<^item> \<open>ElectionV1\<close>: the handlers of \<^verbatim>\<open>replication_coordinator_impl_elect_v1.cpp\<close>: dry run, vote for oneself, vote request, outcome.
  \<^item> \<open>ElectionSafety\<close> and this theory: a replica set as the composition of its members' coordinators and handlers with a network
    that delays, reorders and drops messages; at most one member wins in each term.

  \<^bold>\<open>Bounds and fuel.\<close> The only fuel is that of the list walks in \<open>LockRequestList\<close>; the length of the represented sequence is enough,
  as the refinement theorem says. The lock manager has the 128 buckets and 32 partitions of the source; the number of slots of a
  \<open>FastMapNoAlloc\<close>, of members and of requests is arbitrary. The order of steps is unrestricted in the step relations; the witnesses use sets of three members and a few requests.

  \<^bold>\<open>Parameters.\<close> What the executor answers (whether work can be scheduled, the responses that arrive), the clock, the order in
  which a bucket yields its entries, the formatting of dates and \<open>Locker::getWaitingResource\<close> are arguments of the definitions.

  \<^bold>\<open>Not modelled.\<close> Mutexes and condition variables themselves: a critical section is one step. BSON forms of the values:
  requests and replies are records of the fields that the code reads and writes. Lockers, tickets and statistics on top of the
  lock manager; waiters for write concern, snapshots and persistence in the replication coordinator; the handlers of protocol
  version 0 elections, though not the algorithms they run; oplog application, initial sync and rollback; storage engines, queries,
  sharding, networking, authentication and the shell: mostly I/O or other subsystems. The safety of elections assumes that
  the configuration stays the same and that no member restarts, and leaves out sets of a single member and the freeze command
  during an election, which make a member primary without votes.
\<close>

section \<open>Elections of a replica set\<close>

subsection \<open>A sample election\<close>

fun clusterRun :: "(Date_t \<Rightarrow> string) \<Rightarrow> ClusterEvent list \<Rightarrow> Cluster \<Rightarrow> Cluster option" where
  "clusterRun isoDate [] cl = Some cl"
| "clusterRun isoDate (e # es) cl = do { cl \<leftarrow> clusterStep isoDate e cl; clusterRun isoDate es cl }"

lemma clusterRun_reachable: "cluster_reachable isoDate c cl \<Longrightarrow> clusterRun isoDate es cl = Some cl' \<Longrightarrow> cluster_reachable isoDate c cl'"
  by (induction es arbitrary: cl) (auto simp: bind_eq_Some_conv intro: cluster_step)

text \<open>The members of a set of protocol version 1 join; the first one hears of the second and stands for election.\<close>

definition sampleSetV1 :: ReplicaSetConfig where
  "sampleSetV1 = sampleSet\<lparr>protocolVersion := 1\<rparr>"

definition sampleOpV1 :: OpTime where
  "sampleOpV1 = OpTime (Timestamp 5 0) 0"

definition sampleMemberV1 :: "int \<Rightarrow> TopologyEvent list \<Rightarrow> ElectionState" where
  "sampleMemberV1 self es = \<lparr>esTopology = the (sampleRun ([UpdateConfig sampleSetV1 self, SetFollowerMode False RS_SECONDARY] @ es)),
     esConfigState = kConfigSteady, esVoteRequester = None, esCallback = OnDryRunComplete 0, esWork = NoWork,
     esElectionWinnerDeclarer = False, esFreshnessChecker = False\<rparr>"

definition sampleCandidacy :: "TopologyEvent list" where
  "sampleCandidacy =
     [HeartbeatRequestV1 1000 ''rs0'' (HostAndPort ''b'' 1),
      HeartbeatResponse 1001 5 (HostAndPort ''b'' 1)
        (Inr (newHeartbeatResponse\<lparr>rspState := Some RS_SECONDARY, rspOpTime := Some sampleOpV1, rspElectable := Some True\<rparr>)) sampleOpV1,
      BecomeCandidate 2000 sampleOpV1]"

definition sampleCluster :: Cluster where
  "sampleCluster = \<lparr>clNodes = [sampleMemberV1 0 sampleCandidacy, sampleMemberV1 1 [], sampleMemberV1 2 []],
     clVotes = {}, clSent = {}, clAnswered = {}, clWins = {}\<rparr>"

definition sampleEnv :: Environment where
  "sampleEnv = \<lparr>envNow = 3000, envMakesEvents = True, envStarts = True, envAccepts = (\<lambda>_. True), envSchedules = True,
     envTimestamp = Timestamp 6 0, envIsPrimary = False, envLastOpTime = sampleOpV1\<rparr>"

definition sampleRequest :: "bool \<Rightarrow> Term \<Rightarrow> ReplSetRequestVotesArgs" where
  "sampleRequest dry t = \<lparr>rvSetName = ''rs0'', rvDryRun = dry, rvTerm = t, rvCandidateIndex = 0, rvConfigVersion = 1,
     rvLastCommittedOp = sampleOpV1\<rparr>"

definition sampleYes :: "Term \<Rightarrow> ReplSetRequestVotesResponse ResponseStatus" where
  "sampleYes t = Inr \<lparr>rrTerm = t, rrVoteGranted = True, rrReason = NoReason\<rparr>"

definition sampleElection :: "ClusterEvent list" where
  "sampleElection =
     [StartElection 0 sampleEnv, CastVote 1 (sampleRequest True 0) sampleOpV1, Answer 0 1 sampleEnv (sampleYes 0),
      StoreVote 0 False True sampleEnv, RequestVotesOfOthers 0 sampleEnv, NodeEvent 1 (UpdateTerm 1 4000 False),
      CastVote 1 (sampleRequest False 1) sampleOpV1, Answer 0 1 sampleEnv (sampleYes 1)]"

lemma updateConfig_installs: "yields (updateConfig c self s) (\<lambda>s'. tcConfig s' = c \<and> tcSelfIndex s' = self)"
  unfolding updateConfig_def Let_def by (intro yields_intros) simp_all

lemma handleAll_ballot: "handleAll isoDate es s = Some s' \<Longrightarrow> list_all (\<lambda>e. \<not> concernsBallot e) es \<Longrightarrow> ballot s' = ballot s"
  by (induction es arbitrary: s) (auto simp: bind_eq_Some_conv split: if_splits dest: handle_keeps_ballot)

lemma sampleMemberV1_installed:
  assumes "sampleRun (UpdateConfig c self # es) = Some s" and "list_all (\<lambda>e. \<not> concernsBallot e) es"
  shows "tcConfig s = c" "tcSelfIndex s = self"
proof -
  obtain s1 where "updateConfig c self (newTopologyCoordinator 30 ModeNONE) = Some s1" "handleAll noDate es s1 = Some s"
    using assms(1) by (auto simp: sampleRun_def bind_eq_Some_conv split: if_splits)
  then have "tcConfig s1 = c" "tcSelfIndex s1 = self" "ballot s = ballot s1"
    using yieldsD [OF updateConfig_installs] handleAll_ballot assms(2) by blast+
  then show "tcConfig s = c" "tcSelfIndex s = self" by (simp_all add: ballot_def)
qed

lemma sampleMemberV1_run:
  "case sampleRun ([UpdateConfig sampleSetV1 0, SetFollowerMode False RS_SECONDARY] @ sampleCandidacy) of None \<Rightarrow> False
   | Some s \<Rightarrow> lvTerm (tcLastVote s) \<le> tcTerm s"
  "case sampleRun ([UpdateConfig sampleSetV1 1, SetFollowerMode False RS_SECONDARY] @ []) of None \<Rightarrow> False
   | Some s \<Rightarrow> lvTerm (tcLastVote s) \<le> tcTerm s"
  "case sampleRun ([UpdateConfig sampleSetV1 2, SetFollowerMode False RS_SECONDARY] @ []) of None \<Rightarrow> False
   | Some s \<Rightarrow> lvTerm (tcLastVote s) \<le> tcTerm s"
  "cluster_config sampleSetV1 \<and> length (members sampleSetV1) = 3"
  by code_simp+

lemma sampleMemberV1_initial:
  assumes "case sampleRun ([UpdateConfig sampleSetV1 (int i), SetFollowerMode False RS_SECONDARY] @ es) of None \<Rightarrow> False
     | Some s \<Rightarrow> lvTerm (tcLastVote s) \<le> tcTerm s" and "list_all (\<lambda>e. \<not> concernsBallot e) es"
  shows "initialNode sampleSetV1 i (sampleMemberV1 (int i) es)"
proof -
  obtain s where s: "sampleRun (UpdateConfig sampleSetV1 (int i) # SetFollowerMode False RS_SECONDARY # es) = Some s"
      "lvTerm (tcLastVote s) \<le> tcTerm s"
    using assms(1) by (auto split: option.splits)
  then show ?thesis using sampleMemberV1_installed [OF s(1)] assms(2) by (simp add: initialNode_def sampleMemberV1_def)
qed

lemma sampleCluster_initial: "initialCluster sampleSetV1 sampleCluster"
  using sampleMemberV1_initial [of 0 sampleCandidacy] sampleMemberV1_initial [of 1 "[]"] sampleMemberV1_initial [of 2 "[]"] sampleMemberV1_run
  by (simp add: initialCluster_def sampleCluster_def sampleCandidacy_def numeral_2_eq_2 numeral_3_eq_3)

lemma sampleElection_run:
  "(case clusterRun noDate sampleElection sampleCluster of None \<Rightarrow> False | Some cl \<Rightarrow> (0, 1) \<in> clWins cl)"
  by code_simp

subsection \<open>Safety\<close>

text \<open>C5: At most one member of a replica set wins an election of protocol version 1 in each term. The configuration stays the
  same and the members do not restart; apart from that they may handle any calls in any order, learn of newer terms at any time,
  and stand for election at any time, and vote requests and answers may be delayed, reordered and lost.\<close>

theorem election_safety:
  assumes "cluster_config c" and "cluster_reachable isoDate c cl" and "(i, t) \<in> clWins cl" and "(j, t) \<in> clWins cl"
  shows "i = j"
proof -
  have inv: "cluster_inv c cl" using assms(2,1) by (rule cluster_reachable_inv)
  then have "elected c (clVotes cl) (i, t)" "elected c (clVotes cl) (j, t)" using assms(3,4) by (auto simp: cluster_inv_def)
  then show ?thesis by (rule elected_unique [OF inv])
qed

theorem election_safety_witness:
  "\<exists>cl. cluster_config sampleSetV1 \<and> cluster_reachable noDate sampleSetV1 cl \<and> (0, 1) \<in> clWins cl \<and> (1, 1) \<notin> clWins cl"
proof -
  obtain cl where run: "clusterRun noDate sampleElection sampleCluster = Some cl" "(0, 1) \<in> clWins cl" "cluster_config sampleSetV1"
    using sampleElection_run sampleMemberV1_run(4) by (auto split: option.splits)
  have "cluster_reachable noDate sampleSetV1 cl"
    by (rule clusterRun_reachable [OF cluster_init [OF sampleCluster_initial] run(1)])
  then show ?thesis using election_safety [OF run(3) _ run(2), of noDate 1] run by auto
qed

end
